(* ===== verification/R2CP_Prelude.thy ===== *)
theory R2CP_Prelude
  imports Main "HOL-Library.Word"
begin

text \<open>
  Shared vocabulary of the development: machine integers, the outcomes of a C++ call
  (a returned value, a thrown exception, undefined behaviour), programs over a state,
  the vector operations the sources use, and the generic lemmas about them.

  A C++ member function that reads and writes fields of its object is modelled by a
  function of type \<open>('s, 'a) prog\<close>: it takes the object's state and returns the outcome
  of the call together with the state it leaves behind, also when it throws (C++ does not
  roll a member back when an exception leaves a function).
\<close>

unbundle bit_operations_syntax

named_theorems prog_simps \<open>symbolic execution of programs\<close>
named_theorems wire_simps \<open>lengths and contents of encoded bytes\<close>

subsection \<open>Machine integers\<close>

type_synonym u8 = "8 word"
type_synonym u16 = "16 word"
type_synonym u32 = "32 word"
type_synonym u64 = "64 word"
type_synonym bytes = "8 word list"

text \<open>\<open>uint32_t n = v.size();\<close> truncates the 64-bit size to 32 bits.\<close>

definition size32 :: "'a list \<Rightarrow> u32" where
  "size32 xs = word_of_nat (length xs)"

lemma unat_word_of_nat32: "n < 2 ^ 32 \<Longrightarrow> unat (word_of_nat n :: u32) = n"
  by (simp add: unat_of_nat take_bit_eq_mod)

lemma unat_size32: "length xs < 2 ^ 32 \<Longrightarrow> unat (size32 xs) = length xs"
  by (simp add: size32_def unat_of_nat take_bit_eq_mod)

lemma unat_size32_le: "unat (size32 xs) \<le> length xs"
  by (simp add: size32_def unat_of_nat take_bit_eq_mod)

lemma size32_Nil [simp]: "size32 [] = 0"
  by (simp add: size32_def)

lemma size32_Cons: "size32 (x # xs) = size32 xs + 1"
  by (simp add: size32_def)

lemma size32_append: "size32 (xs @ ys) = size32 xs + size32 ys"
  by (simp add: size32_def)

lemma size32_pos_iff: "length xs < 2 ^ 32 \<Longrightarrow> 0 < size32 xs \<longleftrightarrow> xs \<noteq> []"
  by (metis length_greater_0_conv size32_Nil unat_gt_0 unat_size32 word_gt_0 word_neq_0_conv)

lemma unat_u32_bound: "unat (x :: u32) < 2 ^ 32"
  using unsigned_less [of x] by simp

text \<open>Counting loops \<open>for(uint32_t i = a; i < n; i++)\<close> end because \<open>n - i\<close> shrinks.\<close>

lemma word_loop_decreases: "i < n \<Longrightarrow> unat (n - (i + 1)) < unat (n - (i :: u32))"
  by unat_arith

lemma unat_suc_less: "i < n \<Longrightarrow> unat (i + 1) = Suc (unat (i :: u32))"
  by unat_arith

lemma unat_add_no_wrap:
  "unat a + unat b < 2 ^ 32 \<Longrightarrow> unat (a + b :: u32) = unat a + unat b"
  by (simp add: unat_word_ariths)

lemma u8_bit_cases: "n < 8 \<Longrightarrow> n = 0 \<or> n = 1 \<or> n = 2 \<or> n = 3 \<or> n = 4 \<or> n = 5 \<or> n = 6 \<or> n = (7 :: nat)"
  by auto

lemma u8_eqI:
  assumes "bit a 0 = bit b 0" "bit a 1 = bit b 1" "bit a 2 = bit b 2" "bit a 3 = bit b 3"
    "bit a 4 = bit b 4" "bit a 5 = bit b 5" "bit a 6 = bit b 6" "bit a 7 = bit (b :: u8) 7"
  shows "a = b"
proof (rule bit_word_eqI)
  fix n assume "n < LENGTH(8)"
  then show "bit a n = bit b n" using u8_bit_cases [of n] assms by auto
qed

subsection \<open>Outcomes and programs\<close>

text \<open>
  The exception classes the sources throw and catch, with the message \<open>what()\<close> returns.
  \<open>websocketpp::exception\<close> is the class of the WebSocket library.
\<close>

datatype exn_kind = OutOfRange | InvalidArgument | OverflowError | UnderflowError
  | WebsocketppException

datatype exn = Exn (exn_kind: exn_kind) (what: string)

datatype 'a outcome = Ret 'a | Throw exn | Undefined

type_synonym ('s, 'a) prog = "'s \<Rightarrow> 'a outcome \<times> 's"

fun obind :: "'a outcome \<Rightarrow> ('a \<Rightarrow> 'b outcome) \<Rightarrow> 'b outcome" where
  "obind (Ret a) f = f a"
| "obind (Throw e) f = Throw e"
| "obind Undefined f = Undefined"

lemma obind_eq_Ret_iff: "obind m f = Ret b \<longleftrightarrow> (\<exists>a. m = Ret a \<and> f a = Ret b)"
  by (cases m) auto

definition ret :: "'a \<Rightarrow> ('s, 'a) prog" where
  "ret a = (\<lambda>s. (Ret a, s))"

definition throwM :: "exn \<Rightarrow> ('s, 'a) prog" where
  "throwM e = (\<lambda>s. (Throw e, s))"

definition undefM :: "('s, 'a) prog" where
  "undefM = (\<lambda>s. (Undefined, s))"

definition bindM :: "('s, 'a) prog \<Rightarrow> ('a \<Rightarrow> ('s, 'b) prog) \<Rightarrow> ('s, 'b) prog" where
  "bindM m f = (\<lambda>s. case m s of
      (Ret a, s') \<Rightarrow> f a s'
    | (Throw e, s') \<Rightarrow> (Throw e, s')
    | (Undefined, s') \<Rightarrow> (Undefined, s'))"

text \<open>\<open>try { m } catch(k &e) { h e }\<close>: only exceptions of class \<open>k\<close> are caught.\<close>

definition catchM :: "('s, 'a) prog \<Rightarrow> exn_kind \<Rightarrow> (exn \<Rightarrow> ('s, 'a) prog) \<Rightarrow> ('s, 'a) prog" where
  "catchM m k h = (\<lambda>s. case m s of
      (Throw e, s') \<Rightarrow> if exn_kind e = k then h e s' else (Throw e, s')
    | r \<Rightarrow> r)"

definition liftO :: "'a outcome \<Rightarrow> ('s, 'a) prog" where
  "liftO r = (\<lambda>s. (r, s))"

definition getM :: "('s \<Rightarrow> 'a) \<Rightarrow> ('s, 'a) prog" where
  "getM f = (\<lambda>s. (Ret (f s), s))"

definition modifyM :: "('s \<Rightarrow> 's) \<Rightarrow> ('s, unit) prog" where
  "modifyM f = (\<lambda>s. (Ret (), f s))"

text \<open>A program on a part of the state, given by its reader and writer.\<close>

definition zoomM :: "('s \<Rightarrow> 't) \<Rightarrow> ('t \<Rightarrow> 's \<Rightarrow> 's) \<Rightarrow> ('t, 'a) prog \<Rightarrow> ('s, 'a) prog" where
  "zoomM rd wr m = (\<lambda>s. case m (rd s) of (r, t) \<Rightarrow> (r, wr t s))"

lemmas prog_defs [prog_simps] = ret_def throwM_def undefM_def liftO_def getM_def modifyM_def

lemma bindM_Ret [prog_simps]: "m s = (Ret a, s') \<Longrightarrow> bindM m f s = f a s'"
  by (simp add: bindM_def)

lemma bindM_Throw [prog_simps]: "m s = (Throw e, s') \<Longrightarrow> bindM m f s = (Throw e, s')"
  by (simp add: bindM_def)

lemma bindM_Undefined [prog_simps]: "m s = (Undefined, s') \<Longrightarrow> bindM m f s = (Undefined, s')"
  by (simp add: bindM_def)

lemma bindM_ret [simp]: "bindM (ret a) f = f a"
  by (simp add: bindM_def ret_def fun_eq_iff)

lemma bindM_throwM [simp]: "bindM (throwM e) f = throwM e"
  by (simp add: bindM_def throwM_def fun_eq_iff)

lemma bindM_undefM [simp]: "bindM undefM f = undefM"
  by (simp add: bindM_def undefM_def fun_eq_iff)

lemma bindM_liftO_Ret [simp]: "bindM (liftO (Ret a)) f = f a"
  by (simp add: bindM_def liftO_def fun_eq_iff)

lemma bindM_liftO_Throw [simp]: "bindM (liftO (Throw e)) f = throwM e"
  by (simp add: bindM_def liftO_def throwM_def fun_eq_iff)

lemma bindM_getM [simp]: "bindM (getM g) f = (\<lambda>s. f (g s) s)"
  by (simp add: bindM_def getM_def fun_eq_iff)

lemma bindM_modifyM [simp]: "bindM (modifyM g) f = (\<lambda>s. f () (g s))"
  by (simp add: bindM_def modifyM_def fun_eq_iff)

lemma bindM_split:
  "P (bindM m f s) = ((\<forall>a s'. m s = (Ret a, s') \<longrightarrow> P (f a s')) \<and>
     (\<forall>e s'. m s = (Throw e, s') \<longrightarrow> P (Throw e, s')) \<and>
     (\<forall>s'. m s = (Undefined, s') \<longrightarrow> P (Undefined, s')))"
  by (auto simp: bindM_def split: prod.splits outcome.splits)

lemma bindM_eq_Ret_iff:
  "bindM m f s = (Ret b, t) \<longleftrightarrow> (\<exists>a s'. m s = (Ret a, s') \<and> f a s' = (Ret b, t))"
  by (auto simp: bindM_def split: prod.splits outcome.splits)

lemma catchM_Ret [prog_simps]: "m s = (Ret a, s') \<Longrightarrow> catchM m k h s = (Ret a, s')"
  by (simp add: catchM_def)

lemma catchM_Throw [prog_simps]:
  "m s = (Throw e, s') \<Longrightarrow> catchM m k h s = (if exn_kind e = k then h e s' else (Throw e, s'))"
  by (simp add: catchM_def)

lemma catchM_Undefined [prog_simps]: "m s = (Undefined, s') \<Longrightarrow> catchM m k h s = (Undefined, s')"
  by (simp add: catchM_def)

text \<open>
  Triples for programs: whatever state satisfying \<open>P\<close> the program starts from, it has defined
  behaviour, a returned value satisfies \<open>Q\<close> with the state left behind, and so does a thrown
  exception with \<open>E\<close>.
\<close>

definition safeM :: "('s \<Rightarrow> bool) \<Rightarrow> ('s, 'a) prog \<Rightarrow> ('a \<Rightarrow> 's \<Rightarrow> bool) \<Rightarrow> (exn \<Rightarrow> 's \<Rightarrow> bool) \<Rightarrow> bool" where
  "safeM P m Q E = (\<forall>s. P s \<longrightarrow> (case m s of
      (Ret a, t) \<Rightarrow> Q a t | (Throw e, t) \<Rightarrow> E e t | (Undefined, t) \<Rightarrow> False))"

lemma safeM_ret: "(\<And>s. P s \<Longrightarrow> Q a s) \<Longrightarrow> safeM P (ret a) Q E"
  by (simp add: safeM_def ret_def)

lemma safeM_throwM: "(\<And>s. P s \<Longrightarrow> E e s) \<Longrightarrow> safeM P (throwM e) Q E"
  by (simp add: safeM_def throwM_def)

lemma safeM_getM: "(\<And>s. P s \<Longrightarrow> Q (f s) s) \<Longrightarrow> safeM P (getM f) Q E"
  by (simp add: safeM_def getM_def)

lemma safeM_modifyM: "(\<And>s. P s \<Longrightarrow> Q () (f s)) \<Longrightarrow> safeM P (modifyM f) Q E"
  by (simp add: safeM_def modifyM_def)

lemma safeM_bindM:
  "safeM P m R E \<Longrightarrow> (\<And>a. safeM (R a) (f a) Q E) \<Longrightarrow> safeM P (bindM m f) Q E"
  by (fastforce simp: safeM_def bindM_def split: prod.splits outcome.splits)

lemma safeM_catchM:
  "safeM P m Q F \<Longrightarrow> (\<And>e. exn_kind e = k \<Longrightarrow> safeM (F e) (h e) Q E) \<Longrightarrow>
   (\<And>e s. exn_kind e \<noteq> k \<Longrightarrow> F e s \<Longrightarrow> E e s) \<Longrightarrow> safeM P (catchM m k h) Q E"
  by (fastforce simp: safeM_def catchM_def split: prod.splits outcome.splits)

lemma safeM_weaken:
  "safeM P m Q E \<Longrightarrow> (\<And>s. P' s \<Longrightarrow> P s) \<Longrightarrow> (\<And>a s. Q a s \<Longrightarrow> Q' a s) \<Longrightarrow>
   (\<And>e s. E e s \<Longrightarrow> E' e s) \<Longrightarrow> safeM P' m Q' E'"
  by (fastforce simp: safeM_def split: prod.splits outcome.splits)

lemma safeM_if:
  "(b \<Longrightarrow> safeM P m Q E) \<Longrightarrow> (\<not> b \<Longrightarrow> safeM P n Q E) \<Longrightarrow> safeM P (if b then m else n) Q E"
  by simp

text \<open>Programs that leave a view of the state alone.\<close>

definition keepsM :: "('s \<Rightarrow> 'v) \<Rightarrow> ('s, 'a) prog \<Rightarrow> bool" where
  "keepsM view m \<longleftrightarrow> (\<forall>s. view (snd (m s)) = view s)"

named_theorems keeps_intros \<open>programs that keep a view\<close>

lemma keepsM_prims [keeps_intros]:
  "keepsM view (ret a)" "keepsM view (throwM e)" "keepsM view undefM" "keepsM view (liftO r)"
  "keepsM view (getM f)"
  by (simp_all add: keepsM_def ret_def throwM_def undefM_def liftO_def getM_def)

lemma keepsM_modifyM: "(\<And>s. view (f s) = view s) \<Longrightarrow> keepsM view (modifyM f)"
  by (simp add: keepsM_def modifyM_def)

lemma keepsM_bindM [keeps_intros]:
  "keepsM view m \<Longrightarrow> (\<And>a. keepsM view (f a)) \<Longrightarrow> keepsM view (bindM m f)"
  unfolding keepsM_def bindM_def by (auto split: prod.splits outcome.splits) (metis snd_conv)+

lemma keepsM_catchM [keeps_intros]:
  "keepsM view m \<Longrightarrow> (\<And>e. keepsM view (h e)) \<Longrightarrow> keepsM view (catchM m k h)"
  unfolding keepsM_def catchM_def by (auto split: prod.splits outcome.splits) (metis snd_conv)+

lemma keepsM_if [keeps_intros]:
  "keepsM view m \<Longrightarrow> keepsM view n \<Longrightarrow> keepsM view (if b then m else n)"
  by simp

lemma keepsM_zoomM: "(\<And>s t. t = snd (m (rd s)) \<Longrightarrow> view (wr t s) = view s) \<Longrightarrow> keepsM view (zoomM rd wr m)"
  by (auto simp: keepsM_def zoomM_def split: prod.splits) (metis snd_conv)

lemma keepsM_D: "keepsM view m \<Longrightarrow> m s = (r, t) \<Longrightarrow> view t = view s"
  unfolding keepsM_def by (metis snd_conv)

subsection \<open>Decimal output, as \<open>%u\<close> and \<open>operator<<\<close> print it\<close>

definition digit_char :: "int \<Rightarrow> char" where
  "digit_char d = char_of (48 + d)"

fun idec :: "int \<Rightarrow> string" where
  "idec n = (if n < 10 then [digit_char n] else idec (n div 10) @ [digit_char (n mod 10)])"

declare idec.simps [simp del]

definition udec :: "nat \<Rightarrow> string" where
  "udec n = idec (int n)"

lemma idec_length_le: "n < 10 ^ Suc k \<Longrightarrow> length (idec n) \<le> Suc k"
proof (induction k arbitrary: n)
  case 0
  then show ?case by (simp add: idec.simps)
next
  case (Suc k)
  show ?case
  proof (cases "n < 10")
    case True
    then show ?thesis by (simp add: idec.simps)
  next
    case False
    have "n < 10 * 10 ^ Suc k" using Suc.prems by simp
    then have "n div 10 < 10 ^ Suc k" by linarith
    then have "length (idec (n div 10)) \<le> Suc k" by (rule Suc.IH)
    with False show ?thesis by (subst idec.simps) simp
  qed
qed

lemma idec_length_ge: "10 ^ k \<le> n \<Longrightarrow> k < length (idec n)"
proof (induction k arbitrary: n)
  case 0
  then show ?case by (subst idec.simps) simp
next
  case (Suc k)
  have p: "1 \<le> (10 :: int) ^ k" and le: "10 * 10 ^ k \<le> n" using Suc.prems by simp_all
  from p le have "10 \<le> n" by linarith
  moreover from le have "10 ^ k \<le> n div 10" by linarith
  then have "k < length (idec (n div 10))" by (rule Suc.IH)
  ultimately show ?case by (subst idec.simps) simp
qed

lemma idec_nonempty [simp]: "idec n \<noteq> []"
  by (subst idec.simps) simp

lemma idec_u32_length: "length (idec (uint (x :: u32))) \<le> 10"
proof -
  have "uint x < 2 ^ LENGTH(32)" by (rule unsigned_less)
  then have "uint x < 10 ^ Suc 9" by simp
  then show ?thesis using idec_length_le [of "uint x" 9] by simp
qed

lemma udec_length_le: "n < 10 ^ Suc k \<Longrightarrow> length (udec n) \<le> Suc k"
  unfolding udec_def by (rule idec_length_le) (metis of_nat_less_iff of_nat_numeral of_nat_power)

subsection \<open>Vectors\<close>

text \<open>
  \<open>v.at(i)\<close> throws \<open>std::out_of_range\<close> when \<open>i\<close> is not below the size; the text of that
  exception is the one of libstdc++. \<open>v[i]\<close> out of range is undefined behaviour.
\<close>

definition range_check_what :: "nat \<Rightarrow> nat \<Rightarrow> string" where
  "range_check_what i n = ''vector::_M_range_check: __n (which is '' @ udec i @
     '') >= this->size() (which is '' @ udec n @ '')''"

definition vec_at :: "'a list \<Rightarrow> nat \<Rightarrow> 'a outcome" where
  "vec_at v i = (if i < length v then Ret (v ! i)
     else Throw (Exn OutOfRange (range_check_what i (length v))))"

definition vec_set :: "'a list \<Rightarrow> nat \<Rightarrow> 'a \<Rightarrow> 'a list outcome" where
  "vec_set v i x = (if i < length v then Ret (v[i := x]) else Undefined)"

lemma vec_at_in [simp]: "i < length v \<Longrightarrow> vec_at v i = Ret (v ! i)"
  by (simp add: vec_at_def)

lemma vec_at_out: "length v \<le> i \<Longrightarrow>
   vec_at v i = Throw (Exn OutOfRange (range_check_what i (length v)))"
  by (simp add: vec_at_def)

subsection \<open>Big-endian integers\<close>

text \<open>The value of four bytes, most significant first, and the bytes of a value.\<close>

definition join32 :: "u8 \<Rightarrow> u8 \<Rightarrow> u8 \<Rightarrow> u8 \<Rightarrow> u32" where
  "join32 b0 b1 b2 b3 =
     push_bit 24 (ucast b0) OR push_bit 16 (ucast b1) OR push_bit 8 (ucast b2) OR ucast b3"

definition be32 :: "u32 \<Rightarrow> bytes" where
  "be32 x = [ucast (drop_bit 24 x), ucast (drop_bit 16 x), ucast (drop_bit 8 x), ucast x]"

lemma length_be32 [simp, wire_simps]: "length (be32 x) = 4"
  by (simp add: be32_def)

lemma join32_bit: "n < 32 \<Longrightarrow> bit (join32 b0 b1 b2 b3) n =
   (if n < 8 then bit b3 n else if n < 16 then bit b2 (n - 8)
    else if n < 24 then bit b1 (n - 16) else bit b0 (n - 24))"
  by (auto simp: join32_def bit_simps dest: bit_imp_le_length)

lemma join32_be32:
  "join32 (ucast (drop_bit 24 x)) (ucast (drop_bit 16 x)) (ucast (drop_bit 8 x)) (ucast x) = x"
  by (rule bit_word_eqI) (auto simp: join32_bit bit_simps)

lemma byte_masks32:
  "(4278190080 :: u32) = push_bit 24 (mask 8)" "(16711680 :: u32) = push_bit 16 (mask 8)"
  "(65280 :: u32) = push_bit 8 (mask 8)" "(255 :: u32) = mask 8"
  by (simp_all add: mask_eq_exp_minus_1 push_bit_eq_mult)

lemma masked_bytes32:
  "(ucast (drop_bit 24 (x AND 4278190080 :: u32)) :: u8) = ucast (drop_bit 24 x)"
  "(ucast (drop_bit 16 (x AND 16711680 :: u32)) :: u8) = ucast (drop_bit 16 x)"
  "(ucast (drop_bit 8 (x AND 65280 :: u32)) :: u8) = ucast (drop_bit 8 x)"
  "(ucast (x AND 255 :: u32) :: u8) = ucast x"
  unfolding byte_masks32 by (rule bit_word_eqI; auto simp: bit_simps)+

subsection \<open>Thread pointers\<close>

text \<open>A \<open>std::thread *\<close> member: the constructors of the sources do not initialise it.\<close>

datatype thread_ptr = Uninitialised | Nullptr | Thread

subsection \<open>Interfaces\<close>

text \<open>An encoder whose outputs the decoder maps back, on the values that are valid.\<close>

locale codec =
  fixes valid :: "'a \<Rightarrow> bool" and encode :: "'a \<Rightarrow> 'b" and decode :: "'b \<Rightarrow> 'a outcome"
  assumes decode_encode: "valid x \<Longrightarrow> decode (encode x) = Ret x"
begin

lemma encode_injective: "valid x \<Longrightarrow> valid y \<Longrightarrow> encode x = encode y \<Longrightarrow> x = y"
  using decode_encode by (metis outcome.inject)

lemma decode_defined: "valid x \<Longrightarrow> \<exists>y. decode (encode x) = Ret y"
  using decode_encode by blast

end

text \<open>States a step relation reaches, and invariants of them.\<close>

inductive reachable :: "('s \<Rightarrow> bool) \<Rightarrow> ('s \<Rightarrow> 's \<Rightarrow> bool) \<Rightarrow> 's \<Rightarrow> bool"
  for init :: "'s \<Rightarrow> bool" and step :: "'s \<Rightarrow> 's \<Rightarrow> bool" where
  reachable_init: "init s \<Longrightarrow> reachable init step s"
| reachable_step: "reachable init step s \<Longrightarrow> step s t \<Longrightarrow> reachable init step t"

locale invariant =
  fixes init :: "'s \<Rightarrow> bool" and step :: "'s \<Rightarrow> 's \<Rightarrow> bool" and inv :: "'s \<Rightarrow> bool"
  assumes inv_init: "init s \<Longrightarrow> inv s"
    and inv_step: "inv s \<Longrightarrow> step s t \<Longrightarrow> inv t"
begin

lemma reachable_inv: "reachable init step s \<Longrightarrow> inv s"
  by (induction rule: reachable.induct) (auto intro: inv_init inv_step)

end

end
