(* ===== verification/R2CPCommandDictionary.thy ===== *)
theory R2CPCommandDictionary
  imports R2CP_Prelude
begin

text \<open>
  \<open>R2CPCommandDictionary.hpp\<close> and \<open>R2CPCommandDictionary.cpp\<close>: the codes of the built-in
  commands and parameters, and the singleton dictionary that says which codes are commands,
  what kind of content a command carries and which parameters it accepts.
\<close>

subsection \<open>Codes\<close>

definition MOTORPWMENABLE :: u32 where "MOTORPWMENABLE = 1"
definition MOTORPWMDISABLE :: u32 where "MOTORPWMDISABLE = 2"
definition MOTORIDLE :: u32 where "MOTORIDLE = 3"
definition MOTORDUTYCYCLE :: u32 where "MOTORDUTYCYCLE = 4"
definition IMAGESEND :: u32 where "IMAGESEND = 5"
definition IMAGERECEIVE :: u32 where "IMAGERECEIVE = 6"
definition ROBOTSHUTDOWN :: u32 where "ROBOTSHUTDOWN = 7"
definition PRINTMESSAGE :: u32 where "PRINTMESSAGE = 8"
definition INVALIDCOMMAND :: u32 where "INVALIDCOMMAND = 9"

lemmas command_code_defs = MOTORPWMENABLE_def MOTORPWMDISABLE_def MOTORIDLE_def
  MOTORDUTYCYCLE_def IMAGESEND_def IMAGERECEIVE_def ROBOTSHUTDOWN_def PRINTMESSAGE_def
  INVALIDCOMMAND_def

definition NOPARAMETERS :: u32 where "NOPARAMETERS = 0"
definition MOTORRIGHT :: u32 where "MOTORRIGHT = 1"
definition MOTORLEFT :: u32 where "MOTORLEFT = 2"
definition IMAGEWIDTH :: u32 where "IMAGEWIDTH = 3"
definition IMAGEHEIGHT :: u32 where "IMAGEHEIGHT = 4"
definition IMAGECHANNELS :: u32 where "IMAGECHANNELS = 5"
definition IMAGEDATA :: u32 where "IMAGEDATA = 6"
definition IMAGEBMP :: u32 where "IMAGEBMP = 7"
definition IMAGEPNG :: u32 where "IMAGEPNG = 8"
definition IMAGEJPEG :: u32 where "IMAGEJPEG = 9"
definition IMAGEGIF :: u32 where "IMAGEGIF = 10"
definition INVALIDPARAMETER :: u32 where "INVALIDPARAMETER = 11"

lemmas parameter_code_defs = NOPARAMETERS_def MOTORRIGHT_def MOTORLEFT_def IMAGEWIDTH_def
  IMAGEHEIGHT_def IMAGECHANNELS_def IMAGEDATA_def IMAGEBMP_def IMAGEPNG_def IMAGEJPEG_def
  IMAGEGIF_def INVALIDPARAMETER_def

definition NOCONTENT :: u32 where "NOCONTENT = 0"
definition DIRECTCONTENT :: u32 where "DIRECTCONTENT = 1"
definition PARAMETERIZEDCONTENT :: u32 where "PARAMETERIZEDCONTENT = 2"

lemmas content_type_defs = NOCONTENT_def DIRECTCONTENT_def PARAMETERIZEDCONTENT_def

subsection \<open>The dictionary\<close>

record command_dictionary =
  commandsset :: "u32 set"
  parametersset :: "u32 set"
  commandparametersmap :: "u32 \<rightharpoonup> u32 set"
  commandcontenttypemap :: "u32 \<rightharpoonup> u32"

text \<open>
  The constructor. The set \<open>imageparametersset\<close> it declares is never filled: the image
  parameters are inserted into \<open>motordutycycleparametersset\<close>.
\<close>

definition motordutycycleparametersset :: "u32 set" where
  "motordutycycleparametersset =
     {MOTORRIGHT, MOTORLEFT} \<union>
     {IMAGEWIDTH, IMAGECHANNELS, IMAGEDATA, IMAGEBMP, IMAGEPNG, IMAGEJPEG, IMAGEGIF}"

definition R2CPCommandDictionary_init :: command_dictionary where
  "R2CPCommandDictionary_init = \<lparr>
     commandsset = {MOTORPWMENABLE, MOTORPWMDISABLE, MOTORIDLE, MOTORDUTYCYCLE, IMAGESEND,
       IMAGERECEIVE, ROBOTSHUTDOWN, PRINTMESSAGE, INVALIDCOMMAND},
     parametersset = {NOPARAMETERS, MOTORRIGHT, MOTORLEFT, IMAGEWIDTH, IMAGEHEIGHT,
       IMAGECHANNELS, IMAGEDATA, INVALIDPARAMETER},
     commandparametersmap = [
       MOTORPWMENABLE \<mapsto> {NOPARAMETERS},
       MOTORPWMDISABLE \<mapsto> {NOPARAMETERS},
       MOTORIDLE \<mapsto> {NOPARAMETERS},
       MOTORDUTYCYCLE \<mapsto> motordutycycleparametersset,
       IMAGESEND \<mapsto> motordutycycleparametersset,
       IMAGERECEIVE \<mapsto> motordutycycleparametersset,
       ROBOTSHUTDOWN \<mapsto> {NOPARAMETERS},
       PRINTMESSAGE \<mapsto> {NOPARAMETERS},
       INVALIDCOMMAND \<mapsto> {INVALIDPARAMETER}],
     commandcontenttypemap = [
       MOTORPWMENABLE \<mapsto> NOCONTENT,
       MOTORPWMDISABLE \<mapsto> NOCONTENT,
       MOTORIDLE \<mapsto> NOCONTENT,
       MOTORDUTYCYCLE \<mapsto> PARAMETERIZEDCONTENT,
       IMAGESEND \<mapsto> PARAMETERIZEDCONTENT,
       IMAGERECEIVE \<mapsto> PARAMETERIZEDCONTENT,
       ROBOTSHUTDOWN \<mapsto> NOCONTENT,
       PRINTMESSAGE \<mapsto> DIRECTCONTENT,
       INVALIDCOMMAND \<mapsto> NOCONTENT]\<rparr>"

text \<open>
  The lookups. \<open>map[k]\<close> inserts a default value for a missing key; the keys looked up are
  members of \<open>commandsset\<close>, and \<open>dictionary_total\<close> below says these are keys of both maps, so
  a lookup never changes the dictionary.
\<close>

definition map_subscript :: "('k \<rightharpoonup> 'v) \<Rightarrow> 'v \<Rightarrow> 'k \<Rightarrow> 'v" where
  "map_subscript m dflt k = (case m k of Some v \<Rightarrow> v | None \<Rightarrow> dflt)"

definition getcommandparameters :: "command_dictionary \<Rightarrow> u32 \<Rightarrow> u32 set" where
  "getcommandparameters d commandcode =
     (if commandcode \<in> commandsset d
      then map_subscript (commandparametersmap d) {} commandcode
      else {INVALIDPARAMETER})"

definition getcommandcontenttype :: "command_dictionary \<Rightarrow> u32 \<Rightarrow> u32" where
  "getcommandcontenttype d commandcode =
     (if commandcode \<in> commandsset d
      then map_subscript (commandcontenttypemap d) 0 commandcode
      else NOCONTENT)"

definition checkifvalidcommand :: "command_dictionary \<Rightarrow> u32 \<Rightarrow> bool" where
  "checkifvalidcommand d commandcode \<longleftrightarrow>
     commandcode \<noteq> INVALIDCOMMAND \<and> commandcode \<in> commandsset d"

text \<open>The singleton every component reads.\<close>

definition rcd :: command_dictionary where
  "rcd = R2CPCommandDictionary_init"

subsection \<open>What the dictionary holds\<close>

lemma dictionary_total:
  "commandsset rcd = dom (commandparametersmap rcd)"
  "commandsset rcd = dom (commandcontenttypemap rcd)"
  by (auto simp: rcd_def R2CPCommandDictionary_init_def)

lemma valid_command_iff:
  "checkifvalidcommand rcd c \<longleftrightarrow> c \<in> {1, 2, 3, 4, 5, 6, 7, 8}"
  by (auto simp: checkifvalidcommand_def rcd_def R2CPCommandDictionary_init_def command_code_defs)

lemma contenttype_eq:
  "getcommandcontenttype rcd c =
     (if c \<in> {4, 5, 6} then PARAMETERIZEDCONTENT else if c = 8 then DIRECTCONTENT else NOCONTENT)"
  by (auto simp: getcommandcontenttype_def map_subscript_def rcd_def
      R2CPCommandDictionary_init_def command_code_defs content_type_defs)

lemma contenttype_cases:
  "getcommandcontenttype rcd c = NOCONTENT \<or> getcommandcontenttype rcd c = DIRECTCONTENT \<or>
   getcommandcontenttype rcd c = PARAMETERIZEDCONTENT"
  by (simp add: contenttype_eq)

lemma parameters_eq:
  "getcommandparameters rcd c =
     (if c \<in> {4, 5, 6} then {1, 2, 3, 5, 6, 7, 8, 9, 10}
      else if c \<in> {1, 2, 3, 7, 8} then {0} else {11})"
  by (auto simp: getcommandparameters_def map_subscript_def rcd_def
      R2CPCommandDictionary_init_def command_code_defs parameter_code_defs
      motordutycycleparametersset_def)

lemma content_types_distinct [simp]:
  "NOCONTENT \<noteq> DIRECTCONTENT" "NOCONTENT \<noteq> PARAMETERIZEDCONTENT"
  "DIRECTCONTENT \<noteq> PARAMETERIZEDCONTENT" "DIRECTCONTENT \<noteq> NOCONTENT"
  "PARAMETERIZEDCONTENT \<noteq> NOCONTENT" "PARAMETERIZEDCONTENT \<noteq> DIRECTCONTENT"
  by (simp_all add: content_type_defs)

end
