(* ===== verification/R2CPCommand.thy ===== *)
theory R2CPCommand
  imports R2CPCommandDictionary
begin

text \<open>
  \<open>R2CPParameter.hpp/.cpp\<close> and \<open>R2CPCommand.hpp/.cpp\<close>: a parameter is a code with its data, a
  command is a code with its parameters. The getters that return references are the record's
  selectors (\<open>getcommandparameters\<close> of a command is \<open>getcommandparameters_of\<close>); \<open>getparameterdatasize\<close> and \<open>getnumberofcommandparameters\<close> truncate a size to 32
  bits. The two deep copies write through \<open>operator[]\<close> into a vector that has capacity but no
  elements.
\<close>

record r2cpparameter =
  param_code :: u32
  param_data :: bytes

record r2cpcommand =
  cmd_code :: u32
  cmd_params :: "r2cpparameter list"

definition R2CPParameter_init :: "u32 \<Rightarrow> bytes \<Rightarrow> r2cpparameter" where
  "R2CPParameter_init c d = \<lparr>param_code = c, param_data = d\<rparr>"

definition getparametercode :: "r2cpparameter \<Rightarrow> u32" where
  "getparametercode p = param_code p"

definition getparameterdata :: "r2cpparameter \<Rightarrow> bytes" where
  "getparameterdata p = param_data p"

definition getparameterdatasize :: "r2cpparameter \<Rightarrow> u32" where
  "getparameterdatasize p = size32 (param_data p)"

definition R2CPCommand_init :: "u32 \<Rightarrow> r2cpparameter list \<Rightarrow> r2cpcommand" where
  "R2CPCommand_init c ps = \<lparr>cmd_code = c, cmd_params = ps\<rparr>"

definition getcommandcode :: "r2cpcommand \<Rightarrow> u32" where
  "getcommandcode c = cmd_code c"

definition getcommandparameters_of :: "r2cpcommand \<Rightarrow> r2cpparameter list" where
  "getcommandparameters_of c = cmd_params c"

definition getnumberofcommandparameters :: "r2cpcommand \<Rightarrow> u32" where
  "getnumberofcommandparameters c = size32 (cmd_params c)"

lemmas getter_defs = getparametercode_def getparameterdata_def getparameterdatasize_def
  getcommandcode_def getcommandparameters_of_def getnumberofcommandparameters_def
  R2CPParameter_init_def R2CPCommand_init_def

subsection \<open>Deep copies\<close>

function parameterdata_copy_loop :: "bytes \<Rightarrow> u32 \<Rightarrow> u32 \<Rightarrow> bytes \<Rightarrow> bytes outcome" where
  "parameterdata_copy_loop src i n dst =
     (if i < n then
        obind (vec_at src (unat i)) (\<lambda>b.
        obind (vec_set dst (unat i) b) (\<lambda>dst'.
        parameterdata_copy_loop src (i + 1) n dst'))
      else Ret dst)"
  by pat_completeness auto
termination
  by (relation "measure (\<lambda>(src, i, n, dst). unat (n - i))") (auto intro: word_loop_decreases)

declare parameterdata_copy_loop.simps [simp del]

definition getparameterdatadeepcopy :: "r2cpparameter \<Rightarrow> bytes outcome" where
  "getparameterdatadeepcopy p =
     parameterdata_copy_loop (param_data p) 0 (size32 (param_data p)) []"

function parameters_copy_loop :: "r2cpparameter list \<Rightarrow> u32 \<Rightarrow> u32 \<Rightarrow> r2cpparameter list
    \<Rightarrow> r2cpparameter list outcome" where
  "parameters_copy_loop src i n dst =
     (if i < n then
        obind (vec_at src (unat i)) (\<lambda>p.
        obind (getparameterdatadeepcopy p) (\<lambda>d.
        obind (vec_set dst (unat i) (R2CPParameter_init (getparametercode p) d)) (\<lambda>dst'.
        parameters_copy_loop src (i + 1) n dst')))
      else Ret dst)"
  by pat_completeness auto
termination
  by (relation "measure (\<lambda>(src, i, n, dst). unat (n - i))") (auto intro: word_loop_decreases)

declare parameters_copy_loop.simps [simp del]

definition getcommandparametersdeepcopy :: "r2cpcommand \<Rightarrow> r2cpparameter list outcome" where
  "getcommandparametersdeepcopy c =
     parameters_copy_loop (cmd_params c) 0 (size32 (cmd_params c)) []"

lemma getparameterdatadeepcopy_cases:
  assumes "length (param_data p) < 2 ^ 32"
  shows "getparameterdatadeepcopy p = (if param_data p = [] then Ret [] else Undefined)"
  using size32_pos_iff [OF assms]
  by (simp add: getparameterdatadeepcopy_def parameterdata_copy_loop.simps [of _ 0] vec_set_def)

lemma getcommandparametersdeepcopy_cases:
  assumes "length (cmd_params c) < 2 ^ 32"
    and "\<forall>p \<in> set (cmd_params c). length (param_data p) < 2 ^ 32"
  shows "getcommandparametersdeepcopy c = (if cmd_params c = [] then Ret [] else Undefined)"
proof (cases "cmd_params c")
  case Nil
  then show ?thesis
    by (simp add: getcommandparametersdeepcopy_def parameters_copy_loop.simps [of _ 0])
next
  case (Cons p ps)
  then have "length (param_data p) < 2 ^ 32" using assms(2) by simp
  moreover have "0 < size32 (p # ps)" using size32_pos_iff [OF assms(1)] Cons by simp
  ultimately show ?thesis using Cons
    by (simp add: getcommandparametersdeepcopy_def parameters_copy_loop.simps [of _ 0]
        getparameterdatadeepcopy_cases vec_set_def)
qed

end
