(* ===== verification/Logger.thy ===== *)
theory Logger
  imports R2CP_Prelude
begin

text \<open>
  \<open>Logger/Logger.hpp\<close> and \<open>Logger/Logger.cpp\<close>: severities, the formatting template
  \<open>convertformattostring\<close>, the singleton with its standard-output threshold and its list of
  file loggers, and the file loggers themselves.

  The clock is a parameter: \<open>gettimestring\<close> takes the text \<open>strftime\<close> produced and the
  milliseconds, and \<open>log\<close> takes the resulting time stamp. A stream is the list of lines
  written to it. The other components record the calls they make to the logger as a list of
  \<open>log_call\<close>s (a severity and a formatted message); \<open>replay_log\<close> says what the logger does
  with such a list.
\<close>

subsection \<open>Severities\<close>

definition LOGSEVERITYNONE :: u8 where "LOGSEVERITYNONE = 0"
definition LOGSEVERITYDEBUG :: u8 where "LOGSEVERITYDEBUG = 1"
definition LOGSEVERITYINFO :: u8 where "LOGSEVERITYINFO = 2"
definition LOGSEVERITYWARNING :: u8 where "LOGSEVERITYWARNING = 3"
definition LOGSEVERITYERROR :: u8 where "LOGSEVERITYERROR = 4"
definition LOGSEVERITYFATAL :: u8 where "LOGSEVERITYFATAL = 5"

definition DEFAULTLOGSEVERITY :: u8 where "DEFAULTLOGSEVERITY = LOGSEVERITYDEBUG"

lemmas severity_defs = LOGSEVERITYNONE_def LOGSEVERITYDEBUG_def LOGSEVERITYINFO_def
  LOGSEVERITYWARNING_def LOGSEVERITYERROR_def LOGSEVERITYFATAL_def DEFAULTLOGSEVERITY_def

definition getlogseveritystring :: "u8 \<Rightarrow> string" where
  "getlogseveritystring severity =
     (if severity = LOGSEVERITYDEBUG then ''[ DEBUG ]''
      else if severity = LOGSEVERITYINFO then ''[ INFO  ]''
      else if severity = LOGSEVERITYWARNING then ''[WARNING]''
      else if severity = LOGSEVERITYERROR then ''[ ERROR ]''
      else if severity = LOGSEVERITYFATAL then ''[ FATAL ]''
      else ''[ NONE  ]'')"

definition gettimestring :: "string \<Rightarrow> u32 \<Rightarrow> string" where
  "gettimestring strftime_text millisecondscount =
     strftime_text @ ''.'' @
     (if millisecondscount < 10 then ''00'' else if millisecondscount < 100 then ''0'' else '''') @
     idec (uint millisecondscount)"

lemma length_getlogseveritystring: "length (getlogseveritystring s) = 9"
  by (simp add: getlogseveritystring_def)

subsection \<open>Formatted messages\<close>

text \<open>
  The arguments the program passes to the formatting template: 32-bit unsigned integers
  (\<open>sizeof\<close> 4) and C strings (\<open>sizeof\<close> of the pointer, 8). \<open>sprintf_text\<close> is the text
  \<open>sprintf\<close> produces for the conversions the sources use, \<open>%u\<close> and \<open>%s\<close>; \<open>None\<close> stands for a
  conversion that does not fit its argument.
\<close>

datatype fmtarg = FUint u32 | FStr string

fun sizeof_arg :: "fmtarg \<Rightarrow> u32" where
  "sizeof_arg (FUint x) = 4"
| "sizeof_arg (FStr s) = 8"

fun sprintf_text :: "string \<Rightarrow> fmtarg list \<Rightarrow> string option" where
  "sprintf_text [] args = Some []"
| "sprintf_text [c] args = (if c = CHR ''%'' then None else Some [c])"
| "sprintf_text (c # d # cs) args =
     (if c = CHR ''%'' then
        (case args of
           FUint x # rest \<Rightarrow> if d = CHR ''u'' then map_option ((@) (idec (uint x))) (sprintf_text cs rest) else None
         | FStr s # rest \<Rightarrow> if d = CHR ''s'' then map_option ((@) s) (sprintf_text cs rest) else None
         | [] \<Rightarrow> None)
      else map_option ((#) c) (sprintf_text (d # cs) args))"

text \<open>
  \<open>convertformattostring\<close>: the buffer has twice the bytes of the format and of the arguments
  together; writing past its end (the text and its terminating zero) is undefined behaviour.
\<close>

definition format_buffersize :: "string \<Rightarrow> fmtarg list \<Rightarrow> u32" where
  "format_buffersize format args =
     (size32 format + (\<Sum>a\<leftarrow>args. sizeof_arg a)) * 2"

definition convertformattostring :: "string \<Rightarrow> fmtarg list \<Rightarrow> string outcome" where
  "convertformattostring format args =
     (case sprintf_text format args of
        None \<Rightarrow> Undefined
      | Some text \<Rightarrow>
          if length text + 1 \<le> unat (format_buffersize format args) then Ret text else Undefined)"

subsection \<open>The logger object\<close>

record filelogger =
  filelogname :: string
  filelogseverity :: u8
  filelog :: "string list"

record logger =
  stdoutlogseverity :: u8
  fileloggers :: "filelogger list"
  stdout_lines :: "string list"
  messagetolog :: string

definition Logger_init :: logger where
  "Logger_init = \<lparr>stdoutlogseverity = DEFAULTLOGSEVERITY, fileloggers = [], stdout_lines = [],
     messagetolog = []\<rparr>"

definition FileLogger_init :: "string \<Rightarrow> u8 \<Rightarrow> filelogger" where
  "FileLogger_init filename severity =
     \<lparr>filelogname = filename, filelogseverity = severity, filelog = []\<rparr>"

definition FileLogger_log :: "string \<Rightarrow> u8 \<Rightarrow> filelogger \<Rightarrow> filelogger" where
  "FileLogger_log message severity f =
     (if severity > LOGSEVERITYNONE \<and> filelogseverity f > LOGSEVERITYNONE \<and> severity \<ge> filelogseverity f
      then f\<lparr>filelog := filelog f @ [message]\<rparr> else f)"

definition Logger_log :: "string \<Rightarrow> string \<Rightarrow> u8 \<Rightarrow> logger \<Rightarrow> logger" where
  "Logger_log timestring message severity lg =
     (let entrystring = timestring @ '' '' @ getlogseveritystring severity @ '' '' @ message;
          lg1 = (if severity > LOGSEVERITYNONE \<and> stdoutlogseverity lg > LOGSEVERITYNONE
                    \<and> severity \<ge> stdoutlogseverity lg
                 then lg\<lparr>stdout_lines := stdout_lines lg @ [entrystring]\<rparr> else lg)
      in lg1\<lparr>fileloggers := map (FileLogger_log entrystring severity) (fileloggers lg1)\<rparr>)"

definition logstream :: "string \<Rightarrow> string \<Rightarrow> logger \<Rightarrow> logger" where
  "logstream timestring message lg =
     (if message = [CHR 0x0A]
      then (Logger_log timestring (messagetolog lg) (stdoutlogseverity lg) lg)\<lparr>messagetolog := []\<rparr>
      else lg\<lparr>messagetolog := messagetolog lg @ message\<rparr>)"

definition addfilelogger :: "string \<Rightarrow> u8 \<Rightarrow> logger \<Rightarrow> logger" where
  "addfilelogger filename severity lg =
     lg\<lparr>fileloggers := fileloggers lg @ [FileLogger_init filename severity]\<rparr>"

definition removefileloggerat :: "string \<Rightarrow> u32 \<Rightarrow> (logger, unit) prog" where
  "removefileloggerat timestring index = (\<lambda>lg.
     let fileloggerscount = size32 (fileloggers lg) in
     if fileloggerscount > 0 then
       if index < fileloggerscount then
         modifyM (\<lambda>l. l\<lparr>fileloggers := take (unat index) (fileloggers l)
                        @ drop (Suc (unat index)) (fileloggers l)\<rparr>) lg
       else
         bindM (liftO (convertformattostring
             ''File logger not removed, specified index (%u) out of range [0, %u>.''
             [FUint index, FUint fileloggerscount]))
           (\<lambda>m. modifyM (Logger_log timestring m LOGSEVERITYWARNING)) lg
     else
       bindM (liftO (convertformattostring
           ''Nothing to remove, no file loggers have been created...'' []))
         (\<lambda>m. modifyM (Logger_log timestring m LOGSEVERITYWARNING)) lg)"

definition clearfileloggers :: "logger \<Rightarrow> logger" where
  "clearfileloggers lg = lg\<lparr>fileloggers := []\<rparr>"

definition setstdoutlogseverity :: "u8 \<Rightarrow> logger \<Rightarrow> logger" where
  "setstdoutlogseverity severity lg = lg\<lparr>stdoutlogseverity := severity\<rparr>"

subsection \<open>Calls made by the other components\<close>

type_synonym log_call = "u8 \<times> string"

text \<open>
  \<open>Logger::logX(const char *format, Args...)\<close> on a state that records its log calls in a
  field, given by the field's update function.
\<close>

definition logf :: "((log_call list \<Rightarrow> log_call list) \<Rightarrow> 's \<Rightarrow> 's) \<Rightarrow> u8 \<Rightarrow> string \<Rightarrow> fmtarg list
    \<Rightarrow> ('s, unit) prog" where
  "logf upd severity format args =
     bindM (liftO (convertformattostring format args))
       (\<lambda>message. modifyM (upd (\<lambda>l. l @ [(severity, message)])))"

text \<open>\<open>Logger::logX(const std::string &message)\<close>: no formatting.\<close>

definition logs :: "((log_call list \<Rightarrow> log_call list) \<Rightarrow> 's \<Rightarrow> 's) \<Rightarrow> u8 \<Rightarrow> string \<Rightarrow> ('s, unit) prog" where
  "logs upd severity message = modifyM (upd (\<lambda>l. l @ [(severity, message)]))"

fun replay_log :: "string \<Rightarrow> log_call list \<Rightarrow> logger \<Rightarrow> logger" where
  "replay_log timestring [] lg = lg"
| "replay_log timestring ((severity, message) # calls) lg =
     replay_log timestring calls (Logger_log timestring message severity lg)"

subsection \<open>When a format fits its buffer\<close>

text \<open>
  Every \<open>%u\<close> prints at most ten characters in place of two, and its argument adds eight bytes
  to the buffer: formats with integer arguments only always fit.
\<close>

fun is_uint_arg :: "fmtarg \<Rightarrow> bool" where
  "is_uint_arg (FUint x) = True"
| "is_uint_arg (FStr s) = False"

lemma sprintf_uint_length:
  "sprintf_text f args = Some t \<Longrightarrow> list_all is_uint_arg args \<Longrightarrow>
   length t \<le> length f + 8 * length args"
proof (induction f args arbitrary: t rule: sprintf_text.induct)
  case (3 c d cs args)
  show ?case
  proof (cases "c = CHR ''%''")
    case True
    with "3.prems" obtain x rest t' where a: "args = FUint x # rest" and d: "d = CHR ''u''"
      and t': "sprintf_text cs rest = Some t'" and t: "t = idec (uint x) @ t'"
      by (auto split: list.splits fmtarg.splits if_splits)
    have "length t' \<le> length cs + 8 * length rest"
      using "3.IH"(1) [OF True a refl d t'] "3.prems"(2) a by simp
    moreover have "length (idec (uint x)) \<le> 10" by (rule idec_u32_length)
    ultimately show ?thesis using t a by simp
  next
    case False
    with "3.prems" obtain t' where "sprintf_text (d # cs) args = Some t'" "t = c # t'"
      by auto
    with "3.IH"(3) [OF False] "3.prems"(2) show ?thesis by fastforce
  qed
qed (auto split: if_splits)

lemma sum_sizeof_uint: "list_all is_uint_arg args \<Longrightarrow>
    (\<Sum>a\<leftarrow>args. sizeof_arg a) = word_of_nat (4 * length args)"
proof (induction args)
  case (Cons a args)
  then show ?case by (cases a) simp_all
qed simp

lemma format_buffersize_uint:
  assumes "list_all is_uint_arg args" and "2 * (length f + 4 * length args) < 2 ^ 32"
  shows "unat (format_buffersize f args) = 2 * (length f + 4 * length args)"
proof -
  have "format_buffersize f args = word_of_nat (2 * (length f + 4 * length args))"
    using assms(1) by (simp add: format_buffersize_def sum_sizeof_uint size32_def algebra_simps)
  then show ?thesis by (simp only: unat_word_of_nat32 [OF assms(2)])
qed

lemma convertformattostring_uint:
  assumes "list_all is_uint_arg args" and "2 * (length f + 4 * length args) < 2 ^ 32"
    and "f \<noteq> []" and "sprintf_text f args = Some t"
  shows "convertformattostring f args = Ret t"
proof -
  have "length t + 1 \<le> unat (format_buffersize f args)"
    using sprintf_uint_length [OF assms(4,1)] format_buffersize_uint [OF assms(1,2)] assms(3)
    by (cases f) auto
  with assms(4) show ?thesis by (simp add: convertformattostring_def)
qed

lemma logf_uint:
  assumes "list_all is_uint_arg args" and "2 * (length f + 4 * length args) < 2 ^ 32"
    and "f \<noteq> []" and "sprintf_text f args = Some t"
  shows "logf upd sev f args = logs upd sev t"
  using convertformattostring_uint [OF assms] by (simp add: logf_def logs_def)

end
