(* ===== verification/R2CPParser.thy ===== *)
theory R2CPParser
  imports R2CPCommand Logger
begin

text \<open>
  \<open>R2CPParser.hpp\<close> and \<open>R2CPParser.cpp\<close>: validation and parsing of a received packet.

  The parser object holds a stack of offsets (\<open>parsingoffsetstack\<close>, here with its back first)
  into the buffers it is reading; all offsets and sizes are 32-bit and wrap around. The state
  also records the calls the parser makes to the logger. Reading from an empty stack
  (\<open>back()\<close>, \<open>pop_back()\<close>) is undefined behaviour; \<open>at()\<close> out of range throws, and it does so
  in the readers between the \<open>pop_back()\<close> and the \<open>push_back()\<close> of the offset.
\<close>

subsection \<open>State and constants\<close>

definition MINR2CPPACKETSIZE :: u32 where "MINR2CPPACKETSIZE = 8"
definition R2CPMAGICNUMBER :: u32 where "R2CPMAGICNUMBER = 1379025744"
definition RRCPMAGICNUMBER :: u32 where "RRCPMAGICNUMBER = 1381122896"

lemmas parser_consts = MINR2CPPACKETSIZE_def R2CPMAGICNUMBER_def RRCPMAGICNUMBER_def

record parser_state =
  parsingoffsetstack :: "u32 list"
  parserlog :: "log_call list"

definition R2CPParser_init :: parser_state where
  "R2CPParser_init = \<lparr>parsingoffsetstack = [], parserlog = []\<rparr>"

definition offset_push :: "u32 \<Rightarrow> (parser_state, unit) prog" where
  "offset_push offset = modifyM (parsingoffsetstack_update ((#) offset))"

definition offset_back :: "(parser_state, u32) prog" where
  "offset_back = (\<lambda>s. case parsingoffsetstack s of [] \<Rightarrow> (Undefined, s) | offset # _ \<Rightarrow> (Ret offset, s))"

definition offset_pop :: "(parser_state, unit) prog" where
  "offset_pop = (\<lambda>s. case parsingoffsetstack s of
     [] \<Rightarrow> (Undefined, s) | _ # rest \<Rightarrow> (Ret (), s\<lparr>parsingoffsetstack := rest\<rparr>))"

definition offset_clear :: "(parser_state, unit) prog" where
  "offset_clear = modifyM (parsingoffsetstack_update (\<lambda>_. []))"

definition logerror :: "string \<Rightarrow> fmtarg list \<Rightarrow> (parser_state, unit) prog" where
  "logerror = logf parserlog_update LOGSEVERITYERROR"

definition logwarning :: "string \<Rightarrow> fmtarg list \<Rightarrow> (parser_state, unit) prog" where
  "logwarning = logf parserlog_update LOGSEVERITYWARNING"

subsection \<open>Readers\<close>

definition no_more_bytes_to_read :: exn where
  "no_more_bytes_to_read = Exn OutOfRange ''R2CP packet has no more bytes left to read.''"

definition readr2cppacketasuint32 :: "bytes \<Rightarrow> (parser_state, u32) prog" where
  "readr2cppacketasuint32 r2cppacket =
     bindM offset_back (\<lambda>offset.
     bindM offset_pop (\<lambda>_.
     if offset + 4 \<le> size32 r2cppacket then
       bindM (liftO (vec_at r2cppacket (unat offset))) (\<lambda>b0.
       bindM (liftO (vec_at r2cppacket (unat (offset + 1)))) (\<lambda>b1.
       bindM (liftO (vec_at r2cppacket (unat (offset + 2)))) (\<lambda>b2.
       bindM (liftO (vec_at r2cppacket (unat (offset + 3)))) (\<lambda>b3.
       bindM (offset_push (offset + 4)) (\<lambda>_.
       ret (join32 b0 b1 b2 b3))))))
     else
       bindM (offset_push offset) (\<lambda>_.
       throwM no_more_bytes_to_read)))"

function read_bytes_loop :: "bytes \<Rightarrow> u32 \<Rightarrow> u32 \<Rightarrow> u32 \<Rightarrow> bytes \<Rightarrow> bytes outcome" where
  "read_bytes_loop r2cppacket offset i n readr2cpbytes =
     (if i < n then
        (case vec_at r2cppacket (unat (offset + i)) of
           Ret b \<Rightarrow> read_bytes_loop r2cppacket offset (i + 1) n (readr2cpbytes @ [b])
         | Throw e \<Rightarrow> Throw e
         | Undefined \<Rightarrow> Undefined)
      else Ret readr2cpbytes)"
  by pat_completeness auto
termination
  by (relation "measure (\<lambda>(p, offset, i, n, acc). unat (n - i))") (auto intro: word_loop_decreases)

declare read_bytes_loop.simps [simp del]

definition readbytesfromr2cppacket :: "bytes \<Rightarrow> u32 \<Rightarrow> (parser_state, bytes) prog" where
  "readbytesfromr2cppacket r2cppacket numberofbytestoread =
     bindM offset_back (\<lambda>offset.
     bindM offset_pop (\<lambda>_.
     if offset + numberofbytestoread \<le> size32 r2cppacket then
       bindM (liftO (read_bytes_loop r2cppacket offset 0 numberofbytestoread [])) (\<lambda>readr2cpbytes.
       bindM (offset_push (offset + numberofbytestoread)) (\<lambda>_.
       ret readr2cpbytes))
     else
       bindM (offset_push offset) (\<lambda>_.
       throwM no_more_bytes_to_read)))"

definition skipbytesfromr2cppacket :: "u32 \<Rightarrow> (parser_state, unit) prog" where
  "skipbytesfromr2cppacket numberofbytestoskip =
     bindM offset_back (\<lambda>offset.
     bindM offset_pop (\<lambda>_.
     offset_push (offset + numberofbytestoskip)))"

definition checkifr2cppacketendisreached :: "bytes \<Rightarrow> (parser_state, bool) prog" where
  "checkifr2cppacketendisreached r2cppacket =
     bindM offset_back (\<lambda>offset. ret (offset = size32 r2cppacket))"

subsection \<open>Validation\<close>

text \<open>
  In \<open>validateparameterizedcommandcontent\<close> the count is left uninitialised when reading it
  throws. The loop condition \<open>i < parameterscount && isr2cppacketvalid\<close> is then false for
  every value of it, since \<open>isr2cppacketvalid\<close> is: the model skips the loop (\<open>None\<close>).
\<close>

function validate_parameters_loop :: "bytes \<Rightarrow> u32 \<Rightarrow> u32 \<Rightarrow> (parser_state, bool) prog" where
  "validate_parameters_loop commandcontent i parameterscount =
     (if i < parameterscount then
        bindM (catchM
          (bindM (skipbytesfromr2cppacket 4) (\<lambda>_.
           bindM (readr2cppacketasuint32 commandcontent) (\<lambda>parametersize.
           bindM (skipbytesfromr2cppacket parametersize) (\<lambda>_.
           ret True))))
          OutOfRange
          (\<lambda>e. bindM (logerror ''Error in validating R2CP packet. Content of parameterized command is invalid. %s''
                 [FStr (what e)]) (\<lambda>_. ret False)))
        (\<lambda>isr2cppacketvalid.
           if isr2cppacketvalid then validate_parameters_loop commandcontent (i + 1) parameterscount
           else ret False)
      else ret True)"
  by pat_completeness auto
termination
  by (relation "measure (\<lambda>(p, i, n). unat (n - i))") (auto intro: word_loop_decreases)

declare validate_parameters_loop.simps [simp del]

definition validateparameterizedcommandcontent :: "bytes \<Rightarrow> (parser_state, bool) prog" where
  "validateparameterizedcommandcontent commandcontent =
     bindM (offset_push 0) (\<lambda>_.
     bindM (catchM
       (bindM (readr2cppacketasuint32 commandcontent) (\<lambda>parameterscount. ret (Some parameterscount)))
       OutOfRange
       (\<lambda>e. bindM (logerror ''Error in validating R2CP packet. Content of parameterized command is invalid. %s''
              [FStr (what e)]) (\<lambda>_. ret None)))
     (\<lambda>parameterscount.
     bindM (case parameterscount of None \<Rightarrow> ret False
            | Some n \<Rightarrow> validate_parameters_loop commandcontent 0 n)
     (\<lambda>isr2cppacketvalid.
     bindM (if isr2cppacketvalid then checkifr2cppacketendisreached commandcontent else ret False)
     (\<lambda>isr2cppacketvalid'.
     bindM offset_pop (\<lambda>_.
     ret isr2cppacketvalid')))))"

definition validatecommandcontent :: "u32 \<Rightarrow> bytes \<Rightarrow> (parser_state, bool) prog" where
  "validatecommandcontent commandcode commandcontent =
     (let commandcontenttype = getcommandcontenttype rcd commandcode in
      if commandcontenttype = PARAMETERIZEDCONTENT then
        validateparameterizedcommandcontent commandcontent
      else if commandcontenttype = NOCONTENT then ret (size32 commandcontent = 0)
      else ret True)"

text \<open>The loop of \<open>validatecommandsfromr2cppacket\<close> returns \<open>iscommandcontentvalidationfailed\<close>.\<close>

function validate_commands_loop :: "bytes \<Rightarrow> u32 \<Rightarrow> u32 \<Rightarrow> (parser_state, bool) prog" where
  "validate_commands_loop r2cppacketcommands i commandscount =
     (if i < commandscount then
        bindM (readr2cppacketasuint32 r2cppacketcommands) (\<lambda>commandcode.
        bindM (readr2cppacketasuint32 r2cppacketcommands) (\<lambda>commandsize.
        bindM (readbytesfromr2cppacket r2cppacketcommands commandsize) (\<lambda>commandcontent.
        bindM (validatecommandcontent commandcode commandcontent) (\<lambda>iscommandcontentvalid.
        if iscommandcontentvalid then validate_commands_loop r2cppacketcommands (i + 1) commandscount
        else ret True))))
      else ret False)"
  by pat_completeness auto
termination
  by (relation "measure (\<lambda>(p, i, n). unat (n - i))") (auto intro: word_loop_decreases)

declare validate_commands_loop.simps [simp del]

definition validatecommandsfromr2cppacket :: "bytes \<Rightarrow> (parser_state, bool) prog" where
  "validatecommandsfromr2cppacket r2cppacketcommands =
     bindM (offset_push 0) (\<lambda>_.
     bindM (catchM
       (bindM (readr2cppacketasuint32 r2cppacketcommands) (\<lambda>commandscount.
        bindM (validate_commands_loop r2cppacketcommands 0 commandscount)
        (\<lambda>iscommandcontentvalidationfailed.
        if \<not> iscommandcontentvalidationfailed then checkifr2cppacketendisreached r2cppacketcommands
        else ret False)))
       OutOfRange
       (\<lambda>e. bindM (logerror ''Error in validating R2CP packet. Command sizes inside R2CP packet go beyond the R2CP packet size. %s''
              [FStr (what e)]) (\<lambda>_. ret False)))
     (\<lambda>isr2cppacketvalid.
     bindM offset_pop (\<lambda>_.
     ret isr2cppacketvalid)))"

definition validater2cppacket :: "bytes \<Rightarrow> (parser_state, bool) prog" where
  "validater2cppacket r2cppacket =
     bindM (offset_push 0) (\<lambda>_.
     bindM
      (let numberofbytesinr2cppacket = size32 r2cppacket in
       if numberofbytesinr2cppacket \<ge> MINR2CPPACKETSIZE then
         bindM (readr2cppacketasuint32 r2cppacket) (\<lambda>magicnumber.
         if magicnumber = R2CPMAGICNUMBER \<or> magicnumber = RRCPMAGICNUMBER then
           bindM (readr2cppacketasuint32 r2cppacket) (\<lambda>r2cppacketsize.
           if numberofbytesinr2cppacket = MINR2CPPACKETSIZE + r2cppacketsize then
             if r2cppacketsize = 0 then ret True
             else
               bindM (readbytesfromr2cppacket r2cppacket r2cppacketsize) (\<lambda>r2cppacketcommands.
               validatecommandsfromr2cppacket r2cppacketcommands)
           else
             bindM (logerror (''Error in validating R2CP packet. '' @
                 ''R2CP packet size (%u) + 8 (bytes containing magic number and R2CP packet isz itself) '' @
                 ''don'' @ [CHR 0x27] @ ''t match total number of bytes in R2CP packet. (%u)'')
                 [FUint r2cppacketsize, FUint numberofbytesinr2cppacket])
               (\<lambda>_. ret False))
         else
           bindM (logerror (''Error in validating R2CP packet. '' @ ''Invalid magic number (%u). '' @
               ''Magic number should be either %u or %u.'')
               [FUint magicnumber, FUint R2CPMAGICNUMBER, FUint RRCPMAGICNUMBER])
             (\<lambda>_. ret False))
       else
         bindM (logerror (''Error in validating R2CP packet. '' @
             ''Packet size is less than minimum valid R2CP packet size (%u)'')
             [FUint MINR2CPPACKETSIZE])
           (\<lambda>_. ret False))
     (\<lambda>isr2cppacketvalid.
     bindM offset_clear (\<lambda>_.
     ret isr2cppacketvalid)))"

subsection \<open>Parsing\<close>

definition undefined_parameter_what :: "u32 \<Rightarrow> u32 \<Rightarrow> string" where
  "undefined_parameter_what parametercode commandcode =
     ''Error while parsing parameterized command content. '' @
     ''Parameter code '' @ idec (uint parametercode) @
     '' is not defined for command code '' @ idec (uint commandcode) @ ''.''"

text \<open>
  The loop of \<open>parseparameterizedcommandcontent\<close> returns \<open>isinvalidparameterparsed\<close>, the last
  parameter code and the parameters.
\<close>

function parse_parameters_loop :: "bytes \<Rightarrow> u32 set \<Rightarrow> u32 \<Rightarrow> u32 \<Rightarrow> u32 \<Rightarrow> r2cpparameter list
    \<Rightarrow> (parser_state, bool \<times> u32 \<times> r2cpparameter list) prog" where
  "parse_parameters_loop commandcontent codes i parameterscount lastcode parameters =
     (if i < parameterscount then
        bindM (readr2cppacketasuint32 commandcontent) (\<lambda>parametercode.
        if parametercode \<in> codes then
          bindM (readr2cppacketasuint32 commandcontent) (\<lambda>parametersize.
          bindM (readbytesfromr2cppacket commandcontent parametersize) (\<lambda>parameterdata.
          parse_parameters_loop commandcontent codes (i + 1) parameterscount parametercode
            (parameters @ [R2CPParameter_init parametercode parameterdata])))
        else ret (True, parametercode, parameters))
      else ret (False, lastcode, parameters))"
  by pat_completeness auto
termination
  by (relation "measure (\<lambda>(p, codes, i, n, c, ps). unat (n - i))") (auto intro: word_loop_decreases)

declare parse_parameters_loop.simps [simp del]

definition parseparameterizedcommandcontent :: "u32 \<Rightarrow> bytes \<Rightarrow> (parser_state, r2cpparameter list) prog" where
  "parseparameterizedcommandcontent commandcode commandcontent =
     bindM (offset_push 0) (\<lambda>_.
     bindM (readr2cppacketasuint32 commandcontent) (\<lambda>parameterscount.
     bindM (parse_parameters_loop commandcontent (getcommandparameters rcd commandcode)
              0 parameterscount 0 [])
     (\<lambda>(isinvalidparameterparsed, parametercode, parameters).
     bindM offset_pop (\<lambda>_.
     if isinvalidparameterparsed then
       throwM (Exn InvalidArgument (undefined_parameter_what parametercode commandcode))
     else ret parameters))))"

definition parsecommandcontent :: "u32 \<Rightarrow> bytes \<Rightarrow> (parser_state, r2cpparameter list) prog" where
  "parsecommandcontent commandcode commandcontent =
     (let commandcontenttype = getcommandcontenttype rcd commandcode in
      if commandcontenttype = DIRECTCONTENT then
        ret [R2CPParameter_init NOPARAMETERS commandcontent]
      else if commandcontenttype = PARAMETERIZEDCONTENT then
        catchM (parseparameterizedcommandcontent commandcode commandcontent) InvalidArgument
          (\<lambda>e. throwM (Exn InvalidArgument (what e)))
      else ret [])"

definition log_faulty_command :: "string \<Rightarrow> u32 \<Rightarrow> (parser_state, unit) prog" where
  "log_faulty_command e_what commandcode =
     logerror (''%s. '' @ ''Error parsing command content of command code: %u. '' @
       ''Faulty command discarded.'') [FStr e_what, FUint commandcode]"

function parse_commands_loop :: "bytes \<Rightarrow> u32 \<Rightarrow> u32 \<Rightarrow> r2cpcommand list
    \<Rightarrow> (parser_state, r2cpcommand list) prog" where
  "parse_commands_loop r2cppacket i commandscount commands =
     (if i < commandscount then
        bindM (readr2cppacketasuint32 r2cppacket) (\<lambda>commandcode.
        bindM (readr2cppacketasuint32 r2cppacket) (\<lambda>commandsize.
        if \<not> checkifvalidcommand rcd commandcode then
          bindM (skipbytesfromr2cppacket commandsize) (\<lambda>_.
          bindM (logwarning ''Invalid command code detected: %u. Faulty command parsing has been skipped.''
                   [FUint commandcode]) (\<lambda>_.
          parse_commands_loop r2cppacket (i + 1) commandscount commands))
        else
          bindM (readbytesfromr2cppacket r2cppacket commandsize) (\<lambda>commandcontent.
          bindM (catchM
            (bindM (parsecommandcontent commandcode commandcontent) (\<lambda>parameters.
             ret (commands @ [R2CPCommand_init commandcode parameters])))
            InvalidArgument
            (\<lambda>e. bindM (log_faulty_command (what e) commandcode) (\<lambda>_. ret commands)))
          (\<lambda>commands'. parse_commands_loop r2cppacket (i + 1) commandscount commands'))))
      else ret commands)"
  by pat_completeness auto
termination
  by (relation "measure (\<lambda>(p, i, n, cs). unat (n - i))") (auto intro: word_loop_decreases)

declare parse_commands_loop.simps [simp del]

definition parser2cppacket :: "bytes \<Rightarrow> (parser_state, r2cpcommand list) prog" where
  "parser2cppacket r2cppacket =
     bindM (validater2cppacket r2cppacket) (\<lambda>isr2cppacketvalid.
     if isr2cppacketvalid then
       bindM (offset_push 0) (\<lambda>_.
       bindM (skipbytesfromr2cppacket MINR2CPPACKETSIZE) (\<lambda>_.
       bindM (readr2cppacketasuint32 r2cppacket) (\<lambda>commandscount.
       bindM (parse_commands_loop r2cppacket 0 commandscount []) (\<lambda>commands.
       bindM offset_clear (\<lambda>_.
       ret commands)))))
     else throwM (Exn InvalidArgument ''Parsing failed. Invalid R2CP packet.''))"

subsection \<open>Defined behaviour of validation\<close>

abbreviation depth :: "parser_state \<Rightarrow> nat" where
  "depth s \<equiv> length (parsingoffsetstack s)"

definition read_exn :: "exn \<Rightarrow> bool" where
  "read_exn e \<longleftrightarrow> exn_kind e = OutOfRange \<and> length (what e) \<le> 90"

lemma range_check_what_length:
  "i < 2 ^ 32 \<Longrightarrow> n < 2 ^ 32 \<Longrightarrow> length (range_check_what i n) \<le> 90"
  using udec_length_le [of i 9] udec_length_le [of n 9] by (simp add: range_check_what_def)

lemma vec_at_exn:
  "vec_at v i = Throw e \<Longrightarrow> i < 2 ^ 32 \<Longrightarrow> length v < 2 ^ 32 \<Longrightarrow> read_exn e"
  by (auto simp: vec_at_def read_exn_def range_check_what_length split: if_splits)

lemma vec_at_not_Undefined [simp]: "vec_at v i \<noteq> Undefined"
  by (simp add: vec_at_def)

lemma safe_offset_push:
  "safeM (\<lambda>s. depth s = k) (offset_push i) (\<lambda>_ s. depth s = Suc k) E"
  by (simp add: safeM_def offset_push_def modifyM_def)

lemma safe_offset_pop:
  "safeM (\<lambda>s. depth s = Suc k) offset_pop (\<lambda>_ s. depth s = k) E"
  by (auto simp: safeM_def offset_pop_def split: list.splits)

lemma safe_offset_pop_le:
  "safeM (\<lambda>s. Suc k \<le> depth s) offset_pop (\<lambda>_ s. k \<le> depth s) E"
  by (auto simp: safeM_def offset_pop_def split: list.splits)

lemma safe_offset_back:
  "safeM (\<lambda>s. depth s = Suc k) offset_back (\<lambda>_ s. depth s = Suc k) E"
  by (auto simp: safeM_def offset_back_def split: list.splits)

lemma safe_liftO:
  "(\<And>a s. m = Ret a \<Longrightarrow> P s \<Longrightarrow> Q a s) \<Longrightarrow> (\<And>e s. m = Throw e \<Longrightarrow> P s \<Longrightarrow> E e s) \<Longrightarrow> m \<noteq> Undefined \<Longrightarrow>
   safeM P (liftO m) Q E"
  by (cases m) (auto simp: safeM_def liftO_def)

lemma safe_vec_at:
  assumes "length p < 2 ^ 32"
  shows "safeM (\<lambda>s. depth s = k) (liftO (vec_at p (unat (i :: u32)))) (\<lambda>_ s. depth s = k)
     (\<lambda>e s. read_exn e \<and> k \<le> depth s)"
  by (rule safe_liftO) (auto intro: vec_at_exn [OF _ unat_u32_bound assms])

lemma safe_readr2cppacketasuint32:
  assumes "length p < 2 ^ 32"
  shows "safeM (\<lambda>s. depth s = Suc k) (readr2cppacketasuint32 p) (\<lambda>_ s. depth s = Suc k)
     (\<lambda>e s. read_exn e \<and> k \<le> depth s)"
  unfolding readr2cppacketasuint32_def
  by (rule safe_offset_push safe_offset_pop safe_offset_back safe_vec_at [OF assms] safeM_if
      safeM_bindM safeM_ret safeM_throwM | assumption |
      simp add: read_exn_def no_more_bytes_to_read_def)+

lemma read_bytes_loop_result:
  "length p < 2 ^ 32 \<Longrightarrow> i \<le> n \<Longrightarrow>
   (case read_bytes_loop p offset i n acc of
      Ret bs \<Rightarrow> length bs = length acc + (unat n - unat i) | Throw e \<Rightarrow> read_exn e | Undefined \<Rightarrow> False)"
proof (induction p offset i n acc rule: read_bytes_loop.induct)
  case (1 p offset i n acc)
  show ?case
  proof (cases "i < n")
    case True
    show ?thesis
    proof (cases "vec_at p (unat (offset + i))")
      case (Ret b)
      have "i + 1 \<le> n" and "unat (i + 1) = Suc (unat i)" and "unat i < unat n"
        using True by unat_arith+
      with "1.IH" [OF True Ret] "1.prems" True Ret show ?thesis
        by (auto simp: read_bytes_loop.simps [of p offset i] split: outcome.splits)
    next
      case (Throw e)
      with "1.prems" True show ?thesis
        by (auto simp: read_bytes_loop.simps [of p offset i] intro: vec_at_exn [OF _ unat_u32_bound])
    qed simp
  next
    case False
    with "1.prems" have "i = n" by simp
    then show ?thesis by (simp add: read_bytes_loop.simps [of p offset n])
  qed
qed


lemma safe_read_bytes_loop:
  assumes "length p < 2 ^ 32"
  shows "safeM (\<lambda>s. depth s = k) (liftO (read_bytes_loop p i 0 n []))
     (\<lambda>bs s. depth s = k \<and> length bs < 2 ^ 32) (\<lambda>e s. read_exn e \<and> k \<le> depth s)"
  using read_bytes_loop_result [OF assms, where i = 0 and n = n and offset = i and acc = "[]"] unat_u32_bound [of n]
  by (intro safe_liftO) auto

lemma safe_readbytesfromr2cppacket:
  assumes "length p < 2 ^ 32"
  shows "safeM (\<lambda>s. depth s = Suc k) (readbytesfromr2cppacket p n)
     (\<lambda>bs s. depth s = Suc k \<and> length bs < 2 ^ 32) (\<lambda>e s. read_exn e \<and> k \<le> depth s)"
proof -
  have push: "safeM (\<lambda>s. depth s = k \<and> length bs < 2 ^ 32) (offset_push i)
      (\<lambda>_ s. depth s = Suc k \<and> length bs < 2 ^ 32) E" for bs :: bytes and i E
    by (simp add: safeM_def offset_push_def modifyM_def)
  show ?thesis
    unfolding readbytesfromr2cppacket_def
    by (rule push safe_offset_push safe_offset_pop safe_offset_back safe_read_bytes_loop [OF assms]
        safeM_if safeM_bindM safeM_ret safeM_throwM | assumption |
        simp add: read_exn_def no_more_bytes_to_read_def)+
qed

lemma safe_skipbytesfromr2cppacket:
  "safeM (\<lambda>s. depth s = Suc k) (skipbytesfromr2cppacket n) (\<lambda>_ s. depth s = Suc k) E"
  unfolding skipbytesfromr2cppacket_def
  by (rule safe_offset_push safe_offset_pop safe_offset_back safeM_bindM)+

lemma safe_checkifr2cppacketendisreached:
  "safeM (\<lambda>s. depth s = Suc k) (checkifr2cppacketendisreached p) (\<lambda>_ s. depth s = Suc k) E"
  unfolding checkifr2cppacketendisreached_def
  by (rule safe_offset_back safeM_bindM safeM_ret | assumption)+

lemma format_string_arg:
  assumes "sprintf_text f [FStr w] = Some (t @ w)" and "length t + length w + 1 \<le> 2 * (length f + 8)"
    and "2 * (length f + 8) < 2 ^ 32"
  shows "convertformattostring f [FStr w] = Ret (t @ w)"
proof -
  have "format_buffersize f [FStr w] = word_of_nat (2 * (length f + 8))"
    by (simp add: format_buffersize_def size32_def algebra_simps)
  then have "unat (format_buffersize f [FStr w]) = 2 * (length f + 8)"
    by (simp only: unat_word_of_nat32 [OF assms(3)])
  with assms(1,2) show ?thesis by (simp add: convertformattostring_def)
qed

lemma safe_log_exn:
  assumes "length w \<le> 90"
  shows "safeM (\<lambda>s. D (depth s)) (logerror ''Error in validating R2CP packet. Content of parameterized command is invalid. %s''
           [FStr w]) (\<lambda>_ s. D (depth s)) E" (is "safeM _ (logerror ?f _) _ _")
    and "safeM (\<lambda>s. D (depth s)) (logerror ''Error in validating R2CP packet. Command sizes inside R2CP packet go beyond the R2CP packet size. %s''
           [FStr w]) (\<lambda>_ s. D (depth s)) E" (is "safeM _ (logerror ?g _) _ _")
proof -
  have "convertformattostring ?f [FStr w] = Ret (take (length ?f - 2) ?f @ w)"
    using assms by (intro format_string_arg) (simp_all)
  then show "safeM (\<lambda>s. D (depth s)) (logerror ?f [FStr w]) (\<lambda>_ s. D (depth s)) E"
    by (simp add: safeM_def logerror_def logf_def modifyM_def)
  have "convertformattostring ?g [FStr w] = Ret (take (length ?g - 2) ?g @ w)"
    using assms by (intro format_string_arg) (simp_all)
  then show "safeM (\<lambda>s. D (depth s)) (logerror ?g [FStr w]) (\<lambda>_ s. D (depth s)) E"
    by (simp add: safeM_def logerror_def logf_def modifyM_def)
qed

text \<open>The reader's exception is caught, logged and turned into a failed validation.\<close>

lemma read_exnD: "read_exn e \<Longrightarrow> exn_kind e = OutOfRange" "read_exn e \<Longrightarrow> length (what e) \<le> 90"
  by (simp_all add: read_exn_def)

lemma safe_catch_read:
  assumes "safeM P m Q (\<lambda>e s. read_exn e \<and> k \<le> depth s)"
    and "\<And>e. read_exn e \<Longrightarrow> safeM (\<lambda>s. k \<le> depth s) (h e) Q E"
  shows "safeM P (catchM m OutOfRange h) Q E"
proof (rule safeM_catchM [OF assms(1)])
  fix e
  show "safeM (\<lambda>s. read_exn e \<and> k \<le> depth s) (h e) Q E"
    using assms(2) [of e] by (auto simp: safeM_def)
qed (auto dest: read_exnD)

lemma safe_log_then:
  assumes "read_exn e" and "\<And>s. k \<le> depth s \<Longrightarrow> Q r s"
  shows "safeM (\<lambda>s. k \<le> depth s)
      (bindM (logerror ''Error in validating R2CP packet. Content of parameterized command is invalid. %s''
        [FStr (what e)]) (\<lambda>_. ret r)) Q E"
    and "safeM (\<lambda>s. k \<le> depth s)
      (bindM (logerror ''Error in validating R2CP packet. Command sizes inside R2CP packet go beyond the R2CP packet size. %s''
        [FStr (what e)]) (\<lambda>_. ret r)) Q E"
  using assms safe_log_exn [OF read_exnD(2) [OF assms(1)], where D = "\<lambda>d. k \<le> d"]
  by (auto intro!: safeM_bindM [where R = "\<lambda>_ s. k \<le> depth s"] safeM_ret)

lemma safe_validate_parameters_loop:
  "length c < 2 ^ 32 \<Longrightarrow> safeM (\<lambda>s. depth s = Suc k) (validate_parameters_loop c i n)
     (\<lambda>b s. if b then depth s = Suc k else k \<le> depth s) E"
proof (induction c i n rule: validate_parameters_loop.induct)
  case (1 c i n)
  let ?Q = "\<lambda>b s. if b then depth s = Suc k else k \<le> depth s"
  show ?case
  proof (cases "i < n")
    case True
    have body: "safeM (\<lambda>s. depth s = Suc k)
          (bindM (skipbytesfromr2cppacket 4) (\<lambda>_.
           bindM (readr2cppacketasuint32 c) (\<lambda>parametersize.
           bindM (skipbytesfromr2cppacket parametersize) (\<lambda>_. ret True))))
        ?Q (\<lambda>e s. read_exn e \<and> k \<le> depth s)"
      by (rule safe_skipbytesfromr2cppacket safe_readr2cppacketasuint32 [OF "1.prems"]
          safeM_bindM safeM_ret | simp)+
    have rest: "safeM (?Q b) (if b then validate_parameters_loop c (i + 1) n else ret False) ?Q E" for b
      using "1.IH" [OF True _ "1.prems"] by (cases b) (auto intro: safeM_ret)
    show ?thesis
      by (subst validate_parameters_loop.simps, simp only: True if_True,
          rule safeM_bindM [OF safe_catch_read [OF body safe_log_then(1)] rest]) simp_all
  next
    case False
    then show ?thesis by (subst validate_parameters_loop.simps) (auto intro: safeM_ret)
  qed
qed

lemma safe_validateparameterizedcommandcontent:
  assumes "length c < 2 ^ 32"
  shows "safeM (\<lambda>s. depth s = Suc k) (validateparameterizedcommandcontent c)
     (\<lambda>b s. if b then depth s = Suc k else k \<le> depth s) E"
proof -
  let ?Q = "\<lambda>b s. if b then depth s = Suc (Suc k) else Suc k \<le> depth s"
  let ?R = "\<lambda>r s. if r \<noteq> None then depth s = Suc (Suc k) else Suc k \<le> depth s"
  have count: "safeM (\<lambda>s. depth s = Suc (Suc k))
      (bindM (readr2cppacketasuint32 c) (\<lambda>parameterscount. ret (Some parameterscount))) ?R
      (\<lambda>e s. read_exn e \<and> Suc k \<le> depth s)"
    by (rule safe_readr2cppacketasuint32 [OF assms] safeM_bindM safeM_ret | simp)+
  have loop: "safeM (?R r) (case r of None \<Rightarrow> ret False | Some n \<Rightarrow> validate_parameters_loop c 0 n) ?Q E" for r
    using safe_validate_parameters_loop [OF assms] by (cases r) (auto intro: safeM_ret)
  have fin: "safeM (?Q b) (if b then checkifr2cppacketendisreached c else ret False) ?Q E" for b
    by (cases b) (auto intro!: safeM_ret safeM_weaken [OF safe_checkifr2cppacketendisreached
          [where p = c and k = "Suc k" and E = E]])
  have pop: "safeM (?Q b) (bindM offset_pop (\<lambda>_. ret b))
      (\<lambda>b s. if b then depth s = Suc k else k \<le> depth s) E" for b
    by (cases b) (auto intro!: safeM_bindM [OF safe_offset_pop] safeM_bindM [OF safe_offset_pop_le] safeM_ret)
  show ?thesis
    unfolding validateparameterizedcommandcontent_def
    by (rule safeM_bindM [OF safe_offset_push] safeM_bindM [OF safe_catch_read [OF count safe_log_then(1)]]
        safeM_bindM [OF loop] safeM_bindM [OF fin] pop | simp)+
qed

lemma safe_validatecommandcontent:
  assumes "length c < 2 ^ 32"
  shows "safeM (\<lambda>s. depth s = Suc k) (validatecommandcontent cc c)
     (\<lambda>b s. if b then depth s = Suc k else k \<le> depth s) E"
  using safe_validateparameterizedcommandcontent [OF assms]
  by (auto simp: validatecommandcontent_def Let_def intro!: safeM_ret)

lemma safe_validate_commands_loop:
  "length p < 2 ^ 32 \<Longrightarrow> safeM (\<lambda>s. depth s = Suc k) (validate_commands_loop p i n)
     (\<lambda>failed s. if failed then k \<le> depth s else depth s = Suc k) (\<lambda>e s. read_exn e \<and> k \<le> depth s)"
proof (induction p i n rule: validate_commands_loop.induct)
  case (1 p i n)
  let ?Q = "\<lambda>failed s. if failed then k \<le> depth s else depth s = Suc k"
  let ?E = "\<lambda>e s. read_exn e \<and> k \<le> depth s"
  show ?case
  proof (cases "i < n")
    case True
    have content: "safeM (\<lambda>s. depth s = Suc k \<and> length c < 2 ^ 32) (validatecommandcontent cc c)
        (\<lambda>b s. if b then depth s = Suc k else k \<le> depth s) ?E" for cc c
      using safe_validatecommandcontent [of c k cc ?E] by (auto simp: safeM_def)
    have rest: "safeM (\<lambda>s. if b then depth s = Suc k else k \<le> depth s)
        (if b then validate_commands_loop p (i + 1) n else ret True) ?Q ?E" for b
      using "1.IH" [OF True _ "1.prems"] by (cases b) (auto intro: safeM_ret)
    show ?thesis
      by (subst validate_commands_loop.simps, simp only: True if_True)
        (rule safeM_bindM [OF safe_readr2cppacketasuint32 [OF "1.prems"]]
          safeM_bindM [OF safe_readbytesfromr2cppacket [OF "1.prems"]] safeM_bindM [OF content] rest)+
  next
    case False
    then show ?thesis by (subst validate_commands_loop.simps) (auto intro: safeM_ret)
  qed
qed

lemma safe_validatecommandsfromr2cppacket:
  assumes "length p < 2 ^ 32"
  shows "safeM (\<lambda>s. depth s = Suc k) (validatecommandsfromr2cppacket p) (\<lambda>_ s. k \<le> depth s) E"
proof -
  let ?E = "\<lambda>e s. read_exn e \<and> Suc k \<le> depth s"
  let ?Q = "\<lambda>failed s. if failed then Suc k \<le> depth s else depth s = Suc (Suc k)"
  have fin: "safeM (?Q b) (if \<not> b then checkifr2cppacketendisreached p else ret False)
     (\<lambda>_ s. Suc k \<le> depth s) ?E" for b
    by (cases b) (auto intro!: safeM_ret safeM_weaken [OF safe_checkifr2cppacketendisreached
          [where p = p and k = "Suc k" and E = ?E]])
  have body: "safeM (\<lambda>s. depth s = Suc (Suc k))
       (bindM (readr2cppacketasuint32 p) (\<lambda>commandscount.
        bindM (validate_commands_loop p 0 commandscount)
        (\<lambda>failed. if \<not> failed then checkifr2cppacketendisreached p else ret False)))
       (\<lambda>_ s. Suc k \<le> depth s) ?E"
    by (rule safeM_bindM [OF safe_readr2cppacketasuint32 [OF assms]]
        safeM_bindM [OF safe_validate_commands_loop [OF assms]] fin)+
  show ?thesis
    unfolding validatecommandsfromr2cppacket_def
    by (rule safeM_bindM [OF safe_offset_push] safeM_bindM [OF safe_catch_read [OF body safe_log_then(2)]]
        safeM_bindM [OF safe_offset_pop_le] safeM_ret | simp)+
qed


subsection \<open>Reading inside the buffer\<close>

lemma size32_ge_iff: "length p < 2 ^ 32 \<Longrightarrow> (x :: u32) \<le> size32 p \<longleftrightarrow> unat x \<le> length p"
  by (simp add: word_le_nat_alt unat_size32)

lemma word_of_nat_add_numeral: "word_of_nat k + (numeral m :: u32) = word_of_nat (k + numeral m)"
  by simp

lemma readr2cppacketasuint32_in:
  assumes "parsingoffsetstack s = word_of_nat k # r" and "k + 4 \<le> length p" and "length p < 2 ^ 32"
  shows "readr2cppacketasuint32 p s =
     (Ret (join32 (p ! k) (p ! (k + 1)) (p ! (k + 2)) (p ! (k + 3))),
      s\<lparr>parsingoffsetstack := word_of_nat (k + 4) # r\<rparr>)"
proof -
  have k: "unat (word_of_nat k :: u32) = k"
    using assms(2,3) by (intro unat_word_of_nat32) simp
  have u: "unat (word_of_nat k + x :: u32) = k + unat x" if "unat x \<le> 4" for x
    using that k assms(2,3) by (simp add: unat_add_no_wrap)
  have at: "vec_at p (unat (word_of_nat k + 1 :: u32)) = Ret (p ! (k + 1))"
      "vec_at p (unat (word_of_nat k + 2 :: u32)) = Ret (p ! (k + 2))"
      "vec_at p (unat (word_of_nat k + 3 :: u32)) = Ret (p ! (k + 3))"
    using u [of 1] u [of 2] u [of 3] assms(2) by simp_all
  have le: "word_of_nat k + 4 \<le> size32 p"
    using u [of 4] assms(2) by (simp add: size32_ge_iff [OF assms(3)])
  show ?thesis
    using assms(1,2) le k
    by (simp add: readr2cppacketasuint32_def bindM_def offset_back_def offset_pop_def liftO_def
        offset_push_def modifyM_def ret_def at [simplified])
qed

lemma read_bytes_loop_in:
  "unat offset + unat n \<le> length p \<Longrightarrow> length p < 2 ^ 32 \<Longrightarrow> i \<le> n \<Longrightarrow>
   read_bytes_loop p offset i n acc =
     Ret (acc @ take (unat n - unat i) (drop (unat offset + unat i) p))"
proof (induction p offset i n acc rule: read_bytes_loop.induct)
  case (1 p offset i n acc)
  show ?case
  proof (cases "i < n")
    case True
    then have i1: "i + 1 \<le> n" "unat (i + 1) = Suc (unat i)" "unat i < unat n" by unat_arith+
    have o: "unat (offset + i) = unat offset + unat i"
      using "1.prems" i1 by (intro unat_add_no_wrap) simp
    have v: "vec_at p (unat (offset + i)) = Ret (p ! (unat offset + unat i))"
      using "1.prems" i1 o by simp
    have "drop (unat offset + unat i) p
        = p ! (unat offset + unat i) # drop (Suc (unat offset + unat i)) p"
      using "1.prems" i1 by (simp add: Cons_nth_drop_Suc)
    moreover obtain m where "unat n - unat i = Suc m" "unat n - Suc (unat i) = m"
      using i1 by (metis Suc_diff_Suc)
    ultimately show ?thesis
      using "1.IH" [OF True v "1.prems"(1,2) i1(1)] True v i1
      by (subst read_bytes_loop.simps) simp
  next
    case False
    with "1.prems" have "i = n" by simp
    then show ?thesis by (simp add: read_bytes_loop.simps [of p offset n])
  qed
qed

lemma readbytesfromr2cppacket_in:
  assumes "parsingoffsetstack s = word_of_nat k # r" and "k + unat n \<le> length p" and "length p < 2 ^ 32"
  shows "readbytesfromr2cppacket p n s =
     (Ret (take (unat n) (drop k p)), s\<lparr>parsingoffsetstack := word_of_nat (k + unat n) # r\<rparr>)"
proof -
  have k: "unat (word_of_nat k :: u32) = k"
    using assms(2,3) by (intro unat_word_of_nat32) simp
  have "unat (word_of_nat k + n) = k + unat n"
    using assms(2,3) k by (simp add: unat_add_no_wrap)
  moreover from this have "word_of_nat k + n \<le> size32 p"
    using assms(2) by (simp add: size32_ge_iff [OF assms(3)])
  moreover have "read_bytes_loop p (word_of_nat k) 0 n [] = Ret (take (unat n) (drop k p))"
    using read_bytes_loop_in [of "word_of_nat k" n p 0 "[]"] assms(2,3) k by simp
  ultimately show ?thesis
    using assms(1)
    by (simp add: readbytesfromr2cppacket_def bindM_def offset_back_def offset_pop_def liftO_def
        offset_push_def modifyM_def ret_def)
qed

lemma skipbytesfromr2cppacket_in:
  "parsingoffsetstack s = word_of_nat k # r \<Longrightarrow>
   skipbytesfromr2cppacket n s = (Ret (), s\<lparr>parsingoffsetstack := word_of_nat (k + unat n) # r\<rparr>)"
  by (simp add: skipbytesfromr2cppacket_def bindM_def offset_back_def offset_pop_def
      offset_push_def modifyM_def)

subsection \<open>Validation always returns\<close>

lemma safe_logerror_uint:
  assumes "list_all is_uint_arg args" and "2 * (length f + 4 * length args) < 2 ^ 32"
    and "f \<noteq> []" and "sprintf_text f args = Some t"
  shows "safeM P (bindM (logerror f args) (\<lambda>_. ret r)) (\<lambda>_ _. True) E"
  by (simp add: safeM_def logerror_def logf_uint [OF assms] logs_def modifyM_def bindM_def ret_def)

definition cursor_at :: "nat \<Rightarrow> parser_state \<Rightarrow> bool" where
  "cursor_at k s \<longleftrightarrow> (\<exists>r. parsingoffsetstack s = word_of_nat k # r)"

lemma safe_read_at:
  "k + 4 \<le> length p \<Longrightarrow> length p < 2 ^ 32 \<Longrightarrow>
   safeM (cursor_at k) (readr2cppacketasuint32 p) (\<lambda>_. cursor_at (k + 4)) E"
  by (auto simp: safeM_def cursor_at_def readr2cppacketasuint32_in)

lemma safe_bytes_at:
  "k + unat n \<le> length p \<Longrightarrow> length p < 2 ^ 32 \<Longrightarrow>
   safeM (cursor_at k) (readbytesfromr2cppacket p n) (\<lambda>bs s. cursor_at (k + unat n) s \<and> length bs < 2 ^ 32) E"
  by (auto simp: safeM_def cursor_at_def readbytesfromr2cppacket_in)

lemma safe_validatecommands_nonempty:
  "safeM (\<lambda>s. cursor_at k s \<and> length p < 2 ^ 32) (validatecommandsfromr2cppacket p) (\<lambda>_ _. True) E"
proof (cases "length p < 2 ^ 32")
  case True
  have "safeM (\<lambda>s. depth s = Suc j) (validatecommandsfromr2cppacket p) (\<lambda>_ _. True) E" for j
    by (rule safeM_weaken [OF safe_validatecommandsfromr2cppacket [OF True, of j E]]) auto
  then show ?thesis
    unfolding safeM_def cursor_at_def by (metis length_Cons)
qed (simp add: safeM_def)

lemma validation_body_safe:
  assumes "length p < 2 ^ 32"
  shows "safeM (\<lambda>_. True) (validater2cppacket p) (\<lambda>_ s. parsingoffsetstack s = []) (\<lambda>_ _. False)"
proof -
  have len: "unat (size32 p) = length p" by (rule unat_size32 [OF assms])
  have push: "safeM (\<lambda>_. True) (offset_push 0) (\<lambda>_. cursor_at 0) E" for E
    by (simp add: safeM_def offset_push_def modifyM_def cursor_at_def)
  have clear: "safeM (\<lambda>_. True) (bindM offset_clear (\<lambda>_. ret b)) (\<lambda>_ s. parsingoffsetstack s = []) E" for b E
    by (simp add: safeM_def offset_clear_def modifyM_def ret_def bindM_def)
  have ge: "8 \<le> length p" if "MINR2CPPACKETSIZE \<le> size32 p"
    using that len by (simp add: MINR2CPPACKETSIZE_def word_le_nat_alt)
  have sz: "8 + unat n \<le> length p" if "size32 p = MINR2CPPACKETSIZE + n" "MINR2CPPACKETSIZE \<le> size32 p" for n
  proof -
    have "n = size32 p - 8" using that(1) by (simp add: MINR2CPPACKETSIZE_def)
    then have "unat n = length p - 8"
      using that(2) len by (simp add: MINR2CPPACKETSIZE_def unat_sub)
    then show ?thesis using ge [OF that(2)] by simp
  qed
  show ?thesis
    unfolding validater2cppacket_def Let_def
    by (rule safeM_bindM [OF push] safeM_bindM [OF _ clear] safeM_if
        safeM_bindM [OF safe_read_at [OF _ assms]] safeM_bindM [OF safe_bytes_at [OF _ assms]]
        safe_validatecommands_nonempty | (rule safeM_ret, simp; fail)
        | (rule safe_logerror_uint; simp; fail) | (use ge sz in simp; fail))+
qed
end
