(* ===== verification/R2CPWireFormat.thy ===== *)
theory R2CPWireFormat
  imports R2CPParser
begin

text \<open>
  The wire format of R2CP packets as a specification: what a peer that follows the protocol
  sends. The lemmas show that the parser accepts such packets and returns the commands they
  encode, and that the size theorems of the serializer's comments compute the lengths of this
  format.
\<close>

subsection \<open>The format\<close>

definition wire_parameter :: "r2cpparameter \<Rightarrow> bytes" where
  "wire_parameter p = be32 (param_code p) @ be32 (size32 (param_data p)) @ param_data p"

definition wire_parameters :: "r2cpparameter list \<Rightarrow> bytes" where
  "wire_parameters ps = be32 (size32 ps) @ concat (map wire_parameter ps)"

definition wire_content :: "r2cpcommand \<Rightarrow> bytes" where
  "wire_content c =
     (let commandcontenttype = getcommandcontenttype rcd (cmd_code c) in
      if commandcontenttype = DIRECTCONTENT then concat (map param_data (cmd_params c))
      else if commandcontenttype = PARAMETERIZEDCONTENT then wire_parameters (cmd_params c)
      else [])"

definition wire_command :: "r2cpcommand \<Rightarrow> bytes" where
  "wire_command c = be32 (cmd_code c) @ be32 (size32 (wire_content c)) @ wire_content c"

definition wire_commands :: "r2cpcommand list \<Rightarrow> bytes" where
  "wire_commands cs = be32 (size32 cs) @ concat (map wire_command cs)"

definition wire_packet :: "u32 \<Rightarrow> r2cpcommand list \<Rightarrow> bytes" where
  "wire_packet magic cs = be32 magic @ be32 (size32 (wire_commands cs)) @ wire_commands cs"

text \<open>A command the protocol allows: a valid code with parameters that fit its content type.\<close>

definition wf_command :: "r2cpcommand \<Rightarrow> bool" where
  "wf_command c \<longleftrightarrow> checkifvalidcommand rcd (cmd_code c) \<and>
     (let commandcontenttype = getcommandcontenttype rcd (cmd_code c) in
      if commandcontenttype = DIRECTCONTENT then
        (case cmd_params c of [p] \<Rightarrow> param_code p = NOPARAMETERS | _ \<Rightarrow> False)
      else if commandcontenttype = PARAMETERIZEDCONTENT then
        (\<forall>p \<in> set (cmd_params c). param_code p \<in> getcommandparameters rcd (cmd_code c))
      else cmd_params c = [])"

subsection \<open>Reading the format at a cursor\<close>

definition at_wire :: "bytes \<Rightarrow> nat \<Rightarrow> bytes \<Rightarrow> bool" where
  "at_wire p k xs \<longleftrightarrow> k \<le> length p \<and> drop k p = xs"

lemma at_wire_append: "at_wire p k (xs @ ys) \<Longrightarrow> at_wire p (k + length xs) ys"
  unfolding at_wire_def
  by (metis add.commute append_eq_conv_conj drop_drop le_add_diff_inverse length_append
      length_drop nat_add_left_cancel_le le_add1)

lemma at_wire_length: "at_wire p k xs \<Longrightarrow> length p = k + length xs"
  by (auto simp: at_wire_def)

lemma at_wire_start: "at_wire p 0 p"
  by (simp add: at_wire_def)

lemma join32_of_be32: "drop k p = be32 x @ xs \<Longrightarrow>
   join32 (p ! k) (p ! (k + 1)) (p ! (k + 2)) (p ! (k + 3)) = x"
proof -
  assume d: "drop k p = be32 x @ xs"
  have "p ! (k + j) = (be32 x @ xs) ! j" if "j < 4" for j
  proof -
    have "k + j < length p" using d that by (metis length_append length_be32 length_drop
          less_diff_conv add.commute trans_less_add1)
    then show ?thesis using d by (metis nth_drop less_imp_le le_add1 order_trans)
  qed
  from this [of 0] this [of 1] this [of 2] this [of 3] show ?thesis
    by (simp add: be32_def join32_be32)
qed

lemma read_uint32_wire:
  assumes "parsingoffsetstack s = word_of_nat k # r" and "at_wire p k (be32 x @ xs)"
    and "length p < 2 ^ 32"
  shows "readr2cppacketasuint32 p s = (Ret x, s\<lparr>parsingoffsetstack := word_of_nat (k + 4) # r\<rparr>)"
  using readr2cppacketasuint32_in [OF assms(1) _ assms(3)] at_wire_length [OF assms(2)]
    assms(2) join32_of_be32 [of k p x xs]
  by (simp add: at_wire_def)

lemma read_bytes_wire:
  assumes "parsingoffsetstack s = word_of_nat k # r" and "at_wire p k (d @ xs)"
    and "length p < 2 ^ 32"
  shows "readbytesfromr2cppacket p (size32 d) s =
    (Ret d, s\<lparr>parsingoffsetstack := word_of_nat (k + length d) # r\<rparr>)"
proof -
  have "unat (size32 d) = length d"
    using at_wire_length [OF assms(2)] assms(3) by (intro unat_size32) simp
  then show ?thesis
    using readbytesfromr2cppacket_in [OF assms(1) _ assms(3), of "size32 d"]
      at_wire_length [OF assms(2)] assms(2)
    by (simp add: at_wire_def)
qed

lemma loop_index_Cons:
  assumes "unat i + length (x # xs) < 2 ^ 32"
  shows "i < i + size32 (x # xs)" and "i + size32 (x # xs) = (i + 1) + size32 xs"
    and "unat (i + 1) + length xs < 2 ^ 32"
proof -
  have l: "unat (size32 (x # xs)) = length (x # xs)"
    using assms by (intro unat_size32) simp
  have "unat (i + size32 (x # xs)) = unat i + length (x # xs)"
    using assms l by (subst unat_add_no_wrap) simp_all
  then show "i < i + size32 (x # xs)" by (simp add: word_less_nat_alt)
  show "i + size32 (x # xs) = (i + 1) + size32 xs" by (simp add: size32_Cons)
  have "unat (i + 1) = unat i + 1" using assms by (subst unat_add_no_wrap) simp_all
  then show "unat (i + 1) + length xs < 2 ^ 32" using assms by simp
qed

subsection \<open>Validation accepts the format\<close>

lemma length_wire_parameter: "length (wire_parameter p) = 8 + length (param_data p)"
  by (simp add: wire_parameter_def)

lemma wire_parameter_unfold:
  "wire_parameter p @ xs = be32 (param_code p) @ be32 (size32 (param_data p)) @ param_data p @ xs"
  by (simp add: wire_parameter_def)

lemma validate_parameters_loop_wire:
  "parsingoffsetstack s = word_of_nat k # r \<Longrightarrow> at_wire c k (concat (map wire_parameter ps) @ xs) \<Longrightarrow>
   length c < 2 ^ 32 \<Longrightarrow> unat i + length ps < 2 ^ 32 \<Longrightarrow>
   validate_parameters_loop c i (i + size32 ps) s =
     (Ret True, s\<lparr>parsingoffsetstack := word_of_nat (k + length (concat (map wire_parameter ps))) # r\<rparr>)"
proof (induction ps arbitrary: s k i)
  case Nil
  then show ?case by (simp add: validate_parameters_loop.simps ret_def)
next
  case (Cons p ps)
  let ?ps = "concat (map wire_parameter ps)"
  have a: "at_wire c k (be32 (param_code p) @ be32 (size32 (param_data p)) @ param_data p @ ?ps @ xs)"
    using Cons.prems(2) by (simp add: wire_parameter_unfold)
  have a4: "at_wire c (k + 4) (be32 (size32 (param_data p)) @ param_data p @ ?ps @ xs)"
    using at_wire_append [OF a] by simp
  have d: "unat (size32 (param_data p)) = length (param_data p)"
    using at_wire_length [OF a] Cons.prems(3) by (intro unat_size32) simp
  have next': "at_wire c (k + length (wire_parameter p)) (?ps @ xs)"
    using at_wire_append [of c k "wire_parameter p"] Cons.prems(2) by simp
  note i = loop_index_Cons [OF Cons.prems(4)]
  have skip: "skipbytesfromr2cppacket 4 s = (Ret (), s\<lparr>parsingoffsetstack := word_of_nat (k + 4) # r\<rparr>)"
    using skipbytesfromr2cppacket_in [OF Cons.prems(1), of 4] by simp
  let ?s = "s\<lparr>parsingoffsetstack := word_of_nat (k + 4) # r\<rparr>"
  have read: "readr2cppacketasuint32 c ?s =
      (Ret (size32 (param_data p)), s\<lparr>parsingoffsetstack := word_of_nat (k + 8) # r\<rparr>)"
    using read_uint32_wire [of ?s "k + 4" r, OF _ a4 Cons.prems(3)] by (simp add: add.assoc)
  let ?t = "s\<lparr>parsingoffsetstack := word_of_nat (k + 8) # r\<rparr>"
  have skip2: "skipbytesfromr2cppacket (size32 (param_data p)) ?t =
      (Ret (), s\<lparr>parsingoffsetstack := word_of_nat (k + length (wire_parameter p)) # r\<rparr>)"
    using skipbytesfromr2cppacket_in [of ?t "k + 8" r "size32 (param_data p)"] d
    by (simp add: length_wire_parameter add.assoc)
  have "validate_parameters_loop c i (i + size32 (p # ps)) s =
     validate_parameters_loop c (i + 1) ((i + 1) + size32 ps)
       (s\<lparr>parsingoffsetstack := word_of_nat (k + length (wire_parameter p)) # r\<rparr>)"
    using i(1) i(2)
    by (subst validate_parameters_loop.simps)
      (simp only: if_True bindM_def catchM_def skip read skip2 prod.case outcome.case ret_def)
  also have "\<dots> = (Ret True, s\<lparr>parsingoffsetstack :=
      word_of_nat (k + length (concat (map wire_parameter (p # ps)))) # r\<rparr>)"
    by (subst Cons.IH [OF _ next' Cons.prems(3) i(3)]) (simp_all add: add.assoc)
  finally show ?case .
qed

lemma parse_parameters_loop_wire:
  "parsingoffsetstack s = word_of_nat k # r \<Longrightarrow> at_wire c k (concat (map wire_parameter ps) @ xs) \<Longrightarrow>
   length c < 2 ^ 32 \<Longrightarrow> unat i + length ps < 2 ^ 32 \<Longrightarrow> \<forall>p \<in> set ps. param_code p \<in> codes \<Longrightarrow>
   \<exists>lc. parse_parameters_loop c codes i (i + size32 ps) lastcode acc s =
     (Ret (False, lc, acc @ ps),
      s\<lparr>parsingoffsetstack := word_of_nat (k + length (concat (map wire_parameter ps))) # r\<rparr>)"
proof (induction ps arbitrary: s k i lastcode acc)
  case Nil
  then show ?case by (simp add: parse_parameters_loop.simps ret_def)
next
  case (Cons p ps)
  let ?ps = "concat (map wire_parameter ps)"
  have a: "at_wire c k (be32 (param_code p) @ be32 (size32 (param_data p)) @ param_data p @ ?ps @ xs)"
    using Cons.prems(2) by (simp add: wire_parameter_unfold)
  have a4: "at_wire c (k + 4) (be32 (size32 (param_data p)) @ param_data p @ ?ps @ xs)"
    using at_wire_append [OF a] by simp
  have a8: "at_wire c (k + 8) (param_data p @ ?ps @ xs)"
    using at_wire_append [OF a4] by (simp add: add.assoc)
  have next': "at_wire c (k + length (wire_parameter p)) (?ps @ xs)"
    using at_wire_append [of c k "wire_parameter p"] Cons.prems(2) by simp
  note i = loop_index_Cons [OF Cons.prems(4)]
  note read1 = read_uint32_wire [OF Cons.prems(1) a Cons.prems(3)]
  let ?s = "s\<lparr>parsingoffsetstack := word_of_nat (k + 4) # r\<rparr>"
  have read2: "readr2cppacketasuint32 c ?s =
      (Ret (size32 (param_data p)), s\<lparr>parsingoffsetstack := word_of_nat (k + 8) # r\<rparr>)"
    using read_uint32_wire [of ?s "k + 4" r, OF _ a4 Cons.prems(3)] by (simp add: add.assoc)
  let ?t = "s\<lparr>parsingoffsetstack := word_of_nat (k + 8) # r\<rparr>"
  have read3: "readbytesfromr2cppacket c (size32 (param_data p)) ?t = (Ret (param_data p),
      s\<lparr>parsingoffsetstack := word_of_nat (k + length (wire_parameter p)) # r\<rparr>)"
    using read_bytes_wire [of ?t "k + 8" r, OF _ a8 Cons.prems(3)]
    by (simp add: length_wire_parameter add.assoc)
  have p: "R2CPParameter_init (param_code p) (param_data p) = p"
    by (simp add: R2CPParameter_init_def)
  have c: "param_code p \<in> codes" and rest: "\<forall>p \<in> set ps. param_code p \<in> codes"
    using Cons.prems(5) by simp_all
  have "parse_parameters_loop c codes i (i + size32 (p # ps)) lastcode acc s =
     parse_parameters_loop c codes (i + 1) ((i + 1) + size32 ps) (param_code p) (acc @ [p])
       (s\<lparr>parsingoffsetstack := word_of_nat (k + length (wire_parameter p)) # r\<rparr>)"
    using i(1) i(2)
    by (subst parse_parameters_loop.simps)
      (simp only: if_True bindM_def read1 read2 read3 c p prod.case outcome.case)
  moreover obtain lc where "parse_parameters_loop c codes (i + 1) ((i + 1) + size32 ps) (param_code p)
       (acc @ [p]) (s\<lparr>parsingoffsetstack := word_of_nat (k + length (wire_parameter p)) # r\<rparr>) =
     (Ret (False, lc, (acc @ [p]) @ ps), s\<lparr>parsingoffsetstack :=
       word_of_nat (k + length (wire_parameter p) + length ?ps) # r\<rparr>)"
    using Cons.IH [where s = "s\<lparr>parsingoffsetstack := word_of_nat (k + length (wire_parameter p)) # r\<rparr>"
        and lastcode = "param_code p" and acc = "acc @ [p]", OF _ next' Cons.prems(3) i(3) rest] by auto
  ultimately show ?case by (simp add: add.assoc)
qed

text \<open>One parameterised content, as its own buffer on the offset stack.\<close>

lemma length_wire_parameters:
  "length (wire_parameters ps) = 4 + (\<Sum>p\<leftarrow>ps. 8 + length (param_data p))"
  by (simp add: wire_parameters_def length_concat length_wire_parameter comp_def)

lemma wire_parameters_count:
  "length (wire_parameters ps) < 2 ^ 32 \<Longrightarrow> length ps < 2 ^ 32"
  using sum_list_mono [of ps "\<lambda>_. 1" "\<lambda>p. 8 + length (param_data p)"]
  by (simp add: length_wire_parameters sum_list_triv)

lemma validateparameterizedcommandcontent_wire:
  assumes "length (wire_parameters ps) < 2 ^ 32"
  shows "validateparameterizedcommandcontent (wire_parameters ps) s = (Ret True, s)"
proof -
  let ?c = "wire_parameters ps"
  let ?s = "\<lambda>k. s\<lparr>parsingoffsetstack := word_of_nat k # parsingoffsetstack s\<rparr>"
  have w0: "at_wire ?c 0 (be32 (size32 ps) @ concat (map wire_parameter ps))"
    by (simp add: at_wire_start wire_parameters_def)
  have w4: "at_wire ?c 4 (concat (map wire_parameter ps) @ [])"
    using at_wire_append [OF w0] by simp
  have push: "offset_push 0 s = (Ret (), ?s 0)"
    by (simp add: offset_push_def modifyM_def)
  have read: "readr2cppacketasuint32 ?c (?s 0) = (Ret (size32 ps), ?s 4)"
    using read_uint32_wire [OF _ w0 assms, of "?s 0"] by simp
  have loop: "validate_parameters_loop ?c 0 (size32 ps) (?s 4) = (Ret True, ?s (length ?c))"
    using validate_parameters_loop_wire [OF _ w4 assms, of "?s 4" "parsingoffsetstack s" 0]
      wire_parameters_count [OF assms]
    by (simp add: wire_parameters_def)
  have "word_of_nat (length ?c) = size32 ?c" by (simp add: size32_def)
  then have check: "checkifr2cppacketendisreached ?c (?s (length ?c)) = (Ret True, ?s (length ?c))"
    by (simp add: checkifr2cppacketendisreached_def offset_back_def bindM_def ret_def)
  have pop: "offset_pop (?s (length ?c)) = (Ret (), s)"
    by (simp add: offset_pop_def)
  show ?thesis
    by (simp only: validateparameterizedcommandcontent_def bindM_def catchM_def push read loop check
        pop ret_def prod.case outcome.case option.case if_True)
qed

lemma parseparameterizedcommandcontent_wire:
  assumes "length (wire_parameters ps) < 2 ^ 32"
    and "\<forall>p \<in> set ps. param_code p \<in> getcommandparameters rcd cc"
  shows "parseparameterizedcommandcontent cc (wire_parameters ps) s = (Ret ps, s)"
proof -
  let ?c = "wire_parameters ps"
  let ?s = "\<lambda>k. s\<lparr>parsingoffsetstack := word_of_nat k # parsingoffsetstack s\<rparr>"
  have w0: "at_wire ?c 0 (be32 (size32 ps) @ concat (map wire_parameter ps))"
    by (simp add: at_wire_start wire_parameters_def)
  have w4: "at_wire ?c 4 (concat (map wire_parameter ps) @ [])"
    using at_wire_append [OF w0] by simp
  have push: "offset_push 0 s = (Ret (), ?s 0)"
    by (simp add: offset_push_def modifyM_def)
  have read: "readr2cppacketasuint32 ?c (?s 0) = (Ret (size32 ps), ?s 4)"
    using read_uint32_wire [OF _ w0 assms(1), of "?s 0"] by simp
  obtain lc where loop: "parse_parameters_loop ?c (getcommandparameters rcd cc) 0 (size32 ps) 0 [] (?s 4)
      = (Ret (False, lc, ps), ?s (length ?c))"
    using parse_parameters_loop_wire [OF _ w4 assms(1), of "?s 4" "parsingoffsetstack s" 0
        "getcommandparameters rcd cc" 0 "[]"] wire_parameters_count [OF assms(1)] assms(2)
    by (auto simp: wire_parameters_def)
  have pop: "offset_pop (?s (length ?c)) = (Ret (), s)"
    by (simp add: offset_pop_def)
  show ?thesis
    by (simp only: parseparameterizedcommandcontent_def bindM_def push read loop
        pop ret_def prod.case outcome.case if_False)
qed

lemma wf_command_content:
  assumes "wf_command c" and "length (wire_content c) < 2 ^ 32"
  shows "validatecommandcontent (cmd_code c) (wire_content c) s = (Ret True, s)"
    and "parsecommandcontent (cmd_code c) (wire_content c) s = (Ret (cmd_params c), s)"
proof -
  let ?t = "getcommandcontenttype rcd (cmd_code c)"
  consider (direct) "?t = DIRECTCONTENT" | (params) "?t = PARAMETERIZEDCONTENT" | (none) "?t = NOCONTENT"
    using contenttype_cases by blast
  then have "validatecommandcontent (cmd_code c) (wire_content c) s = (Ret True, s) \<and>
    parsecommandcontent (cmd_code c) (wire_content c) s = (Ret (cmd_params c), s)"
  proof cases
    case direct
    with assms(1) obtain p where "cmd_params c = [p]" "param_code p = NOPARAMETERS"
      by (auto simp: wf_command_def Let_def split: list.splits)
    with direct show ?thesis
      by (simp add: validatecommandcontent_def parsecommandcontent_def wire_content_def ret_def
          R2CPParameter_init_def Let_def)
  next
    case params
    with assms have "\<forall>p \<in> set (cmd_params c). param_code p \<in> getcommandparameters rcd (cmd_code c)"
      and "wire_content c = wire_parameters (cmd_params c)"
      by (simp_all add: wf_command_def wire_content_def Let_def)
    with params assms(2) show ?thesis
      by (simp add: validatecommandcontent_def parsecommandcontent_def catchM_def Let_def
          validateparameterizedcommandcontent_wire parseparameterizedcommandcontent_wire)
  next
    case none
    with assms(1) show ?thesis
      by (simp add: validatecommandcontent_def parsecommandcontent_def wire_content_def ret_def
          wf_command_def Let_def)
  qed
  then show "validatecommandcontent (cmd_code c) (wire_content c) s = (Ret True, s)"
    and "parsecommandcontent (cmd_code c) (wire_content c) s = (Ret (cmd_params c), s)"
    by simp_all
qed

subsection \<open>Commands and packets\<close>

lemma wire_command_unfold:
  "wire_command c @ xs = be32 (cmd_code c) @ be32 (size32 (wire_content c)) @ wire_content c @ xs"
  by (simp add: wire_command_def)

lemma length_wire_command: "length (wire_command c) = 8 + length (wire_content c)"
  by (simp add: wire_command_def)

text \<open>
  Both loops over commands start an iteration by reading a code, a size and the content: the
  three reads at a command of the format.
\<close>

lemma read_wire_command:
  assumes "parsingoffsetstack s = word_of_nat k # r" and "at_wire p k (wire_command c @ xs)"
    and "length p < 2 ^ 32"
  shows "readr2cppacketasuint32 p s = (Ret (cmd_code c), s\<lparr>parsingoffsetstack := word_of_nat (k + 4) # r\<rparr>)"
    and "readr2cppacketasuint32 p (s\<lparr>parsingoffsetstack := word_of_nat (k + 4) # r\<rparr>) =
      (Ret (size32 (wire_content c)), s\<lparr>parsingoffsetstack := word_of_nat (k + 8) # r\<rparr>)"
    and "readbytesfromr2cppacket p (size32 (wire_content c))
        (s\<lparr>parsingoffsetstack := word_of_nat (k + 8) # r\<rparr>) =
      (Ret (wire_content c), s\<lparr>parsingoffsetstack := word_of_nat (k + length (wire_command c)) # r\<rparr>)"
proof -
  have a: "at_wire p k (be32 (cmd_code c) @ be32 (size32 (wire_content c)) @ wire_content c @ xs)"
    using assms(2) by (simp add: wire_command_unfold)
  have a4: "at_wire p (k + 4) (be32 (size32 (wire_content c)) @ wire_content c @ xs)"
    using at_wire_append [OF a] by simp
  have a8: "at_wire p (k + 8) (wire_content c @ xs)"
    using at_wire_append [OF a4] by (simp add: add.assoc)
  show "readr2cppacketasuint32 p s =
      (Ret (cmd_code c), s\<lparr>parsingoffsetstack := word_of_nat (k + 4) # r\<rparr>)"
    by (rule read_uint32_wire [OF assms(1) a assms(3)])
  show "readr2cppacketasuint32 p (s\<lparr>parsingoffsetstack := word_of_nat (k + 4) # r\<rparr>) =
      (Ret (size32 (wire_content c)), s\<lparr>parsingoffsetstack := word_of_nat (k + 8) # r\<rparr>)"
    using read_uint32_wire [OF _ a4 assms(3), of "s\<lparr>parsingoffsetstack := word_of_nat (k + 4) # r\<rparr>" r]
    by (simp add: add.assoc)
  show "readbytesfromr2cppacket p (size32 (wire_content c))
        (s\<lparr>parsingoffsetstack := word_of_nat (k + 8) # r\<rparr>) =
      (Ret (wire_content c), s\<lparr>parsingoffsetstack := word_of_nat (k + length (wire_command c)) # r\<rparr>)"
    using read_bytes_wire [OF _ a8 assms(3), of "s\<lparr>parsingoffsetstack := word_of_nat (k + 8) # r\<rparr>" r]
    by (simp add: length_wire_command add.assoc)
qed

lemma wire_content_bound:
  "at_wire p k (wire_command c @ xs) \<Longrightarrow> length p < 2 ^ 32 \<Longrightarrow> length (wire_content c) < 2 ^ 32"
  using at_wire_length [of p k "wire_command c @ xs"] by (simp add: length_wire_command)

lemma validate_commands_loop_wire:
  "parsingoffsetstack s = word_of_nat k # r \<Longrightarrow> at_wire p k (concat (map wire_command cs) @ xs) \<Longrightarrow>
   length p < 2 ^ 32 \<Longrightarrow> unat i + length cs < 2 ^ 32 \<Longrightarrow> \<forall>c \<in> set cs. wf_command c \<Longrightarrow>
   validate_commands_loop p i (i + size32 cs) s =
     (Ret False, s\<lparr>parsingoffsetstack := word_of_nat (k + length (concat (map wire_command cs))) # r\<rparr>)"
proof (induction cs arbitrary: s k i)
  case Nil
  then show ?case by (simp add: validate_commands_loop.simps ret_def)
next
  case (Cons c cs)
  have a: "at_wire p k (wire_command c @ concat (map wire_command cs) @ xs)"
    using Cons.prems(2) by simp
  note reads = read_wire_command [OF Cons.prems(1) a Cons.prems(3)]
  note i = loop_index_Cons [OF Cons.prems(4)]
  note content = wf_command_content(1) [OF _ wire_content_bound [OF a Cons.prems(3)]]
  let ?t = "s\<lparr>parsingoffsetstack := word_of_nat (k + length (wire_command c)) # r\<rparr>"
  have wf: "wf_command c" and rest: "\<forall>c \<in> set cs. wf_command c" using Cons.prems(5) by simp_all
  have "validate_commands_loop p i (i + size32 (c # cs)) s =
      validate_commands_loop p (i + 1) ((i + 1) + size32 cs) ?t"
    using i(1) i(2)
    by (subst validate_commands_loop.simps)
      (simp only: if_True bindM_def reads content [OF wf] prod.case outcome.case)
  then show ?case
    using Cons.IH [where s = ?t, OF _ at_wire_append [OF a] Cons.prems(3) i(3) rest]
    by (simp add: add.assoc)
qed

lemma parse_commands_loop_wire:
  "parsingoffsetstack s = word_of_nat k # r \<Longrightarrow> at_wire p k (concat (map wire_command cs) @ xs) \<Longrightarrow>
   length p < 2 ^ 32 \<Longrightarrow> unat i + length cs < 2 ^ 32 \<Longrightarrow> \<forall>c \<in> set cs. wf_command c \<Longrightarrow>
   parse_commands_loop p i (i + size32 cs) acc s =
     (Ret (acc @ cs), s\<lparr>parsingoffsetstack := word_of_nat (k + length (concat (map wire_command cs))) # r\<rparr>)"
proof (induction cs arbitrary: s k i acc)
  case Nil
  then show ?case by (simp add: parse_commands_loop.simps ret_def)
next
  case (Cons c cs)
  have a: "at_wire p k (wire_command c @ concat (map wire_command cs) @ xs)"
    using Cons.prems(2) by simp
  note reads = read_wire_command [OF Cons.prems(1) a Cons.prems(3)]
  note i = loop_index_Cons [OF Cons.prems(4)]
  note content = wf_command_content(2) [OF _ wire_content_bound [OF a Cons.prems(3)]]
  let ?t = "s\<lparr>parsingoffsetstack := word_of_nat (k + length (wire_command c)) # r\<rparr>"
  have wf: "wf_command c" and rest: "\<forall>c \<in> set cs. wf_command c" using Cons.prems(5) by simp_all
  have valid: "checkifvalidcommand rcd (cmd_code c)" using wf by (simp add: wf_command_def)
  have c: "R2CPCommand_init (cmd_code c) (cmd_params c) = c" by (simp add: R2CPCommand_init_def)
  have "parse_commands_loop p i (i + size32 (c # cs)) acc s =
      parse_commands_loop p (i + 1) ((i + 1) + size32 cs) (acc @ [c]) ?t"
    using i(1) i(2)
    by (subst parse_commands_loop.simps)
      (simp only: if_True if_False not_True_eq_False bindM_def catchM_def reads content [OF wf] valid c
        ret_def prod.case outcome.case)
  then show ?case
    using Cons.IH [where s = ?t and acc = "acc @ [c]", OF _ at_wire_append [OF a] Cons.prems(3) i(3) rest]
    by (simp add: add.assoc)
qed

lemma length_wire_commands:
  "length (wire_commands cs) = 4 + (\<Sum>c\<leftarrow>cs. 8 + length (wire_content c))"
  by (simp add: wire_commands_def length_concat length_wire_command comp_def)

lemma wire_commands_count:
  "length (wire_commands cs) < 2 ^ 32 \<Longrightarrow> length cs < 2 ^ 32"
  using sum_list_mono [of cs "\<lambda>_. 1" "\<lambda>c. 8 + length (wire_content c)"]
  by (simp add: length_wire_commands sum_list_triv)

lemma validatecommandsfromr2cppacket_wire:
  assumes "length (wire_commands cs) < 2 ^ 32" and "\<forall>c \<in> set cs. wf_command c"
  shows "validatecommandsfromr2cppacket (wire_commands cs) s = (Ret True, s)"
proof -
  let ?p = "wire_commands cs"
  let ?s = "\<lambda>k. s\<lparr>parsingoffsetstack := word_of_nat k # parsingoffsetstack s\<rparr>"
  have w0: "at_wire ?p 0 (be32 (size32 cs) @ concat (map wire_command cs))"
    by (simp add: at_wire_start wire_commands_def)
  have w4: "at_wire ?p 4 (concat (map wire_command cs) @ [])"
    using at_wire_append [OF w0] by simp
  have push: "offset_push 0 s = (Ret (), ?s 0)"
    by (simp add: offset_push_def modifyM_def)
  have read: "readr2cppacketasuint32 ?p (?s 0) = (Ret (size32 cs), ?s 4)"
    using read_uint32_wire [OF _ w0 assms(1), of "?s 0"] by simp
  have loop: "validate_commands_loop ?p 0 (size32 cs) (?s 4) = (Ret False, ?s (length ?p))"
    using validate_commands_loop_wire [OF _ w4 assms(1), of "?s 4" "parsingoffsetstack s" 0]
      wire_commands_count [OF assms(1)] assms(2)
    by (simp add: wire_commands_def)
  have "word_of_nat (length ?p) = size32 ?p" by (simp add: size32_def)
  then have check: "checkifr2cppacketendisreached ?p (?s (length ?p)) = (Ret True, ?s (length ?p))"
    by (simp add: checkifr2cppacketendisreached_def offset_back_def bindM_def ret_def)
  have pop: "offset_pop (?s (length ?p)) = (Ret (), s)"
    by (simp add: offset_pop_def)
  show ?thesis
    by (simp only: validatecommandsfromr2cppacket_def bindM_def catchM_def push read loop check
        pop ret_def prod.case outcome.case if_True not_False_eq_True)
qed


definition is_magic :: "u32 \<Rightarrow> bool" where
  "is_magic m \<longleftrightarrow> m = R2CPMAGICNUMBER \<or> m = RRCPMAGICNUMBER"

lemma validater2cppacket_wire:
  assumes "length (wire_packet m cs) < 2 ^ 32" and "is_magic m" and "\<forall>c \<in> set cs. wf_command c"
  shows "validater2cppacket (wire_packet m cs) s = (Ret True, s\<lparr>parsingoffsetstack := []\<rparr>)"
proof -
  let ?p = "wire_packet m cs"
  let ?b = "wire_commands cs"
  let ?s = "\<lambda>k. s\<lparr>parsingoffsetstack := word_of_nat k # parsingoffsetstack s\<rparr>"
  have lb: "length ?b < 2 ^ 32" and lp: "length ?p = 8 + length ?b"
    using assms(1) by (simp_all add: wire_packet_def)
  have ub: "unat (size32 ?b) = length ?b" by (rule unat_size32 [OF lb])
  have nz: "size32 ?b \<noteq> 0"
    using ub length_wire_commands [of cs] by auto
  have w0: "at_wire ?p 0 (be32 m @ be32 (size32 ?b) @ ?b)"
    by (simp add: at_wire_start wire_packet_def)
  have w4: "at_wire ?p 4 (be32 (size32 ?b) @ ?b)"
    using at_wire_append [OF w0] by simp
  have w8: "at_wire ?p 8 (?b @ [])"
    using at_wire_append [OF w4] by simp
  have push: "offset_push 0 s = (Ret (), ?s 0)"
    by (simp add: offset_push_def modifyM_def)
  have ge: "MINR2CPPACKETSIZE \<le> size32 ?p"
    using lp by (simp add: size32_ge_iff [OF assms(1)] MINR2CPPACKETSIZE_def)
  have sz: "size32 ?p = MINR2CPPACKETSIZE + size32 ?b"
    by (simp add: size32_def lp MINR2CPPACKETSIZE_def)
  have read0: "readr2cppacketasuint32 ?p (?s 0) = (Ret m, ?s 4)"
    using read_uint32_wire [OF _ w0 assms(1), of "?s 0"] by simp
  have read4: "readr2cppacketasuint32 ?p (?s 4) = (Ret (size32 ?b), ?s 8)"
    using read_uint32_wire [OF _ w4 assms(1), of "?s 4"] by simp
  have read8: "readbytesfromr2cppacket ?p (size32 ?b) (?s 8) = (Ret ?b, ?s (8 + length ?b))"
    using read_bytes_wire [OF _ w8 assms(1), of "?s 8"] by simp
  have clear: "offset_clear (?s k) = (Ret (), s\<lparr>parsingoffsetstack := []\<rparr>)" for k
    by (simp add: offset_clear_def modifyM_def)
  have magic: "(m = R2CPMAGICNUMBER \<or> m = RRCPMAGICNUMBER) = True"
    using assms(2) by (simp add: is_magic_def)
  show ?thesis
    using ge nz
    by (simp only: validater2cppacket_def Let_def bindM_def push read0 read4 read8 sz magic
        validatecommandsfromr2cppacket_wire [OF lb assms(3)] clear ret_def prod.case outcome.case if_True if_False refl)
qed

lemma parser2cppacket_wire:
  assumes "length (wire_packet m cs) < 2 ^ 32" and "is_magic m" and "\<forall>c \<in> set cs. wf_command c"
  shows "parser2cppacket (wire_packet m cs) s = (Ret cs, s\<lparr>parsingoffsetstack := []\<rparr>)"
proof -
  let ?p = "wire_packet m cs"
  let ?b = "wire_commands cs"
  let ?s = "\<lambda>k. s\<lparr>parsingoffsetstack := [word_of_nat k]\<rparr>"
  have lb: "length ?b < 2 ^ 32"
    using assms(1) by (simp add: wire_packet_def)
  have w0: "at_wire ?p 0 ((be32 m @ be32 (size32 ?b)) @ be32 (size32 cs) @ concat (map wire_command cs))"
    by (simp add: at_wire_start wire_packet_def wire_commands_def)
  have w8: "at_wire ?p 8 (be32 (size32 cs) @ concat (map wire_command cs))"
    using at_wire_append [OF w0] by simp
  have w12: "at_wire ?p 12 (concat (map wire_command cs) @ [])"
    using at_wire_append [OF w8] by simp
  have push: "offset_push 0 (s\<lparr>parsingoffsetstack := []\<rparr>) = (Ret (), ?s 0)"
    by (simp add: offset_push_def modifyM_def)
  have skip: "skipbytesfromr2cppacket MINR2CPPACKETSIZE (?s 0) = (Ret (), ?s 8)"
    using skipbytesfromr2cppacket_in [of "?s 0" 0 "[]" MINR2CPPACKETSIZE] by (simp add: MINR2CPPACKETSIZE_def)
  have read8: "readr2cppacketasuint32 ?p (?s 8) = (Ret (size32 cs), ?s 12)"
    using read_uint32_wire [OF _ w8 assms(1), of "?s 8"] by simp
  have loop: "parse_commands_loop ?p 0 (size32 cs) [] (?s 12) =
      (Ret cs, ?s (12 + length (concat (map wire_command cs))))"
    using parse_commands_loop_wire [OF _ w12 assms(1), of "?s 12" "[]" 0 "[]"]
      wire_commands_count [OF lb] assms(3) by simp
  have clear: "offset_clear (?s k) = (Ret (), s\<lparr>parsingoffsetstack := []\<rparr>)" for k
    by (simp add: offset_clear_def modifyM_def)
  show ?thesis
    by (simp only: parser2cppacket_def bindM_def validater2cppacket_wire [OF assms] push skip read8 loop
        clear ret_def prod.case outcome.case if_True)
qed

subsection \<open>What the parser returns is well-formed\<close>

lemma parse_parameters_loop_codes:
  "parse_parameters_loop c codes i n lastcode acc s = (Ret (bad, lc, ps), t) \<Longrightarrow>
   \<forall>p \<in> set acc. param_code p \<in> codes \<Longrightarrow> \<forall>p \<in> set ps. param_code p \<in> codes"
proof (induction c codes i n lastcode acc arbitrary: s rule: parse_parameters_loop.induct)
  case (1 c codes i n lastcode acc)
  show ?case
  proof (cases "i < n")
    case True
    with "1.prems"(1) obtain pc s1 where pc: "readr2cppacketasuint32 c s = (Ret pc, s1)"
      by (subst (asm) parse_parameters_loop.simps) (auto simp: bindM_eq_Ret_iff)
    show ?thesis
    proof (cases "pc \<in> codes")
      case pcin: True
      with "1.prems"(1) True pc obtain sz d s3 where
        "parse_parameters_loop c codes (i + 1) n pc (acc @ [R2CPParameter_init pc d]) s3 = (Ret (bad, lc, ps), t)"
        by (subst (asm) parse_parameters_loop.simps) (auto simp: bindM_eq_Ret_iff)
      then show ?thesis
        using "1.IH" [OF True pcin, of d s3] "1.prems"(2) pcin by (simp add: R2CPParameter_init_def)
    next
      case False
      with "1.prems" True pc show ?thesis
        by (subst (asm) parse_parameters_loop.simps) (auto simp: bindM_def ret_def)
    qed
  next
    case False
    with "1.prems" show ?thesis by (subst (asm) parse_parameters_loop.simps) (auto simp: ret_def)
  qed
qed

lemma parsecommandcontent_wf:
  assumes "parsecommandcontent cc c s = (Ret ps, t)" and "checkifvalidcommand rcd cc"
  shows "wf_command (R2CPCommand_init cc ps)"
proof -
  have "\<forall>p \<in> set ps. param_code p \<in> getcommandparameters rcd cc"
    if "parseparameterizedcommandcontent cc c s = (Ret ps, t)"
  proof -
    from that obtain n s1 lc s2 where
      "parse_parameters_loop c (getcommandparameters rcd cc) 0 n 0 [] s1 = (Ret (False, lc, ps), s2)"
      by (auto simp: parseparameterizedcommandcontent_def bindM_eq_Ret_iff throwM_def ret_def
          split: prod.splits if_splits)
    then show ?thesis by (rule parse_parameters_loop_codes) simp
  qed
  moreover have "parsecommandcontent cc c s = (Ret ps, t) \<Longrightarrow>
      getcommandcontenttype rcd cc = PARAMETERIZEDCONTENT \<Longrightarrow>
      parseparameterizedcommandcontent cc c s = (Ret ps, t)"
    by (auto simp: parsecommandcontent_def catchM_def throwM_def split: prod.splits outcome.splits if_splits)
  ultimately show ?thesis
    using assms contenttype_cases [of cc]
    by (auto simp: wf_command_def R2CPCommand_init_def parsecommandcontent_def ret_def
        R2CPParameter_init_def)
qed

lemma parse_commands_loop_wf:
  "parse_commands_loop p i n acc s = (Ret cs, t) \<Longrightarrow> \<forall>c \<in> set acc. wf_command c \<Longrightarrow>
   \<forall>c \<in> set cs. wf_command c"
proof (induction p i n acc arbitrary: s rule: parse_commands_loop.induct)
  case (1 p i n acc)
  show ?case
  proof (cases "i < n")
    case True
    with "1.prems"(1) obtain cc s1 sz s2 where
      cc: "readr2cppacketasuint32 p s = (Ret cc, s1)" and sz: "readr2cppacketasuint32 p s1 = (Ret sz, s2)"
      by (subst (asm) parse_commands_loop.simps) (auto simp: bindM_eq_Ret_iff)
    show ?thesis
    proof (cases "checkifvalidcommand rcd cc")
      case valid: True
      with "1.prems"(1) True cc sz obtain c s3 acc' s4 where
        acc': "catchM (bindM (parsecommandcontent cc c) (\<lambda>ps. ret (acc @ [R2CPCommand_init cc ps])))
            InvalidArgument (\<lambda>e. bindM (log_faulty_command (what e) cc) (\<lambda>_. ret acc)) s3 = (Ret acc', s4)"
        and rest: "parse_commands_loop p (i + 1) n acc' s4 = (Ret cs, t)"
        by (subst (asm) parse_commands_loop.simps) (auto simp: bindM_eq_Ret_iff)
      have "acc' = acc \<or> (\<exists>ps s5. parsecommandcontent cc c s3 = (Ret ps, s5) \<and>
          acc' = acc @ [R2CPCommand_init cc ps])"
        using acc' by (auto simp: catchM_def bindM_def ret_def split: prod.splits outcome.splits if_splits)
      then have "\<forall>c \<in> set acc'. wf_command c"
        using "1.prems"(2) parsecommandcontent_wf [OF _ valid] by auto
      with "1.IH"(2) rest True valid show ?thesis by blast
    next
      case False
      with "1.prems"(1) True cc sz obtain s4 where "parse_commands_loop p (i + 1) n acc s4 = (Ret cs, t)"
        by (subst (asm) parse_commands_loop.simps) (auto simp: bindM_eq_Ret_iff)
      with "1.IH"(1) True False "1.prems"(2) show ?thesis by blast
    qed
  next
    case False
    with "1.prems" show ?thesis by (subst (asm) parse_commands_loop.simps) (auto simp: ret_def)
  qed
qed

lemma parser2cppacket_wf:
  assumes "parser2cppacket p s = (Ret cs, t)"
  shows "(\<forall>c \<in> set cs. wf_command c) \<and> parsingoffsetstack t = []"
proof -
  from assms obtain n s1 s2 where "parse_commands_loop p 0 n [] s1 = (Ret cs, s2)"
    and "t = s2\<lparr>parsingoffsetstack := []\<rparr>"
    by (auto simp: parser2cppacket_def bindM_eq_Ret_iff throwM_def offset_clear_def modifyM_def ret_def
        split: if_splits)
  then show ?thesis using parse_commands_loop_wf by auto
qed

subsection \<open>The log message of a faulty command\<close>

lemma idec_length_less: "0 \<le> n \<Longrightarrow> n < 100000 \<longleftrightarrow> length (idec n) \<le> 5"
  using idec_length_le [of n 4] idec_length_ge [of 5 n] by (cases "n < 100000") auto

lemma idec_digit: "n < 10 \<Longrightarrow> length (idec n) = 1"
  by (subst idec.simps) simp

lemma log_faulty_command_text:
  "sprintf_text (''%s. '' @ ''Error parsing command content of command code: %u. '' @
       ''Faulty command discarded.'') [FStr w, FUint c] =
   Some (w @ ''. Error parsing command content of command code: '' @ idec (uint c) @
     ''. Faulty command discarded.'')"
  by simp

lemma log_faulty_command_outcome:
  assumes "uint cc < 10"
  shows "fst (log_faulty_command (undefined_parameter_what pc cc) cc s) =
     (if uint pc < 100000 then Ret () else Undefined)"
  using idec_length_less [of "uint pc"] idec_digit [OF assms]
  by (simp add: log_faulty_command_def logerror_def logf_def bindM_def liftO_def modifyM_def
      convertformattostring_def format_buffersize_def log_faulty_command_text size32_def
      undefined_parameter_what_def)

definition wire_encodable :: "u32 \<Rightarrow> r2cpcommand list \<Rightarrow> bool" where
  "wire_encodable m cs \<longleftrightarrow> is_magic m \<and> length (wire_packet m cs) < 2 ^ 32 \<and> (\<forall>c \<in> set cs. wf_command c)"

interpretation wire: codec "wire_encodable m" "wire_packet m"
  "\<lambda>r2cppacket. fst (parser2cppacket r2cppacket R2CPParser_init)" for m
  by unfold_locales (simp add: wire_encodable_def parser2cppacket_wire)

end
