(* ===== verification/R2CPSerializer.thy ===== *)
theory R2CPSerializer
  imports R2CPWireFormat
begin

text \<open>
  \<open>R2CPSerializer.hpp\<close> and \<open>R2CPSerializer.cpp\<close>. The serializer keeps a stack of offsets in
  a \<open>std::vector<uint8_t>\<close>, so an offset is truncated to eight bits when it is pushed. The
  writers compare the offset with the present size of the vector and then append with
  \<open>push_back\<close>. They return the vector they were given by reference.
\<close>

subsection \<open>State and writers\<close>

record serializer_state =
  serializingoffsetstack :: "u8 list"

definition R2CPSerializer_init :: serializer_state where
  "R2CPSerializer_init = \<lparr>serializingoffsetstack = []\<rparr>"

definition soffset_push :: "u32 \<Rightarrow> (serializer_state, unit) prog" where
  "soffset_push offset = modifyM (serializingoffsetstack_update ((#) (ucast offset)))"

definition soffset_back :: "(serializer_state, u32) prog" where
  "soffset_back = (\<lambda>s. case serializingoffsetstack s of
     [] \<Rightarrow> (Undefined, s) | offset # _ \<Rightarrow> (Ret (ucast offset), s))"

definition soffset_pop :: "(serializer_state, unit) prog" where
  "soffset_pop = (\<lambda>s. case serializingoffsetstack s of
     [] \<Rightarrow> (Undefined, s) | _ # rest \<Rightarrow> (Ret (), s\<lparr>serializingoffsetstack := rest\<rparr>))"

definition soffset_clear :: "(serializer_state, unit) prog" where
  "soffset_clear = modifyM (serializingoffsetstack_update (\<lambda>_. []))"

definition no_more_bytes_to_write :: exn where
  "no_more_bytes_to_write = Exn OutOfRange ''R2CP packet has no more bytes left for writing.''"

definition writeuin32tor2cppacket :: "bytes \<Rightarrow> u32 \<Rightarrow> (serializer_state, bytes) prog" where
  "writeuin32tor2cppacket r2cppacket uint32value =
     bindM soffset_back (\<lambda>offset.
     bindM soffset_pop (\<lambda>_.
     if offset + 4 \<le> size32 r2cppacket then
       bindM (soffset_push (offset + 4)) (\<lambda>_.
       ret (r2cppacket @
         [ucast (drop_bit 24 (uint32value AND 4278190080)),
          ucast (drop_bit 16 (uint32value AND 16711680)),
          ucast (drop_bit 8 (uint32value AND 65280)),
          ucast (uint32value AND 255)]))
     else
       bindM (soffset_push offset) (\<lambda>_.
       throwM no_more_bytes_to_write)))"

function write_bytes_loop :: "bytes \<Rightarrow> u32 \<Rightarrow> u32 \<Rightarrow> bytes \<Rightarrow> bytes outcome" where
  "write_bytes_loop writingbytes i n r2cppacket =
     (if i < n then
        (case vec_at writingbytes (unat i) of
           Ret b \<Rightarrow> write_bytes_loop writingbytes (i + 1) n (r2cppacket @ [b])
         | Throw e \<Rightarrow> Throw e
         | Undefined \<Rightarrow> Undefined)
      else Ret r2cppacket)"
  by pat_completeness auto
termination
  by (relation "measure (\<lambda>(w, i, n, v). unat (n - i))") (auto intro: word_loop_decreases)

declare write_bytes_loop.simps [simp del]

definition writebytestor2cppacket :: "bytes \<Rightarrow> bytes \<Rightarrow> (serializer_state, bytes) prog" where
  "writebytestor2cppacket r2cppacket writingbytes =
     bindM soffset_back (\<lambda>offset.
     bindM soffset_pop (\<lambda>_.
     if offset + size32 writingbytes \<le> size32 r2cppacket then
       bindM (liftO (write_bytes_loop writingbytes 0 (size32 writingbytes) r2cppacket)) (\<lambda>r2cppacket'.
       bindM (soffset_push (offset + size32 writingbytes)) (\<lambda>_.
       ret r2cppacket'))
     else
       bindM (soffset_push offset) (\<lambda>_.
       throwM no_more_bytes_to_write)))"

subsection \<open>Sizes\<close>

fun precompute_parameters_loop :: "r2cpparameter list \<Rightarrow> u32 \<Rightarrow> u32" where
  "precompute_parameters_loop [] commandcontentsize = commandcontentsize"
| "precompute_parameters_loop (commandparameter # rest) commandcontentsize =
     precompute_parameters_loop rest (commandcontentsize + getparameterdatasize commandparameter)"

definition precomputecommandcontentsize :: "r2cpparameter list \<Rightarrow> u32" where
  "precomputecommandcontentsize commandparameters =
     precompute_parameters_loop commandparameters (4 + size32 commandparameters * 8)"

definition precompute_command_step :: "r2cpcommand \<Rightarrow> u32" where
  "precompute_command_step command =
     (if getnumberofcommandparameters command > 0 then
        (if getnumberofcommandparameters command = 1 then
           (case getcommandparameters_of command of
              commandparameter # _ \<Rightarrow>
                if getparametercode commandparameter = NOPARAMETERS
                then getparameterdatasize commandparameter
                else precomputecommandcontentsize (getcommandparameters_of command)
            | [] \<Rightarrow> 0)
         else precomputecommandcontentsize (getcommandparameters_of command))
      else 0)"

fun precompute_commands_loop :: "r2cpcommand list \<Rightarrow> u32 \<Rightarrow> u32" where
  "precompute_commands_loop [] r2cppacketsize = r2cppacketsize"
| "precompute_commands_loop (command # rest) r2cppacketsize =
     precompute_commands_loop rest (r2cppacketsize + precompute_command_step command)"

definition precomputer2cppacketsize :: "r2cpcommand list \<Rightarrow> u32" where
  "precomputer2cppacketsize commands = precompute_commands_loop commands (4 + size32 commands * 8)"

subsection \<open>Serializing\<close>

fun serialize_parameters_loop :: "r2cpparameter list \<Rightarrow> bytes \<Rightarrow> (serializer_state, bytes) prog" where
  "serialize_parameters_loop [] commandcontent = ret commandcontent"
| "serialize_parameters_loop (commandparameter # rest) commandcontent =
     bindM (writeuin32tor2cppacket commandcontent (getparametercode commandparameter)) (\<lambda>c1.
     bindM (writeuin32tor2cppacket c1 (size32 (getparameterdata commandparameter))) (\<lambda>c2.
     bindM (writebytestor2cppacket c2 (getparameterdata commandparameter)) (\<lambda>c3.
     serialize_parameters_loop rest c3)))"

definition serializeparameterizedcommandcontent :: "r2cpparameter list \<Rightarrow> (serializer_state, bytes) prog" where
  "serializeparameterizedcommandcontent commandparameters =
     bindM (soffset_push 0) (\<lambda>_.
     bindM (serialize_parameters_loop commandparameters
              (replicate (unat (precomputecommandcontentsize commandparameters)) 0)) (\<lambda>commandcontent.
     bindM soffset_pop (\<lambda>_.
     ret commandcontent)))"

definition write_command_content :: "bytes \<Rightarrow> u32 \<Rightarrow> bytes \<Rightarrow> (serializer_state, bytes) prog" where
  "write_command_content r2cppacket commandcode content =
     bindM (writeuin32tor2cppacket r2cppacket commandcode) (\<lambda>p1.
     bindM (writeuin32tor2cppacket p1 (size32 content)) (\<lambda>p2.
     writebytestor2cppacket p2 content))"

definition serialize_command :: "r2cpcommand \<Rightarrow> bytes \<Rightarrow> (serializer_state, bytes) prog" where
  "serialize_command command r2cppacket =
     (let commandcode = getcommandcode command;
          commandparameters = getcommandparameters_of command;
          commandparameterscount = getnumberofcommandparameters command
      in
      if commandparameterscount > 0 then
        if commandparameterscount = 1 then
          bindM (liftO (vec_at commandparameters 0)) (\<lambda>commandparameter.
          if getparametercode commandparameter = NOPARAMETERS then
            write_command_content r2cppacket commandcode (getparameterdata commandparameter)
          else
            bindM (serializeparameterizedcommandcontent commandparameters) (\<lambda>commandcontent.
            write_command_content r2cppacket commandcode commandcontent))
        else
          bindM (serializeparameterizedcommandcontent commandparameters) (\<lambda>commandcontent.
          write_command_content r2cppacket commandcode commandcontent)
      else
        bindM (writeuin32tor2cppacket r2cppacket commandcode) (\<lambda>p1.
        writeuin32tor2cppacket p1 0))"

fun serialize_commands_loop :: "r2cpcommand list \<Rightarrow> bytes \<Rightarrow> (serializer_state, bytes) prog" where
  "serialize_commands_loop [] r2cppacket = ret r2cppacket"
| "serialize_commands_loop (command # rest) r2cppacket =
     bindM (serialize_command command r2cppacket) (\<lambda>r2cppacket'.
     serialize_commands_loop rest r2cppacket')"

definition serializecommands :: "r2cpcommand list \<Rightarrow> (serializer_state, bytes) prog" where
  "serializecommands commands =
     (let commandscount = size32 commands;
          r2cppacketsize = (if commandscount > 0 then precomputer2cppacketsize commands else 0)
      in
      bindM (soffset_push 0) (\<lambda>_.
      bindM (writeuin32tor2cppacket [] R2CPMAGICNUMBER) (\<lambda>p1.
      bindM (if commandscount > 0 then
               bindM (writeuin32tor2cppacket p1 r2cppacketsize) (\<lambda>p2.
               writeuin32tor2cppacket p2 commandscount)
             else writeuin32tor2cppacket p1 0) (\<lambda>p3.
      bindM (serialize_commands_loop commands p3) (\<lambda>r2cppacket.
      bindM soffset_clear (\<lambda>_.
      ret r2cppacket))))))"

subsection \<open>The writers\<close>

lemma be32_masked:
  "[ucast (drop_bit 24 (x AND 4278190080)), ucast (drop_bit 16 (x AND 16711680)),
    ucast (drop_bit 8 (x AND 65280)), ucast (x AND 255)] = be32 x"
  by (simp add: be32_def masked_bytes32)

lemma write_uint32_in:
  "serializingoffsetstack s = offset # r \<Longrightarrow> ucast offset + 4 \<le> size32 v \<Longrightarrow>
   writeuin32tor2cppacket v x s =
     (Ret (v @ be32 x), s\<lparr>serializingoffsetstack := ucast (ucast offset + 4 :: u32) # r\<rparr>)"
  unfolding writeuin32tor2cppacket_def be32_masked
  by (simp add: soffset_back_def soffset_pop_def soffset_push_def bindM_def modifyM_def ret_def)

lemma u8_roundtrip [simp]: "ucast (ucast (x :: u8) :: u32) = x"
  by (rule bit_word_eqI) (auto simp: bit_simps)

lemma write_uint32_out:
  "serializingoffsetstack s = offset # r \<Longrightarrow> \<not> ucast offset + 4 \<le> size32 v \<Longrightarrow>
   writeuin32tor2cppacket v x s = (Throw no_more_bytes_to_write, s)"
  by (cases s) (simp add: writeuin32tor2cppacket_def soffset_back_def soffset_pop_def
      soffset_push_def bindM_def modifyM_def throwM_def)

lemma write_bytes_loop_eq:
  "unat n \<le> length w \<Longrightarrow> i \<le> n \<Longrightarrow>
   write_bytes_loop w i n v = Ret (v @ take (unat n - unat i) (drop (unat i) w))"
proof (induction w i n v rule: write_bytes_loop.induct)
  case (1 w i n v)
  show ?case
  proof (cases "i < n")
    case True
    then have lt: "unat i < unat n" by (simp add: word_less_nat_alt)
    then have "unat i < length w" using "1.prems"(1) by simp
    moreover have "i + 1 \<le> n" using True by (simp add: inc_le)
    moreover have "take (unat n - unat i) (drop (unat i) w) =
        w ! unat i # take (unat n - Suc (unat i)) (drop (Suc (unat i)) w)"
      using lt calculation(1) by (simp add: Cons_nth_drop_Suc [symmetric] take_Cons' Suc_diff_Suc)
    ultimately show ?thesis
      using True "1.IH" [OF True, of "w ! unat i"] "1.prems"(1)
      by (subst write_bytes_loop.simps) (simp add: unat_suc_less)
  next
    case False
    with "1.prems"(2) have "i = n" by simp
    then show ?thesis by (subst write_bytes_loop.simps) simp
  qed
qed

lemma write_bytes_in:
  "serializingoffsetstack s = offset # r \<Longrightarrow> ucast offset + size32 w \<le> size32 v \<Longrightarrow>
   length w < 2 ^ 32 \<Longrightarrow>
   writebytestor2cppacket v w s =
     (Ret (v @ w), s\<lparr>serializingoffsetstack := ucast (ucast offset + size32 w :: u32) # r\<rparr>)"
  by (simp add: writebytestor2cppacket_def soffset_back_def soffset_pop_def soffset_push_def
      bindM_def modifyM_def ret_def liftO_def write_bytes_loop_eq unat_size32)

subsection \<open>No response can be serialized\<close>

lemma serializecommands_throws_OutOfRange:
  "serializecommands cs s =
     (Throw no_more_bytes_to_write, s\<lparr>serializingoffsetstack := 0 # serializingoffsetstack s\<rparr>)"
  by (simp add: serializecommands_def Let_def soffset_push_def bindM_Throw write_uint32_out)

subsection \<open>Sizes\<close>

definition parameters_size :: "r2cpparameter list \<Rightarrow> nat" where
  "parameters_size ps = 4 + 8 * length ps + (\<Sum>p\<leftarrow>ps. length (param_data p))"

lemma precompute_parameters_loop_eq:
  "precompute_parameters_loop ps n = n + word_of_nat (\<Sum>p\<leftarrow>ps. length (param_data p))"
  by (induction ps arbitrary: n) (simp_all add: getter_defs size32_def)

lemma precomputecommandcontentsize_eq:
  "precomputecommandcontentsize ps = word_of_nat (parameters_size ps)"
  by (simp add: precomputecommandcontentsize_def precompute_parameters_loop_eq parameters_size_def
      size32_def)

lemma length_wire_parameters_size: "length (wire_parameters ps) = parameters_size ps"
  by (induction ps) (simp_all add: wire_parameters_def parameters_size_def wire_parameter_def)


lemma unat_ucast_u8_le: "unat (ucast (x :: u32) :: u8) \<le> unat x"
  by (simp add: unsigned_ucast_eq take_bit_eq_mod)

lemma offset_advance:
  assumes "unat (offset :: u8) \<le> k" and "k + unat n \<le> length v" and "length v < 2 ^ 32"
  shows "ucast offset + n \<le> size32 v" and "unat (ucast (ucast offset + n :: u32) :: u8) \<le> k + unat n"
proof -
  have u8: "unat offset < 2 ^ LENGTH(8)" by (rule unsigned_less)
  then have u: "unat (ucast offset :: u32) = unat offset"
    by (simp add: unsigned_ucast_eq take_bit_nat_eq_self_iff)
  have "unat (ucast offset + n) = unat offset + unat n"
    using assms u by (subst unat_add_no_wrap) simp_all
  then show "ucast offset + n \<le> size32 v" and
    "unat (ucast (ucast offset + n :: u32) :: u8) \<le> k + unat n"
    using assms unat_ucast_u8_le [of "ucast offset + n"]
    by (simp_all add: word_le_nat_alt unat_size32)
qed

lemma write_uint32_advance:
  assumes "unat offset \<le> k" and "k + 4 \<le> length v" and "length v < 2 ^ 32"
  shows "\<exists>offset'. writeuin32tor2cppacket v x (s\<lparr>serializingoffsetstack := offset # r\<rparr>) =
     (Ret (v @ be32 x), s\<lparr>serializingoffsetstack := offset' # r\<rparr>) \<and> unat offset' \<le> k + 4"
  using write_uint32_in [of "s\<lparr>serializingoffsetstack := offset # r\<rparr>" offset r v x]
    offset_advance [of offset k 4 v] assms
  by (intro exI [of _ "ucast (ucast offset + 4 :: u32)"]) simp

lemma write_bytes_advance:
  assumes "unat offset \<le> k" and "k + length w \<le> length v" and "length v < 2 ^ 32"
  shows "\<exists>offset'. writebytestor2cppacket v w (s\<lparr>serializingoffsetstack := offset # r\<rparr>) =
     (Ret (v @ w), s\<lparr>serializingoffsetstack := offset' # r\<rparr>) \<and> unat offset' \<le> k + length w"
  using write_bytes_in [of "s\<lparr>serializingoffsetstack := offset # r\<rparr>" offset r w v]
    offset_advance [of offset k "size32 w" v] assms unat_size32 [of w]
  by (intro exI [of _ "ucast (ucast offset + size32 w :: u32)"]) simp

lemma serialize_parameters_loop_eq:
  "unat offset \<le> k \<Longrightarrow> k + length (concat (map wire_parameter ps)) \<le> length v \<Longrightarrow>
   length v + length (concat (map wire_parameter ps)) < 2 ^ 32 \<Longrightarrow>
   \<exists>offset'. serialize_parameters_loop ps v (s\<lparr>serializingoffsetstack := offset # r\<rparr>) =
     (Ret (v @ concat (map wire_parameter ps)), s\<lparr>serializingoffsetstack := offset' # r\<rparr>)"
proof (induction ps arbitrary: offset k v)
  case Nil
  then show ?case by (auto simp: ret_def)
next
  case (Cons p ps)
  let ?d = "param_data p"
  let ?s = "\<lambda>offset. s\<lparr>serializingoffsetstack := offset # r\<rparr>"
  have lw: "length (wire_parameter p) = 8 + length ?d" by (rule length_wire_parameter)
  have fits: "k + 8 + length ?d \<le> length v" and small: "length v + 8 + length ?d < 2 ^ 32"
    using Cons.prems(2,3) lw by simp_all
  let ?v1 = "v @ be32 (param_code p)"
  let ?v2 = "?v1 @ be32 (size32 ?d)"
  have l1: "length ?v1 = length v + 4" and l2: "length ?v2 = length v + 8" by simp_all
  have b0: "k + 4 \<le> length v" "length v < 2 ^ 32" using fits small by linarith+
  have b1: "(k + 4) + 4 \<le> length ?v1" "length ?v1 < 2 ^ 32" using fits small l1 by linarith+
  have b2: "((k + 4) + 4) + length ?d \<le> length ?v2" "length ?v2 < 2 ^ 32" using fits small l2 by linarith+
  obtain o1 where w1: "writeuin32tor2cppacket v (param_code p) (?s offset) = (Ret ?v1, ?s o1)"
    and o1: "unat o1 \<le> k + 4"
    using write_uint32_advance [OF Cons.prems(1) b0] by blast
  obtain o2 where w2: "writeuin32tor2cppacket ?v1 (size32 ?d) (?s o1) = (Ret ?v2, ?s o2)"
    and o2: "unat o2 \<le> (k + 4) + 4"
    using write_uint32_advance [OF o1 b1] by blast
  obtain o3 where w3: "writebytestor2cppacket ?v2 ?d (?s o2) = (Ret (?v2 @ ?d), ?s o3)"
    and o3: "unat o3 \<le> (k + 4) + 4 + length ?d"
    using write_bytes_advance [OF o2 b2] by blast
  have "\<exists>offset'. serialize_parameters_loop ps (v @ wire_parameter p) (?s o3) =
     (Ret ((v @ wire_parameter p) @ concat (map wire_parameter ps)), ?s offset')"
    by (rule Cons.IH [OF o3]) (use Cons.prems(2,3) lw in \<open>simp_all del: append_assoc\<close>)
  then show ?case
    using w1 w2 w3 by (simp add: getter_defs bindM_def wire_parameter_def [of p])
qed

lemma length_concat_wire_parameters:
  "length (concat (map wire_parameter ps)) = parameters_size ps - 4"
  using length_wire_parameters_size [of ps] by (simp add: wire_parameters_def)

lemma serializeparameterizedcommandcontent_eq:
  assumes "2 * parameters_size ps < 2 ^ 32"
  shows "serializeparameterizedcommandcontent ps s =
    (Ret (replicate (parameters_size ps) 0 @ concat (map wire_parameter ps)), s)"
proof -
  let ?s = "\<lambda>offset. s\<lparr>serializingoffsetstack := offset # serializingoffsetstack s\<rparr>"
  let ?v = "replicate (parameters_size ps) (0 :: u8)"
  have n: "unat (precomputecommandcontentsize ps) = parameters_size ps"
    using assms by (simp only: precomputecommandcontentsize_eq, intro unat_word_of_nat32) simp
  have "\<exists>o1. serialize_parameters_loop ps ?v (?s 0) =
      (Ret (?v @ concat (map wire_parameter ps)), ?s o1)"
    by (rule serialize_parameters_loop_eq [where k = 0 and offset = 0 and s = s])
      (use assms in \<open>simp_all add: length_concat_wire_parameters\<close>)
  then obtain o1 where "serialize_parameters_loop ps ?v (?s 0) =
      (Ret (?v @ concat (map wire_parameter ps)), ?s o1)" ..
  moreover have "soffset_push 0 s = (Ret (), ?s 0)"
    by (cases s) (simp add: soffset_push_def modifyM_def)
  moreover have "soffset_pop (?s o1) = (Ret (), s)"
    by (cases s) (simp add: soffset_pop_def)
  ultimately show ?thesis
    by (simp add: serializeparameterizedcommandcontent_def bindM_def ret_def n)
qed

subsection \<open>The precomputed size is the size on the wire\<close>

lemma precompute_commands_loop_eq:
  "precompute_commands_loop cs n = n + (\<Sum>c\<leftarrow>cs. precompute_command_step c)"
  by (induction cs arbitrary: n) (simp_all add: add.assoc)

text \<open>A parameterised command with no parameters is the one the size computation gets wrong.\<close>

definition serializable :: "r2cpcommand \<Rightarrow> bool" where
  "serializable c \<longleftrightarrow> wf_command c \<and> length (cmd_params c) < 2 ^ 32 \<and>
     (getcommandcontenttype rcd (cmd_code c) = PARAMETERIZEDCONTENT \<longrightarrow> cmd_params c \<noteq> [])"

lemma wire_parameters_size32: "size32 (wire_parameters ps) = precomputecommandcontentsize ps"
  by (simp add: size32_def length_wire_parameters_size precomputecommandcontentsize_eq)

lemma accepted_code_not_direct:
  "getcommandcontenttype rcd c = PARAMETERIZEDCONTENT \<Longrightarrow> NOPARAMETERS \<notin> getcommandparameters rcd c"
  by (auto simp: contenttype_eq parameters_eq NOPARAMETERS_def split: if_splits)

lemma precompute_command_step_eq:
  assumes "serializable c"
  shows "precompute_command_step c = size32 (wire_content c)"
proof -
  have count: "0 < size32 (cmd_params c) \<longleftrightarrow> cmd_params c \<noteq> []"
    using assms by (simp add: serializable_def size32_pos_iff)
  from contenttype_cases [of "cmd_code c"] show ?thesis
  proof (elim disjE)
    assume "getcommandcontenttype rcd (cmd_code c) = PARAMETERIZEDCONTENT"
    moreover from this have "cmd_params c \<noteq> []" and
      "\<forall>p \<in> set (cmd_params c). param_code p \<noteq> NOPARAMETERS"
      using assms accepted_code_not_direct [of "cmd_code c"]
      by (auto simp: serializable_def wf_command_def)
    ultimately show ?thesis using count
      by (auto simp: precompute_command_step_def getter_defs wire_content_def
          wire_parameters_size32 split: list.splits)
  qed (use assms count in \<open>auto simp: serializable_def wf_command_def precompute_command_step_def
      getter_defs wire_content_def size32_Cons split: list.splits\<close>)
qed

lemma precomputer2cppacketsize_eq:
  assumes "\<forall>c \<in> set cs. serializable c"
  shows "precomputer2cppacketsize cs = size32 (wire_commands cs)"
proof -
  have "(\<Sum>c\<leftarrow>cs. precompute_command_step c) + size32 cs * 8 = size32 (concat (map wire_command cs))"
    using assms
    by (induction cs) (simp_all add: precompute_command_step_eq size32_append size32_Cons
        wire_command_def algebra_simps, simp_all add: size32_def)
  then show ?thesis
    by (simp add: precomputer2cppacketsize_def precompute_commands_loop_eq wire_commands_def
        size32_append algebra_simps) (simp add: size32_def)
qed

end
