(* ===== verification/R2CPTransceiverQueue.thy ===== *)
theory R2CPTransceiverQueue
  imports R2CP_Prelude
begin

text \<open>
  \<open>R2CPTransceiverQueue.hpp\<close> and \<open>R2CPTransceiverQueue.cpp\<close>: the queues of received and of
  outgoing packets, each with the number of bytes it holds and the largest number it may hold.
  A push reads the byte count under the queue's mutex, releases it, compares with the maximum
  and takes the mutex again to append; a pop does the same with the number of packets. The
  sections between taking and releasing the mutex are the \<open>_section\<close> definitions; executed
  without interruption they give the operations, and interleaved they give \<open>queue_step\<close>.
\<close>

subsection \<open>State and operations\<close>

definition DEFAULTMAXQUEUESIZE :: u32 where "DEFAULTMAXQUEUESIZE = 16777216"

record transceiver_queue =
  receptionqueue :: "bytes list"
  transmissionqueue :: "bytes list"
  maxreceptionqueuesize :: u32
  maxtransmissionqueuesize :: u32
  receptionqueuesize :: u32
  transmissionqueuesize :: u32

definition R2CPTransceiverQueue_init :: transceiver_queue where
  "R2CPTransceiverQueue_init = \<lparr>receptionqueue = [], transmissionqueue = [],
     maxreceptionqueuesize = DEFAULTMAXQUEUESIZE, maxtransmissionqueuesize = DEFAULTMAXQUEUESIZE,
     receptionqueuesize = 0, transmissionqueuesize = 0\<rparr>"

definition getreceptionqueuesize :: "(transceiver_queue, u32) prog" where
  "getreceptionqueuesize = getM receptionqueuesize"

definition gettransmissionqueuesize :: "(transceiver_queue, u32) prog" where
  "gettransmissionqueuesize = getM transmissionqueuesize"

definition getreceptionqueuer2cppacketscount :: "(transceiver_queue, u32) prog" where
  "getreceptionqueuer2cppacketscount = getM (\<lambda>s. size32 (receptionqueue s))"

definition gettransmissionqueuer2cppacketscount :: "(transceiver_queue, u32) prog" where
  "gettransmissionqueuer2cppacketscount = getM (\<lambda>s. size32 (transmissionqueue s))"

definition push_reception_section :: "bytes \<Rightarrow> (transceiver_queue, unit) prog" where
  "push_reception_section r2cppacket = modifyM (\<lambda>s. s\<lparr>
     receptionqueue := receptionqueue s @ [r2cppacket],
     receptionqueuesize := receptionqueuesize s + size32 r2cppacket\<rparr>)"

definition pushtoreceptionqueue :: "bytes \<Rightarrow> (transceiver_queue, unit) prog" where
  "pushtoreceptionqueue r2cppacket =
     bindM getreceptionqueuesize (\<lambda>n.
     bindM (getM maxreceptionqueuesize) (\<lambda>mx.
     if n + size32 r2cppacket \<le> mx then push_reception_section r2cppacket
     else throwM (Exn OverflowError ''Out of memory in reception queue.'')))"

definition push_transmission_section :: "bytes \<Rightarrow> (transceiver_queue, unit) prog" where
  "push_transmission_section r2cppacket = modifyM (\<lambda>s. s\<lparr>
     transmissionqueue := transmissionqueue s @ [r2cppacket],
     transmissionqueuesize := transmissionqueuesize s + size32 r2cppacket\<rparr>)"

definition pushtotransmissionqueue :: "bytes \<Rightarrow> (transceiver_queue, unit) prog" where
  "pushtotransmissionqueue r2cppacket =
     bindM gettransmissionqueuesize (\<lambda>n.
     bindM (getM maxtransmissionqueuesize) (\<lambda>mx.
     if n + size32 r2cppacket \<le> mx then push_transmission_section r2cppacket
     else throwM (Exn OverflowError ''Out of memory in transmission queue.'')))"

definition pop_reception_section :: "(transceiver_queue, bytes) prog" where
  "pop_reception_section =
     bindM (getM receptionqueue) (\<lambda>q.
     bindM (liftO (vec_at q 0)) (\<lambda>r2cppacket.
     bindM (modifyM (\<lambda>s. s\<lparr>receptionqueue := drop 1 (receptionqueue s),
       receptionqueuesize := receptionqueuesize s - size32 r2cppacket\<rparr>)) (\<lambda>_.
     ret r2cppacket)))"

definition popfromreceptionqueue :: "(transceiver_queue, bytes) prog" where
  "popfromreceptionqueue =
     bindM getreceptionqueuer2cppacketscount (\<lambda>n.
     if n > 0 then pop_reception_section
     else throwM (Exn UnderflowError ''Reception queue has no R2CP packets to pop.''))"

definition pop_transmission_section :: "(transceiver_queue, bytes) prog" where
  "pop_transmission_section =
     bindM (getM transmissionqueue) (\<lambda>q.
     bindM (liftO (vec_at q 0)) (\<lambda>r2cppacket.
     bindM (modifyM (\<lambda>s. s\<lparr>transmissionqueue := drop 1 (transmissionqueue s),
       transmissionqueuesize := transmissionqueuesize s - size32 r2cppacket\<rparr>)) (\<lambda>_.
     ret r2cppacket)))"

definition popfromtransmissionqueue :: "(transceiver_queue, bytes) prog" where
  "popfromtransmissionqueue =
     bindM gettransmissionqueuer2cppacketscount (\<lambda>n.
     if n > 0 then pop_transmission_section
     else throwM (Exn UnderflowError ''Transmission queue has no R2CP packets to pop.''))"

definition setmaxqueuesize :: "u32 \<Rightarrow> u32 \<Rightarrow> (transceiver_queue, unit) prog" where
  "setmaxqueuesize newmaxreceptionqueuesize newmaxtransmissionqueuesize = modifyM (\<lambda>s. s\<lparr>
     maxreceptionqueuesize := newmaxreceptionqueuesize,
     maxtransmissionqueuesize := newmaxtransmissionqueuesize\<rparr>)"

definition setmaxreceptionqueuesize :: "u32 \<Rightarrow> (transceiver_queue, unit) prog" where
  "setmaxreceptionqueuesize newmaxreceptionqueuesize =
     modifyM (maxreceptionqueuesize_update (\<lambda>_. newmaxreceptionqueuesize))"

definition setmaxtransmissionqueuesize :: "u32 \<Rightarrow> (transceiver_queue, unit) prog" where
  "setmaxtransmissionqueuesize newmaxtransmissionqueuesize =
     modifyM (maxtransmissionqueuesize_update (\<lambda>_. newmaxtransmissionqueuesize))"

subsection \<open>Threads\<close>

text \<open>
  A producer is outside a push or between its two sections, with the packet that passed the
  check; a consumer likewise, or dead of an exception that left its second section. The
  configuration also records the packets pushed and popped so far. The parameters of the
  relation are the sections and counters of one of the two queues, and the packets that may
  be offered.
\<close>

datatype producer = Producing | Checked bytes
datatype consumer = Consuming | Found | Crashed exn

record 's queue_config =
  shared :: 's
  producers :: "producer list"
  consumers :: "consumer list"
  pushed :: "bytes list"
  popped :: "bytes list"

inductive queue_step :: "('s \<Rightarrow> bytes list) \<Rightarrow> ('s \<Rightarrow> u32) \<Rightarrow> ('s \<Rightarrow> u32) \<Rightarrow>
    (bytes \<Rightarrow> ('s, unit) prog) \<Rightarrow> ('s, bytes) prog \<Rightarrow> bytes set \<Rightarrow>
    's queue_config \<Rightarrow> 's queue_config \<Rightarrow> bool"
  for contents bytecount maxcount push_section pop_section offered where
  push_check: "i < length (producers c) \<Longrightarrow> producers c ! i = Producing \<Longrightarrow> p \<in> offered \<Longrightarrow>
    bytecount (shared c) + size32 p \<le> maxcount (shared c) \<Longrightarrow>
    queue_step contents bytecount maxcount push_section pop_section offered c
      (c\<lparr>producers := (producers c)[i := Checked p]\<rparr>)"
| push_append: "i < length (producers c) \<Longrightarrow> producers c ! i = Checked p \<Longrightarrow>
    push_section p (shared c) = (Ret (), s') \<Longrightarrow>
    queue_step contents bytecount maxcount push_section pop_section offered c
      (c\<lparr>shared := s', producers := (producers c)[i := Producing], pushed := pushed c @ [p]\<rparr>)"
| pop_check: "i < length (consumers c) \<Longrightarrow> consumers c ! i = Consuming \<Longrightarrow>
    size32 (contents (shared c)) > 0 \<Longrightarrow>
    queue_step contents bytecount maxcount push_section pop_section offered c
      (c\<lparr>consumers := (consumers c)[i := Found]\<rparr>)"
| pop_take: "i < length (consumers c) \<Longrightarrow> consumers c ! i = Found \<Longrightarrow>
    pop_section (shared c) = (Ret p, s') \<Longrightarrow>
    queue_step contents bytecount maxcount push_section pop_section offered c
      (c\<lparr>shared := s', consumers := (consumers c)[i := Consuming], popped := popped c @ [p]\<rparr>)"
| pop_crash: "i < length (consumers c) \<Longrightarrow> consumers c ! i = Found \<Longrightarrow>
    pop_section (shared c) = (Throw e, s') \<Longrightarrow>
    queue_step contents bytecount maxcount push_section pop_section offered c
      (c\<lparr>shared := s', consumers := (consumers c)[i := Crashed e]\<rparr>)"

inductive_cases queue_stepE: "queue_step contents bytecount maxcount push_section pop_section offered c c'"

definition start_config :: "'s \<Rightarrow> nat \<Rightarrow> nat \<Rightarrow> 's queue_config" where
  "start_config s np nc = \<lparr>shared = s, producers = replicate np Producing,
     consumers = replicate nc Consuming, pushed = [], popped = []\<rparr>"

subsection \<open>The interface of one queue\<close>

fun push_all :: "(bytes \<Rightarrow> ('s, unit) prog) \<Rightarrow> bytes list \<Rightarrow> ('s, unit) prog" where
  "push_all push [] = ret ()"
| "push_all push (p # ps) = bindM (push p) (\<lambda>_. push_all push ps)"

fun pop_n :: "('s, bytes) prog \<Rightarrow> nat \<Rightarrow> ('s, bytes list) prog" where
  "pop_n pop 0 = ret []"
| "pop_n pop (Suc n) = bindM pop (\<lambda>p. bindM (pop_n pop n) (\<lambda>ps. ret (p # ps)))"

definition total_bytes :: "bytes list \<Rightarrow> nat" where
  "total_bytes ps = (\<Sum>p\<leftarrow>ps. length p)"

lemma total_bytes_simps [simp]:
  "total_bytes [] = 0" "total_bytes (p # ps) = length p + total_bytes ps"
  "total_bytes (ps @ qs) = total_bytes ps + total_bytes qs"
  by (simp_all add: total_bytes_def)

locale packet_queue =
  fixes contents :: "'s \<Rightarrow> bytes list" and bytecount :: "'s \<Rightarrow> u32" and maxcount :: "'s \<Rightarrow> u32"
    and push_section push :: "bytes \<Rightarrow> ('s, unit) prog" and pop_section pop :: "('s, bytes) prog"
    and full empty :: exn
  assumes push_section: "\<exists>t. push_section p s = (Ret (), t) \<and> contents t = contents s @ [p] \<and>
      bytecount t = bytecount s + size32 p \<and> maxcount t = maxcount s"
    and pop_section_Cons: "contents s = p # ps \<Longrightarrow> \<exists>t. pop_section s = (Ret p, t) \<and>
      contents t = ps \<and> bytecount t = bytecount s - size32 p \<and> maxcount t = maxcount s"
    and pop_section_Nil: "contents s = [] \<Longrightarrow> pop_section s = (Throw (Exn OutOfRange (range_check_what 0 0)), s)"
    and push_eq: "push p s =
      (if bytecount s + size32 p \<le> maxcount s then push_section p s else (Throw full, s))"
    and pop_eq: "pop s = (if size32 (contents s) > 0 then pop_section s else (Throw empty, s))"
begin

definition counted :: "'s \<Rightarrow> bool" where
  "counted s \<longleftrightarrow> bytecount s = word_of_nat (total_bytes (contents s))"

lemma counted_push_section: "push_section p s = (r, t) \<Longrightarrow> counted s \<Longrightarrow> counted t"
  using push_section [of p s] by (auto simp: counted_def size32_def)

lemma counted_pop_section: "pop_section s = (r, t) \<Longrightarrow> counted s \<Longrightarrow> counted t"
  using pop_section_Nil [of s] pop_section_Cons [of s]
  by (cases "contents s") (fastforce simp: counted_def size32_def)+

lemma counted_push: "push p s = (r, t) \<Longrightarrow> counted s \<Longrightarrow> counted t"
  by (auto simp: push_eq counted_push_section split: if_splits)

lemma counted_pop: "pop s = (r, t) \<Longrightarrow> counted s \<Longrightarrow> counted t"
  by (auto simp: pop_eq counted_pop_section split: if_splits)

lemma fits_iff:
  assumes "counted s" and "total_bytes (contents s) + length p < 2 ^ 32"
  shows "bytecount s + size32 p \<le> maxcount s \<longleftrightarrow> total_bytes (contents s) + length p \<le> unat (maxcount s)"
proof -
  have "bytecount s + size32 p = word_of_nat (total_bytes (contents s) + length p)"
    using assms(1) by (simp add: counted_def size32_def)
  then show ?thesis
    by (simp add: word_le_nat_alt unat_word_of_nat32 [OF assms(2)] del: of_nat_add)
qed

lemma push_result:
  assumes "counted s" and "total_bytes (contents s) + length p < 2 ^ 32"
  shows "if total_bytes (contents s) + length p \<le> unat (maxcount s)
    then \<exists>t. push p s = (Ret (), t) \<and> contents t = contents s @ [p] \<and> counted t \<and> maxcount t = maxcount s
    else push p s = (Throw full, s)"
  using fits_iff [OF assms] push_section [of p s] counted_push_section [of p s] assms(1)
  by (auto simp: push_eq)

lemma pop_result:
  assumes "counted s" and "length (contents s) < 2 ^ 32"
  shows "case contents s of [] \<Rightarrow> pop s = (Throw empty, s)
    | p # ps \<Rightarrow> \<exists>t. pop s = (Ret p, t) \<and> contents t = ps \<and> counted t \<and> maxcount t = maxcount s"
  using assms size32_pos_iff [OF assms(2)] pop_section_Cons [of s] counted_pop_section [of s]
  by (auto simp: pop_eq split: list.splits)

lemma push_all_result:
  "counted s \<Longrightarrow> total_bytes (contents s) + total_bytes ps \<le> unat (maxcount s) \<Longrightarrow>
   \<exists>t. push_all push ps s = (Ret (), t) \<and> contents t = contents s @ ps \<and> counted t"
proof (induction ps arbitrary: s)
  case Nil
  then show ?case by (simp add: ret_def)
next
  case (Cons p ps)
  have "total_bytes (contents s) + length p < 2 ^ 32"
    using Cons.prems(2) unat_u32_bound [of "maxcount s"] by simp
  then obtain t where t: "push p s = (Ret (), t)" "contents t = contents s @ [p]" "counted t"
      "maxcount t = maxcount s"
    using push_result [OF Cons.prems(1), of p] Cons.prems(2) by auto
  then obtain u where "push_all push ps t = (Ret (), u)" "contents u = contents t @ ps" "counted u"
    using Cons.IH [of t] Cons.prems(2) by auto
  with t show ?case by (simp add: bindM_def)
qed

lemma pop_n_result:
  "counted s \<Longrightarrow> contents s = ps @ qs \<Longrightarrow> length (ps @ qs) < 2 ^ 32 \<Longrightarrow>
   \<exists>t. pop_n pop (length ps) s = (Ret ps, t) \<and> contents t = qs \<and> counted t"
proof (induction ps arbitrary: s)
  case Nil
  then show ?case by (simp add: ret_def)
next
  case (Cons p ps)
  then obtain t where t: "pop s = (Ret p, t)" "contents t = ps @ qs" "counted t"
    using pop_result [of s] by auto
  with Cons.IH [of t] Cons.prems(3) show ?case by (auto simp: bindM_def ret_def)
qed

lemma first_in_first_out:
  assumes "counted s" and "contents s = []" and "total_bytes ps \<le> unat (maxcount s)"
    and "length ps < 2 ^ 32"
  shows "\<exists>t. bindM (push_all push ps) (\<lambda>_. pop_n pop (length ps)) s = (Ret ps, t) \<and> contents t = []"
  using push_all_result [OF assms(1)] pop_n_result [of _ ps "[]"] assms by (fastforce simp: bindM_def)

text \<open>Whatever the number of threads, packets leave in the order they entered.\<close>

definition in_order :: "'s queue_config \<Rightarrow> bool" where
  "in_order c \<longleftrightarrow> popped c @ contents (shared c) = pushed c \<and> counted (shared c)"

lemma in_order_step:
  assumes inv: "in_order c"
    and step: "queue_step contents bytecount maxcount push_section pop_section offered c c'"
  shows "in_order c'"
  using step
proof (cases rule: queue_step.cases)
  case (push_append i p s')
  then show ?thesis
    using inv push_section [of p "shared c"] counted_push_section [of p "shared c"]
    by (auto simp: in_order_def)
next
  case (pop_take i p s')
  then show ?thesis
    using inv pop_section_Cons [of "shared c"] pop_section_Nil [of "shared c"]
      counted_pop_section [of "shared c"]
    by (cases "contents (shared c)") (auto simp: in_order_def)
next
  case (pop_crash i e s')
  then show ?thesis
    using inv pop_section_Cons [of "shared c"] pop_section_Nil [of "shared c"]
    by (cases "contents (shared c)") (auto simp: in_order_def)
qed (use inv in \<open>simp_all add: in_order_def\<close>)

text \<open>With one producer and one consumer the maximum is respected and no thread dies.\<close>

definition one_to_one :: "u32 \<Rightarrow> 's queue_config \<Rightarrow> bool" where
  "one_to_one mx c \<longleftrightarrow> counted (shared c) \<and> maxcount (shared c) = mx \<and>
     total_bytes (contents (shared c)) \<le> unat mx \<and>
     (producers c = [Producing] \<or>
      (\<exists>p. producers c = [Checked p] \<and> total_bytes (contents (shared c)) + length p \<le> unat mx)) \<and>
     (consumers c = [Consuming] \<or> consumers c = [Found] \<and> contents (shared c) \<noteq> [])"

lemma one_to_one_step:
  assumes offered: "\<And>p. p \<in> offered \<Longrightarrow> length p + unat mx < 2 ^ 32"
    and inv: "one_to_one mx c"
    and step: "queue_step contents bytecount maxcount push_section pop_section offered c c'"
  shows "one_to_one mx c'"
  using step
proof (cases rule: queue_step.cases)
  case (push_check i p)
  have "total_bytes (contents (shared c)) + length p < 2 ^ 32"
    using offered [OF push_check(4)] inv by (simp add: one_to_one_def)
  then show ?thesis
    using push_check inv fits_iff [of "shared c" p] by (auto simp: one_to_one_def)
next
  case (push_append i p s')
  then show ?thesis
    using inv push_section [of p "shared c"] counted_push_section [of p "shared c"]
    by (auto simp: one_to_one_def)
next
  case (pop_check i)
  then show ?thesis using inv by (auto simp: one_to_one_def)
next
  case (pop_take i p s')
  then show ?thesis
    using inv pop_section_Cons [of "shared c"] counted_pop_section [of "shared c"]
    by (cases "contents (shared c)") (auto simp: one_to_one_def)
next
  case (pop_crash i e s')
  then show ?thesis
    using inv pop_section_Cons [of "shared c"]
    by (cases "contents (shared c)") (auto simp: one_to_one_def)
qed

lemma start_in_order: "contents s = [] \<Longrightarrow> bytecount s = 0 \<Longrightarrow> in_order (start_config s np nc)"
  by (simp add: in_order_def start_config_def counted_def)

lemma start_one_to_one:
  "contents s = [] \<Longrightarrow> bytecount s = 0 \<Longrightarrow> one_to_one (maxcount s) (start_config s 1 1)"
  by (simp add: one_to_one_def start_config_def counted_def)

end

sublocale packet_queue \<subseteq> order: invariant
  "\<lambda>c. in_order c" "queue_step contents bytecount maxcount push_section pop_section offered" in_order
  for offered
  by unfold_locales (auto intro: in_order_step)

locale bounded_offers = packet_queue +
  fixes offered :: "bytes set" and mx :: u32
  assumes small_offers: "p \<in> offered \<Longrightarrow> length p + unat mx < 2 ^ 32"

sublocale bounded_offers \<subseteq> pair: invariant
  "one_to_one mx" "queue_step contents bytecount maxcount push_section pop_section offered"
  "one_to_one mx"
  by unfold_locales (auto intro: one_to_one_step small_offers)

subsection \<open>The two queues\<close>

definition reception_step :: "bytes set \<Rightarrow> transceiver_queue queue_config \<Rightarrow> transceiver_queue queue_config \<Rightarrow> bool" where
  "reception_step = queue_step receptionqueue receptionqueuesize maxreceptionqueuesize
     push_reception_section pop_reception_section"

definition transmission_step :: "bytes set \<Rightarrow> transceiver_queue queue_config \<Rightarrow> transceiver_queue queue_config \<Rightarrow> bool" where
  "transmission_step = queue_step transmissionqueue transmissionqueuesize maxtransmissionqueuesize
     push_transmission_section pop_transmission_section"

lemmas queue_defs = getreceptionqueuesize_def gettransmissionqueuesize_def
  getreceptionqueuer2cppacketscount_def gettransmissionqueuer2cppacketscount_def
  push_reception_section_def push_transmission_section_def pop_reception_section_def
  pop_transmission_section_def pushtoreceptionqueue_def pushtotransmissionqueue_def
  popfromreceptionqueue_def popfromtransmissionqueue_def

interpretation reception: packet_queue receptionqueue receptionqueuesize maxreceptionqueuesize
  push_reception_section pushtoreceptionqueue pop_reception_section popfromreceptionqueue
  "Exn OverflowError ''Out of memory in reception queue.''"
  "Exn UnderflowError ''Reception queue has no R2CP packets to pop.''"
  by unfold_locales (auto simp: queue_defs modifyM_def getM_def liftO_def ret_def throwM_def bindM_def vec_at_def)

interpretation transmission: packet_queue transmissionqueue transmissionqueuesize maxtransmissionqueuesize
  push_transmission_section pushtotransmissionqueue pop_transmission_section popfromtransmissionqueue
  "Exn OverflowError ''Out of memory in transmission queue.''"
  "Exn UnderflowError ''Transmission queue has no R2CP packets to pop.''"
  by unfold_locales (auto simp: queue_defs modifyM_def getM_def liftO_def ret_def throwM_def bindM_def vec_at_def)

text \<open>Packets a peer may offer to a queue of the default size without wrapping its counter.\<close>

definition offers :: "bytes set" where
  "offers = {p. length p < 2 ^ 31}"

interpretation reception_pair: bounded_offers receptionqueue receptionqueuesize maxreceptionqueuesize
  push_reception_section pushtoreceptionqueue pop_reception_section popfromreceptionqueue
  "Exn OverflowError ''Out of memory in reception queue.''"
  "Exn UnderflowError ''Reception queue has no R2CP packets to pop.''" offers DEFAULTMAXQUEUESIZE
  by unfold_locales (simp add: offers_def DEFAULTMAXQUEUESIZE_def)

interpretation transmission_pair: bounded_offers transmissionqueue transmissionqueuesize maxtransmissionqueuesize
  push_transmission_section pushtotransmissionqueue pop_transmission_section popfromtransmissionqueue
  "Exn OverflowError ''Out of memory in transmission queue.''"
  "Exn UnderflowError ''Transmission queue has no R2CP packets to pop.''" offers DEFAULTMAXQUEUESIZE
  by unfold_locales (simp add: offers_def DEFAULTMAXQUEUESIZE_def)

lemma reachable_mono:
  assumes "reachable init step c" and "\<And>c. init c \<Longrightarrow> init' c"
  shows "reachable init' step c"
  using assms(1) by induction (auto intro: reachable.intros assms(2))

end
