(* ===== verification/R2CPPacketProcessor.thy ===== *)
theory R2CPPacketProcessor
  imports R2CPSerializer R2CPTransceiverQueue
begin

text \<open>
  \<open>R2CPPacketProcessor.hpp\<close> and \<open>R2CPPacketProcessor.cpp\<close>: the registry of robot modules and
  the task that pops a packet, parses it, lets the modules react and queues their response.

  A robot module is the address of an object of a class the user of the library derives from
  \<open>IR2CPRobotModule\<close>. The two virtual functions are parameters of the model: they run on the
  state \<open>'w\<close> of the modules and may return, throw or misbehave. \<open>std::map\<close> and \<open>std::set\<close> are
  the ordered list of their entries, so that iteration has the order of the source.
\<close>

subsection \<open>State\<close>

type_synonym robot_module = nat

record 'w robot_modules =
  evaluatereactive :: "robot_module \<Rightarrow> r2cpcommand \<Rightarrow> ('w, r2cpcommand list) prog"
  evaluateactive :: "robot_module \<Rightarrow> ('w, r2cpcommand list) prog"

record 'w processor =
  robotmodulesmap :: "(u32 \<times> robot_module) list"
  robotmodulesset :: "robot_module list"
  isrunning :: bool
  polltimeoutinmilliseconds :: u32
  packetprocessorthread :: thread_ptr
  transceiverqueue :: transceiver_queue
  processorlog :: "log_call list"
  modulestate :: 'w

definition DEFAULTPOLLTIMEOUTINMILLISECONDS :: u32 where "DEFAULTPOLLTIMEOUTINMILLISECONDS = 10"

definition R2CPPacketProcessor_init_timeout :: "u32 \<Rightarrow> transceiver_queue \<Rightarrow> 'w \<Rightarrow> 'w processor" where
  "R2CPPacketProcessor_init_timeout timeout q w = \<lparr>robotmodulesmap = [], robotmodulesset = [],
     isrunning = False, polltimeoutinmilliseconds = timeout,
     packetprocessorthread = Uninitialised, transceiverqueue = q, processorlog = [], modulestate = w\<rparr>"

definition R2CPPacketProcessor_init :: "transceiver_queue \<Rightarrow> 'w \<Rightarrow> 'w processor" where
  "R2CPPacketProcessor_init = R2CPPacketProcessor_init_timeout DEFAULTPOLLTIMEOUTINMILLISECONDS"

definition onqueue :: "(transceiver_queue, 'a) prog \<Rightarrow> ('w processor, 'a) prog" where
  "onqueue = zoomM transceiverqueue (\<lambda>q. transceiverqueue_update (\<lambda>_. q))"

definition onmodules :: "('w, 'a) prog \<Rightarrow> ('w processor, 'a) prog" where
  "onmodules = zoomM modulestate (\<lambda>w. modulestate_update (\<lambda>_. w))"

subsection \<open>Ordered containers\<close>

fun ordered_insert :: "'a :: linorder \<Rightarrow> 'a list \<Rightarrow> 'a list" where
  "ordered_insert x [] = [x]"
| "ordered_insert x (y # ys) = (if x < y then x # y # ys else if x = y then y # ys else y # ordered_insert x ys)"

fun ordered_update :: "'k :: linorder \<Rightarrow> 'v \<Rightarrow> ('k \<times> 'v) list \<Rightarrow> ('k \<times> 'v) list" where
  "ordered_update k v [] = [(k, v)]"
| "ordered_update k v ((k', v') # es) =
     (if k < k' then (k, v) # (k', v') # es
      else if k = k' then (k, v) # es
      else (k', v') # ordered_update k v es)"

definition erase_key :: "'k \<Rightarrow> ('k \<times> 'v) list \<Rightarrow> ('k \<times> 'v) list" where
  "erase_key k es = filter (\<lambda>e. fst e \<noteq> k) es"

definition map_at :: "('k \<times> 'v) list \<Rightarrow> 'k \<Rightarrow> 'v outcome" where
  "map_at es k = (case map_of es k of Some v \<Rightarrow> Ret v | None \<Rightarrow> Throw (Exn OutOfRange ''map::at''))"

subsection \<open>Registering\<close>

definition registerrobotmodule_code :: "u32 \<Rightarrow> robot_module \<Rightarrow> ('w processor, unit) prog" where
  "registerrobotmodule_code reactcommandcode robotmodule =
     bindM (getM robotmodulesmap) (\<lambda>m.
     if map_of m reactcommandcode = None then
       modifyM (\<lambda>s. s\<lparr>robotmodulesset := ordered_insert robotmodule (robotmodulesset s),
         robotmodulesmap := ordered_update reactcommandcode robotmodule m\<rparr>)
     else
       bindM (liftO (convertformattostring
           ''Robot module not registered. There is already registered robot module to reaction code %u.''
           [FUint reactcommandcode])) (\<lambda>s.
       logs processorlog_update LOGSEVERITYWARNING s))"

definition registerrobotmodule :: "robot_module \<Rightarrow> ('w processor, unit) prog" where
  "registerrobotmodule robotmodule =
     modifyM (\<lambda>s. s\<lparr>robotmodulesset := ordered_insert robotmodule (robotmodulesset s)\<rparr>)"

text \<open>
  \<open>erase\<close> of the entry the loop's iterator points to invalidates it, and the loop then
  increments it: undefined behaviour as soon as one entry matches.
\<close>

fun unregister_loop :: "robot_module \<Rightarrow> (u32 \<times> robot_module) list \<Rightarrow> unit outcome" where
  "unregister_loop robotmodule [] = Ret ()"
| "unregister_loop robotmodule ((reactcommandcode, registeredrobotmodule) # it) =
     (if robotmodule = registeredrobotmodule then Undefined else unregister_loop robotmodule it)"

definition unregisterrobotmodule :: "robot_module \<Rightarrow> ('w processor, unit) prog" where
  "unregisterrobotmodule robotmodule =
     bindM (getM robotmodulesmap) (\<lambda>m.
     bindM (liftO (unregister_loop robotmodule m)) (\<lambda>_.
     modifyM (\<lambda>s. s\<lparr>robotmodulesset := removeAll robotmodule (robotmodulesset s)\<rparr>)))"

definition unregisterrobotmodule_code :: "u32 \<Rightarrow> ('w processor, unit) prog" where
  "unregisterrobotmodule_code reactcommandcode =
     catchM
       (bindM (getM robotmodulesmap) (\<lambda>m.
        bindM (liftO (map_at m reactcommandcode)) (\<lambda>registeredrobotmodule.
        modifyM (\<lambda>s. s\<lparr>robotmodulesmap := erase_key reactcommandcode m,
          robotmodulesset := removeAll registeredrobotmodule (robotmodulesset s)\<rparr>))))
       OutOfRange
       (\<lambda>e. logf processorlog_update LOGSEVERITYWARNING
          ''Robot module cannot be unregistered, because it has not even been registered.'' [])"

definition unregisterallrobotmodules :: "('w processor, unit) prog" where
  "unregisterallrobotmodules = modifyM (\<lambda>s. s\<lparr>robotmodulesmap := [], robotmodulesset := []\<rparr>)"

subsection \<open>One round of processing\<close>

fun react_loop :: "'w robot_modules \<Rightarrow> r2cpcommand list \<Rightarrow> r2cpcommand list
    \<Rightarrow> ('w processor, r2cpcommand list) prog" where
  "react_loop mods [] responsecommands = ret responsecommands"
| "react_loop mods (it # r2cpcommands) responsecommands =
     bindM (catchM
       (bindM (getM robotmodulesmap) (\<lambda>m.
        bindM (liftO (map_at m (getcommandcode it))) (\<lambda>robotmodule.
        bindM (onmodules (evaluatereactive mods robotmodule it)) (\<lambda>reactiveresponsecommands.
        ret (if size32 reactiveresponsecommands > 0
             then responsecommands @ reactiveresponsecommands else responsecommands)))))
       OutOfRange
       (\<lambda>e. bindM (liftO (convertformattostring
              ''No robot modules assigned to command code %u. Ignoring the command code.''
              [FUint (getcommandcode it)])) (\<lambda>s.
            bindM (logs processorlog_update LOGSEVERITYWARNING s) (\<lambda>_. ret responsecommands))))
     (\<lambda>responsecommands'. react_loop mods r2cpcommands responsecommands')"

fun active_loop :: "'w robot_modules \<Rightarrow> robot_module list \<Rightarrow> r2cpcommand list
    \<Rightarrow> ('w processor, r2cpcommand list) prog" where
  "active_loop mods [] responsecommands = ret responsecommands"
| "active_loop mods (it # robotmodules) responsecommands =
     bindM (onmodules (evaluateactive mods it)) (\<lambda>activeresultcommands.
     active_loop mods robotmodules
       (if size32 activeresultcommands > 0
        then responsecommands @ activeresultcommands else responsecommands))"

text \<open>The parser and the serializer are local objects, new for every packet.\<close>

definition parse_with_new_parser :: "bytes \<Rightarrow> ('w processor, r2cpcommand list) prog" where
  "parse_with_new_parser r2cppacket = (\<lambda>s. case parser2cppacket r2cppacket R2CPParser_init of
     (r, parser) \<Rightarrow> (r, s\<lparr>processorlog := processorlog s @ parserlog parser\<rparr>))"

definition respond :: "r2cpcommand list \<Rightarrow> ('w processor, unit) prog" where
  "respond responsecommands =
     (if length responsecommands > 0 then
        bindM (liftO (fst (serializecommands responsecommands R2CPSerializer_init))) (\<lambda>responser2cppacket.
        catchM (onqueue (pushtotransmissionqueue responser2cppacket)) OverflowError
          (\<lambda>e. logf processorlog_update LOGSEVERITYWARNING (what e) []))
      else ret ())"

definition process_packet :: "'w robot_modules \<Rightarrow> bytes \<Rightarrow> ('w processor, unit) prog" where
  "process_packet mods r2cppacket =
     bindM (parse_with_new_parser r2cppacket) (\<lambda>r2cpcommands.
     bindM (react_loop mods r2cpcommands []) (\<lambda>responsecommands.
     bindM (getM robotmodulesset) (\<lambda>modules.
     bindM (active_loop mods modules responsecommands) (\<lambda>responsecommands'.
     respond responsecommands'))))"

definition executetask :: "'w robot_modules \<Rightarrow> ('w processor, unit) prog" where
  "executetask mods =
     catchM
       (bindM (onqueue popfromreceptionqueue) (\<lambda>r2cppacket.
        catchM (process_packet mods r2cppacket) InvalidArgument
          (\<lambda>e. logf processorlog_update LOGSEVERITYWARNING (what e) [])))
       UnderflowError
       (\<lambda>e. logf processorlog_update LOGSEVERITYINFO (what e) [])"

subsection \<open>The thread\<close>

text \<open>The loop of \<open>runthread\<close>, with the number of times it finds \<open>isrunning\<close> set.\<close>

fun runthread_loop :: "'w robot_modules \<Rightarrow> nat \<Rightarrow> ('w processor, unit) prog" where
  "runthread_loop mods 0 = ret ()"
| "runthread_loop mods (Suc n) = bindM (executetask mods) (\<lambda>_. runthread_loop mods n)"

definition runthread :: "'w robot_modules \<Rightarrow> nat \<Rightarrow> ('w processor, unit) prog" where
  "runthread mods n =
     bindM (logf processorlog_update LOGSEVERITYINFO ''Started packet processing...'' []) (\<lambda>_.
     bindM (runthread_loop mods n) (\<lambda>_.
     logf processorlog_update LOGSEVERITYINFO ''Exiting packet processing thread.'' []))"

definition processor_run :: "('w processor, unit) prog" where
  "processor_run = modifyM (\<lambda>s. s\<lparr>isrunning := True, packetprocessorthread := Thread\<rparr>)"

definition processor_waituntilfinished :: "('w processor, unit) prog" where
  "processor_waituntilfinished =
     bindM (getM packetprocessorthread) (\<lambda>t. if t = Thread then ret () else undefM)"

definition processor_halt :: "('w processor, unit) prog" where
  "processor_halt =
     bindM (modifyM (\<lambda>s. s\<lparr>isrunning := False\<rparr>)) (\<lambda>_.
     bindM (getM packetprocessorthread) (\<lambda>t.
     case t of
       Uninitialised \<Rightarrow> undefM
     | Nullptr \<Rightarrow> ret ()
     | Thread \<Rightarrow> bindM processor_waituntilfinished (\<lambda>_.
         modifyM (\<lambda>s. s\<lparr>packetprocessorthread := Nullptr\<rparr>))))"

definition R2CPPacketProcessor_destroy :: "('w processor, unit) prog" where
  "R2CPPacketProcessor_destroy = bindM processor_halt (\<lambda>_. unregisterallrobotmodules)"

subsection \<open>The registry\<close>

text \<open>Every module that reacts to a code is in the set of modules.\<close>

definition registry_ok :: "'w processor \<Rightarrow> bool" where
  "registry_ok s \<longleftrightarrow> snd ` set (robotmodulesmap s) \<subseteq> set (robotmodulesset s) \<and>
     sorted_wrt (<) (map fst (robotmodulesmap s)) \<and> sorted_wrt (<) (robotmodulesset s)"

lemma set_ordered_insert [simp]: "set (ordered_insert x xs) = insert x (set xs)"
  by (induction xs) auto

lemma sorted_ordered_insert: "sorted_wrt (<) xs \<Longrightarrow> sorted_wrt (<) (ordered_insert x xs)"
  by (induction xs) auto

lemma fst_ordered_update: "fst ` set (ordered_update k v es) = insert k (fst ` set es)"
  by (induction k v es rule: ordered_update.induct) auto

lemma snd_ordered_update: "snd ` set (ordered_update k v es) \<subseteq> insert v (snd ` set es)"
  by (induction k v es rule: ordered_update.induct) auto

lemma sorted_ordered_update:
  "sorted_wrt (<) (map fst es) \<Longrightarrow> sorted_wrt (<) (map fst (ordered_update k v es))"
proof (induction k v es rule: ordered_update.induct)
  case (2 k v k' v' es)
  then show ?case
    using fst_ordered_update [of k v es] by (auto simp: image_iff)
qed simp

lemma map_of_ordered_update:
  "sorted_wrt (<) (map fst es) \<Longrightarrow> map_of (ordered_update k v es) = (map_of es)(k \<mapsto> v)"
proof (induction k v es rule: ordered_update.induct)
  case (2 k v k' v' es)
  have "map_of es k = None" if "k < k'"
    using "2.prems" that by (auto simp: map_of_eq_None_iff)
  with 2 show ?case by (auto simp: fun_eq_iff)
qed simp

lemma warning_registered:
  "convertformattostring
     ''Robot module not registered. There is already registered robot module to reaction code %u.''
     [FUint c] =
   Ret (''Robot module not registered. There is already registered robot module to reaction code ''
     @ idec (uint c) @ ''.'')"
  by (rule convertformattostring_uint) simp_all

lemma registerrobotmodule_code_eq:
  "registerrobotmodule_code c m s =
    (if map_of (robotmodulesmap s) c = None
     then (Ret (), s\<lparr>robotmodulesset := ordered_insert m (robotmodulesset s),
             robotmodulesmap := ordered_update c m (robotmodulesmap s)\<rparr>)
     else (Ret (), s\<lparr>processorlog := processorlog s @ [(LOGSEVERITYWARNING,
             ''Robot module not registered. There is already registered robot module to reaction code ''
             @ idec (uint c) @ ''.'')]\<rparr>))"
  by (simp add: registerrobotmodule_code_def warning_registered logs_def modifyM_def)

lemma registry_ok_register_code: "registry_ok s \<Longrightarrow> registry_ok (snd (registerrobotmodule_code c m s))"
  using snd_ordered_update [of c m "robotmodulesmap s"]
  by (auto simp: registerrobotmodule_code_eq registry_ok_def sorted_ordered_insert sorted_ordered_update)

lemma registry_ok_register: "registry_ok s \<Longrightarrow> registry_ok (snd (registerrobotmodule m s))"
  by (auto simp: registerrobotmodule_def modifyM_def registry_ok_def sorted_ordered_insert)

lemma registry_ok_unregister_all: "registry_ok (snd (unregisterallrobotmodules s))"
  by (simp add: unregisterallrobotmodules_def modifyM_def registry_ok_def)

lemma unregister_loop_eq:
  "unregister_loop m es = (if m \<in> snd ` set es then Undefined else Ret ())"
  by (induction m es rule: unregister_loop.induct) auto

lemma unregisterrobotmodule_eq:
  "unregisterrobotmodule m s =
    (if m \<in> snd ` set (robotmodulesmap s) then (Undefined, s)
     else (Ret (), s\<lparr>robotmodulesset := removeAll m (robotmodulesset s)\<rparr>))"
  by (simp add: unregisterrobotmodule_def unregister_loop_eq bindM_def modifyM_def liftO_def getM_def)

lemma registry_ok_unregister: "registry_ok s \<Longrightarrow> registry_ok (snd (unregisterrobotmodule m s))"
  by (auto simp: unregisterrobotmodule_eq registry_ok_def removeAll_filter_not_eq sorted_wrt_filter)

lemma warning_not_registered:
  "convertformattostring ''Robot module cannot be unregistered, because it has not even been registered.'' [] =
   Ret ''Robot module cannot be unregistered, because it has not even been registered.''"
  by (rule convertformattostring_uint) simp_all

lemma unregisterrobotmodule_code_eq:
  "unregisterrobotmodule_code c s = (case map_of (robotmodulesmap s) c of
     Some m \<Rightarrow> (Ret (), s\<lparr>robotmodulesmap := erase_key c (robotmodulesmap s),
       robotmodulesset := removeAll m (robotmodulesset s)\<rparr>)
   | None \<Rightarrow> (Ret (), s\<lparr>processorlog := processorlog s @ [(LOGSEVERITYWARNING,
       ''Robot module cannot be unregistered, because it has not even been registered.'')]\<rparr>))"
  by (simp add: unregisterrobotmodule_code_def map_at_def catchM_def bindM_def liftO_def modifyM_def
      getM_def logf_def warning_not_registered split: option.splits)

text \<open>Unregistering by code keeps the invariant exactly when no other code maps to the module.\<close>

lemma registry_ok_unregister_code:
  assumes "registry_ok s" and "map_of (robotmodulesmap s) c = Some m"
  shows "registry_ok (snd (unregisterrobotmodule_code c s)) \<longleftrightarrow>
    (\<forall>c'. (c', m) \<in> set (robotmodulesmap s) \<longrightarrow> c' = c)"
proof -
  have "sorted_wrt (<) (map fst (erase_key c (robotmodulesmap s)))"
    using assms(1) unfolding registry_ok_def erase_key_def sorted_wrt_map
    by (simp add: sorted_wrt_filter)
  moreover have "sorted_wrt (<) (removeAll m (robotmodulesset s))"
    using assms(1) by (simp add: registry_ok_def removeAll_filter_not_eq sorted_wrt_filter)
  ultimately show ?thesis
    using assms by (force simp: unregisterrobotmodule_code_eq registry_ok_def erase_key_def)
qed

subsection \<open>The thread\<close>

lemma processor_halt_eq:
  "processor_halt s = (case packetprocessorthread s of
      Uninitialised \<Rightarrow> (Undefined, s\<lparr>isrunning := False\<rparr>)
    | _ \<Rightarrow> (Ret (), s\<lparr>isrunning := False, packetprocessorthread := Nullptr\<rparr>))"
  by (cases s; cases "packetprocessorthread s")
    (simp_all add: processor_halt_def processor_waituntilfinished_def modifyM_def undefM_def ret_def
      bindM_def getM_def)

subsection \<open>A round keeps the queue of outgoing packets\<close>

lemma respond_eq:
  "respond responsecommands s =
    (if responsecommands = [] then (Ret (), s) else (Throw no_more_bytes_to_write, s))"
  by (simp add: respond_def serializecommands_throws_OutOfRange bindM_def liftO_def ret_def)

abbreviation outgoing :: "'w processor \<Rightarrow> bytes list" where
  "outgoing s \<equiv> transmissionqueue (transceiverqueue s)"

lemma keeps_logf [keeps_intros]: "keepsM (\<lambda>s. outgoing s) (logf processorlog_update sev f args)"
  unfolding logf_def by (intro keeps_intros keepsM_modifyM) simp

lemma keeps_logs [keeps_intros]: "keepsM (\<lambda>s. outgoing s) (logs processorlog_update sev m)"
  unfolding logs_def by (intro keepsM_modifyM) simp

lemma keeps_onmodules [keeps_intros]: "keepsM (\<lambda>s. outgoing s) (onmodules m)"
  unfolding onmodules_def by (rule keepsM_zoomM) simp

lemma keeps_parse [keeps_intros]: "keepsM (\<lambda>s. outgoing s) (parse_with_new_parser p)"
  by (simp add: keepsM_def parse_with_new_parser_def split: prod.splits)

lemma keeps_pop [keeps_intros]: "keepsM (\<lambda>s. outgoing s) (onqueue popfromreceptionqueue)"
  unfolding onqueue_def
  by (rule keepsM_zoomM) (auto simp: queue_defs bindM_def getM_def liftO_def modifyM_def ret_def
      throwM_def vec_at_def)

lemma keeps_respond [keeps_intros]: "keepsM (\<lambda>s. outgoing s) (respond rs)"
  by (simp add: keepsM_def respond_eq)

lemma keeps_react_loop [keeps_intros]: "keepsM (\<lambda>s. outgoing s) (react_loop mods cs rs)"
proof (induction cs arbitrary: rs)
  case (Cons c cs)
  show ?case unfolding react_loop.simps by (intro keeps_intros Cons.IH)
qed (simp add: keeps_intros)

lemma keeps_active_loop [keeps_intros]: "keepsM (\<lambda>s. outgoing s) (active_loop mods ms rs)"
proof (induction ms arbitrary: rs)
  case (Cons m ms)
  show ?case unfolding active_loop.simps by (intro keeps_intros Cons.IH)
qed (simp add: keeps_intros)

lemma keeps_executetask: "keepsM (\<lambda>s. outgoing s) (executetask mods)"
  unfolding executetask_def process_packet_def by (intro keeps_intros)

lemma keeps_runthread: "keepsM (\<lambda>s. outgoing s) (runthread mods n)"
proof -
  have "keepsM (\<lambda>s. outgoing s) (runthread_loop mods n)"
    by (induction n) (simp_all add: keeps_intros keeps_executetask)
  then show ?thesis unfolding runthread_def by (intro keeps_intros)
qed

subsection \<open>What a round does\<close>

lemma info_empty_queue:
  "convertformattostring ''Reception queue has no R2CP packets to pop.'' [] =
   Ret ''Reception queue has no R2CP packets to pop.''"
  by (rule convertformattostring_uint) simp_all

lemma executetask_empty:
  assumes "receptionqueue (transceiverqueue s) = []"
  shows "executetask mods s = (Ret (), s\<lparr>processorlog := processorlog s @
    [(LOGSEVERITYINFO, ''Reception queue has no R2CP packets to pop.'')]\<rparr>)"
  using assms
  by (cases s) (simp add: executetask_def onqueue_def zoomM_def catchM_def bindM_def reception.pop_eq
      logf_def info_empty_queue liftO_def modifyM_def)

text \<open>Modules whose functions return.\<close>

definition returning :: "'w robot_modules \<Rightarrow> (robot_module \<Rightarrow> r2cpcommand \<Rightarrow> r2cpcommand list)
    \<Rightarrow> (robot_module \<Rightarrow> r2cpcommand list) \<Rightarrow> bool" where
  "returning mods reactive active \<longleftrightarrow>
     (\<forall>m c w. fst (evaluatereactive mods m c w) = Ret (reactive m c) \<and> length (reactive m c) < 2 ^ 32) \<and>
     (\<forall>m w. fst (evaluateactive mods m w) = Ret (active m) \<and> length (active m) < 2 ^ 32)"

definition responses :: "(robot_module \<Rightarrow> r2cpcommand \<Rightarrow> r2cpcommand list) \<Rightarrow> (robot_module \<Rightarrow> r2cpcommand list)
    \<Rightarrow> (u32 \<times> robot_module) list \<Rightarrow> robot_module list \<Rightarrow> r2cpcommand list \<Rightarrow> r2cpcommand list" where
  "responses reactive active m ms cs =
     concat (map (\<lambda>c. case map_of m (cmd_code c) of None \<Rightarrow> [] | Some r \<Rightarrow> reactive r c) cs) @
     concat (map active ms)"

text \<open>The state the modules' functions leave, called in the order of the commands.\<close>

fun react_state :: "'w robot_modules \<Rightarrow> (u32 \<times> robot_module) list \<Rightarrow> r2cpcommand list \<Rightarrow> 'w \<Rightarrow> 'w" where
  "react_state mods m [] w = w"
| "react_state mods m (c # cs) w = react_state mods m cs
     (case map_of m (cmd_code c) of None \<Rightarrow> w | Some r \<Rightarrow> snd (evaluatereactive mods r c w))"

fun active_state :: "'w robot_modules \<Rightarrow> robot_module list \<Rightarrow> 'w \<Rightarrow> 'w" where
  "active_state mods [] w = w"
| "active_state mods (m # ms) w = active_state mods ms (snd (evaluateactive mods m w))"

lemma warning_unassigned:
  "convertformattostring ''No robot modules assigned to command code %u. Ignoring the command code.'' [FUint c] =
   Ret (''No robot modules assigned to command code '' @ idec (uint c) @ ''. Ignoring the command code.'')"
  by (rule convertformattostring_uint) simp_all

text \<open>The two loops change the modules' state and the log only.\<close>

definition registry :: "'w processor \<Rightarrow> (u32 \<times> robot_module) list \<times> robot_module list \<times> transceiver_queue" where
  "registry s = (robotmodulesmap s, robotmodulesset s, transceiverqueue s)"

lemma append_counted: "length xs < 2 ^ 32 \<Longrightarrow> (if size32 xs > 0 then ys @ xs else ys) = ys @ xs"
  by (simp add: size32_pos_iff)

lemma processorlog_append:
  "processorlog_update (\<lambda>l. l @ x) s = s\<lparr>processorlog := processorlog s @ x\<rparr>"
  by (cases s) simp

lemma react_loop_result:
  assumes "returning mods reactive active"
  shows "\<exists>t. react_loop mods cs rs s = (Ret (rs @ concat (map (\<lambda>c. case map_of (robotmodulesmap s) (cmd_code c)
      of None \<Rightarrow> [] | Some r \<Rightarrow> reactive r c) cs)), t) \<and> registry t = registry s \<and>
    modulestate t = react_state mods (robotmodulesmap s) cs (modulestate s)"
proof (induction cs arbitrary: rs s)
  case Nil
  then show ?case by (simp add: ret_def)
next
  case (Cons c cs)
  show ?case
  proof (cases "map_of (robotmodulesmap s) (cmd_code c)")
    case None
    obtain message where message: "convertformattostring
        ''No robot modules assigned to command code %u. Ignoring the command code.''
        [FUint (cmd_code c)] = Ret message"
      using warning_unassigned by blast
    let ?t = "s\<lparr>processorlog := processorlog s @ [(LOGSEVERITYWARNING, message)]\<rparr>"
    have "react_loop mods (c # cs) rs s = react_loop mods cs rs ?t"
      using None by (simp add: map_at_def catchM_def bindM_def getM_def liftO_def ret_def getter_defs
          message logs_def modifyM_def processorlog_append)
    with Cons.IH [of rs ?t] None show ?thesis by (simp add: registry_def)
  next
    case (Some r)
    obtain w where w: "evaluatereactive mods r c (modulestate s) = (Ret (reactive r c), w)"
      using assms unfolding returning_def by (metis prod.collapse)
    have l: "length (reactive r c) < 2 ^ 32" using assms by (simp add: returning_def)
    let ?t = "s\<lparr>modulestate := w\<rparr>"
    have "react_loop mods (c # cs) rs s = react_loop mods cs (rs @ reactive r c) ?t"
      using Some w append_counted [OF l, of rs]
      by (simp add: map_at_def catchM_def bindM_def getM_def liftO_def ret_def getter_defs
          onmodules_def zoomM_def)
    with Cons.IH [of "rs @ reactive r c" ?t] Some w show ?thesis by (simp add: registry_def)
  qed
qed

lemma active_loop_result:
  assumes "returning mods reactive active"
  shows "\<exists>t. active_loop mods ms rs s = (Ret (rs @ concat (map active ms)), t) \<and> registry t = registry s \<and>
    modulestate t = active_state mods ms (modulestate s)"
proof (induction ms arbitrary: rs s)
  case Nil
  then show ?case by (simp add: ret_def)
next
  case (Cons m ms)
  obtain w where w: "evaluateactive mods m (modulestate s) = (Ret (active m), w)"
    using assms unfolding returning_def by (metis prod.collapse)
  have l: "length (active m) < 2 ^ 32" using assms by (simp add: returning_def)
  let ?t = "s\<lparr>modulestate := w\<rparr>"
  have "active_loop mods (m # ms) rs s = active_loop mods ms (rs @ active m) ?t"
    using w append_counted [OF l, of rs] by (simp add: bindM_def onmodules_def zoomM_def)
  with Cons.IH [of "rs @ active m" ?t] w show ?case by (simp add: registry_def)
qed

lemma process_packet_result:
  assumes "returning mods reactive active"
    and "parser2cppacket p R2CPParser_init = (Ret cs, parser)"
  shows "\<exists>t. process_packet mods p s =
     (if responses reactive active (robotmodulesmap s) (robotmodulesset s) cs = [] then Ret ()
      else Throw no_more_bytes_to_write, t) \<and> registry t = registry s \<and>
      modulestate t = active_state mods (robotmodulesset s)
        (react_state mods (robotmodulesmap s) cs (modulestate s))"
proof -
  let ?s = "s\<lparr>processorlog := processorlog s @ parserlog parser\<rparr>"
  have parse: "parse_with_new_parser p s = (Ret cs, ?s)"
    using assms(2) by (simp add: parse_with_new_parser_def)
  obtain rs t where t: "react_loop mods cs [] ?s = (Ret rs, t)" "registry t = registry ?s"
    "modulestate t = react_state mods (robotmodulesmap s) cs (modulestate s)"
    and rs: "rs = concat (map (\<lambda>c. case map_of (robotmodulesmap s) (cmd_code c)
      of None \<Rightarrow> [] | Some r \<Rightarrow> reactive r c) cs)"
    using react_loop_result [OF assms(1), of cs "[]" ?s] by auto
  obtain u where u: "active_loop mods (robotmodulesset s) rs t = (Ret (rs @ concat (map active (robotmodulesset s))), u)"
      "registry u = registry t"
      "modulestate u = active_state mods (robotmodulesset s) (modulestate t)"
    using active_loop_result [OF assms(1)] by blast
  have "robotmodulesset t = robotmodulesset s" using t(2) by (simp add: registry_def)
  with parse t(1) u show ?thesis
    using t(2,3) rs by (auto simp: process_packet_def bindM_def getM_def respond_eq responses_def registry_def)
qed

lemma executetask_wire:
  assumes "returning mods reactive active" and "wire_encodable m cs"
    and "receptionqueue (transceiverqueue s) = wire_packet m cs # rest"
    and "length rest + 1 < 2 ^ 32"
  shows "\<exists>t. executetask mods s =
     (if responses reactive active (robotmodulesmap s) (robotmodulesset s) cs = [] then Ret ()
      else Throw no_more_bytes_to_write, t) \<and> receptionqueue (transceiverqueue t) = rest \<and>
      robotmodulesmap t = robotmodulesmap s \<and> robotmodulesset t = robotmodulesset s \<and>
      modulestate t = active_state mods (robotmodulesset s)
        (react_state mods (robotmodulesmap s) cs (modulestate s))"
proof -
  have pos: "0 < size32 (receptionqueue (transceiverqueue s))"
    using assms(3,4) by (simp add: size32_pos_iff)
  obtain q where q: "popfromreceptionqueue (transceiverqueue s) = (Ret (wire_packet m cs), q)"
    and rest: "receptionqueue q = rest"
    using reception.pop_section_Cons [OF assms(3)] pos by (auto simp: reception.pop_eq)
  let ?s = "s\<lparr>transceiverqueue := q\<rparr>"
  obtain parser where "parser2cppacket (wire_packet m cs) R2CPParser_init = (Ret cs, parser)"
    using assms(2) by (simp add: wire_encodable_def parser2cppacket_wire)
  then obtain t where "process_packet mods (wire_packet m cs) ?s =
     (if responses reactive active (robotmodulesmap s) (robotmodulesset s) cs = [] then Ret ()
      else Throw no_more_bytes_to_write, t)" and "registry t = registry ?s"
    and "modulestate t = active_state mods (robotmodulesset s)
        (react_state mods (robotmodulesmap s) cs (modulestate s))"
    using process_packet_result [OF assms(1), of "wire_packet m cs" cs parser ?s] by auto
  then show ?thesis
    using q rest by (auto simp: executetask_def onqueue_def zoomM_def catchM_def bindM_def registry_def
        no_more_bytes_to_write_def)
qed

lemma executetask_parser_throws:
  assumes "receptionqueue (transceiverqueue s) = p # rest" and "length rest + 1 < 2 ^ 32"
    and "parser2cppacket p R2CPParser_init = (Throw e, parser)" and "exn_kind e = OutOfRange"
  shows "\<exists>t. executetask mods s = (Throw e, t) \<and> receptionqueue (transceiverqueue t) = rest"
proof -
  have pos: "0 < size32 (receptionqueue (transceiverqueue s))"
    using assms(1,2) by (simp add: size32_pos_iff)
  obtain q where q: "popfromreceptionqueue (transceiverqueue s) = (Ret p, q)"
    and rest: "receptionqueue q = rest"
    using reception.pop_section_Cons [OF assms(1)] pos by (auto simp: reception.pop_eq)
  then show ?thesis
    using assms(3,4)
    by (auto simp: executetask_def onqueue_def zoomM_def catchM_def bindM_def process_packet_def
        parse_with_new_parser_def)
qed

lemma warning_parsing_failed:
  "convertformattostring ''Parsing failed. Invalid R2CP packet.'' [] = Ret ''Parsing failed. Invalid R2CP packet.''"
  by (rule convertformattostring_uint) simp_all

lemma executetask_invalid:
  assumes "receptionqueue (transceiverqueue s) = p # rest" and "length rest + 1 < 2 ^ 32"
    and "validater2cppacket p R2CPParser_init = (Ret False, parser)"
  shows "\<exists>t. executetask mods s = (Ret (), t) \<and> receptionqueue (transceiverqueue t) = rest \<and>
    robotmodulesmap t = robotmodulesmap s \<and> robotmodulesset t = robotmodulesset s \<and>
    modulestate t = modulestate s"
proof -
  have pos: "0 < size32 (receptionqueue (transceiverqueue s))"
    using assms(1,2) by (simp add: size32_pos_iff)
  obtain q where q: "popfromreceptionqueue (transceiverqueue s) = (Ret p, q)"
    and rest: "receptionqueue q = rest"
    using reception.pop_section_Cons [OF assms(1)] pos by (auto simp: reception.pop_eq)
  have "parser2cppacket p R2CPParser_init =
      (Throw (Exn InvalidArgument ''Parsing failed. Invalid R2CP packet.''), parser)"
    using assms(3) by (simp add: parser2cppacket_def bindM_def throwM_def)
  with q rest show ?thesis
    by (simp add: executetask_def onqueue_def zoomM_def catchM_def bindM_def process_packet_def
        parse_with_new_parser_def logf_def liftO_def modifyM_def warning_parsing_failed)
qed

end
