(* ===== verification/Base64.thy ===== *)
theory Base64
  imports R2CP_Prelude
begin

text \<open>
  \<open>Base64/Base64.cpp\<close>. The arrays \<open>char_array_3\<close> and \<open>char_array_4\<close> are lists of the elements
  written so far, so the index \<open>i\<close> of the sources is the length of the list. \<open>bufLen\<close> and
  \<open>in_len\<close> are the sizes truncated to 32 bits, counted down to zero; \<open>in_len\<close> is a signed
  \<open>int\<close>, so the model of the decoder is that of the source for strings shorter than
  \<open>2 ^ 31\<close>. The loops are shared with the copy of this code in the WebSocket library, which
  has its own alphabet test (the argument \<open>isb\<close>). A string is a list of
  characters, and subscripting it at its size reads the terminating NUL.
\<close>

subsection \<open>Characters\<close>

definition base64_chars :: string where
  "base64_chars = ''ABCDEFGHIJKLMNOPQRSTUVWXYZabcdefghijklmnopqrstuvwxyz0123456789+/''"

text \<open>\<open>isalnum\<close> of the C locale.\<close>

definition isalnum :: "u8 \<Rightarrow> bool" where
  "isalnum c \<longleftrightarrow> (48 \<le> c \<and> c \<le> 57) \<or> (65 \<le> c \<and> c \<le> 90) \<or> (97 \<le> c \<and> c \<le> 122)"

definition is_base64 :: "u8 \<Rightarrow> bool" where
  "is_base64 c \<longleftrightarrow> isalnum c \<or> c = 43 \<or> c = 47"

definition byte_of_char :: "char \<Rightarrow> u8" where
  "byte_of_char c = word_of_nat (of_char c)"

text \<open>\<open>base64_chars.find(c)\<close>, stored into a byte: \<open>npos\<close> becomes 255.\<close>

fun find_from :: "string \<Rightarrow> u8 \<Rightarrow> u8 \<Rightarrow> u8" where
  "find_from [] c pos = 255"
| "find_from (x # xs) c pos = (if byte_of_char x = c then pos else find_from xs c (pos + 1))"

definition base64_find :: "u8 \<Rightarrow> u8" where
  "base64_find c = find_from base64_chars c 0"

definition base64_char :: "u8 \<Rightarrow> char" where
  "base64_char g = base64_chars ! unat g"

subsection \<open>Groups\<close>

fun encode_group :: "bytes \<Rightarrow> bytes" where
  "encode_group [a, b, c] =
     [drop_bit 2 (a AND 0xFC),
      push_bit 4 (a AND 0x03) + drop_bit 4 (b AND 0xF0),
      push_bit 2 (b AND 0x0F) + drop_bit 6 (c AND 0xC0),
      c AND 0x3F]"
| "encode_group _ = []"

fun decode_group :: "bytes \<Rightarrow> bytes" where
  "decode_group [a, b, c, d] =
     [push_bit 2 a + drop_bit 4 (b AND 0x30),
      push_bit 4 (b AND 0xF) + drop_bit 2 (c AND 0x3C),
      push_bit 6 (c AND 0x3) + d]"
| "decode_group _ = []"

subsection \<open>Encoding\<close>

fun base64_encode_loop :: "nat \<Rightarrow> bytes \<Rightarrow> bytes \<Rightarrow> string \<Rightarrow> bytes \<times> string" where
  "base64_encode_loop bufLen [] char_array_3 out = (char_array_3, out)"
| "base64_encode_loop bufLen (b # it) char_array_3 out =
     (if bufLen = 0 then (char_array_3, out)
      else
        (let char_array_3' = char_array_3 @ [b] in
         if length char_array_3' = 3
         then base64_encode_loop (bufLen - 1) it [] (out @ map base64_char (encode_group char_array_3'))
         else base64_encode_loop (bufLen - 1) it char_array_3' out))"

definition base64_encode_tail :: "bytes \<Rightarrow> string" where
  "base64_encode_tail char_array_3 =
     (let i = length char_array_3 in
      if i = 0 then []
      else map base64_char (take (i + 1) (encode_group (char_array_3 @ replicate (3 - i) 0)))
           @ replicate (3 - i) (CHR ''=''))"

definition base64_encode :: "bytes \<Rightarrow> string" where
  "base64_encode buf =
     (case base64_encode_loop (unat (size32 buf)) buf [] [] of
        (char_array_3, out) \<Rightarrow> out @ base64_encode_tail char_array_3)"

subsection \<open>Decoding\<close>

fun base64_decode_loop :: "(u8 \<Rightarrow> bool) \<Rightarrow> nat \<Rightarrow> string \<Rightarrow> bytes \<Rightarrow> bytes \<Rightarrow> bytes \<times> bytes" where
  "base64_decode_loop isb in_len [] char_array_4 out = (char_array_4, out)"
| "base64_decode_loop isb in_len (x # xs) char_array_4 out =
     (if in_len \<noteq> 0 \<and> x \<noteq> CHR ''='' \<and> isb (byte_of_char x) then
        (let char_array_4' = char_array_4 @ [byte_of_char x] in
         if length char_array_4' = 4
         then base64_decode_loop isb (in_len - 1) xs [] (out @ decode_group (map base64_find char_array_4'))
         else base64_decode_loop isb (in_len - 1) xs char_array_4' out)
      else (char_array_4, out))"

definition base64_decode_tail :: "bytes \<Rightarrow> bytes" where
  "base64_decode_tail char_array_4 =
     (let i = length char_array_4 in
      if i = 0 then []
      else take (i - 1) (decode_group (map base64_find (char_array_4 @ replicate (4 - i) 0))))"

definition base64_decode :: "string \<Rightarrow> bytes" where
  "base64_decode encoded_string =
     (case base64_decode_loop is_base64 (unat (size32 encoded_string)) encoded_string [] [] of
        (char_array_4, out) \<Rightarrow> out @ base64_decode_tail char_array_4)"

subsection \<open>RFC 4648 as a recursion on groups\<close>

fun rfc4648 :: "bytes \<Rightarrow> string" where
  "rfc4648 (a # b # c # r) = map base64_char (encode_group [a, b, c]) @ rfc4648 r"
| "rfc4648 [] = base64_encode_tail []"
| "rfc4648 [a] = base64_encode_tail [a]"
| "rfc4648 [a, b] = base64_encode_tail [a, b]"

lemma rfc4648_short: "length r < 3 \<Longrightarrow> rfc4648 r = base64_encode_tail r"
  by (cases r rule: rfc4648.cases) simp_all

lemma base64_encode_loop_eq:
  "length buf \<le> n \<Longrightarrow>
   (case base64_encode_loop n buf [] out of (char_array_3, out') \<Rightarrow>
     out' @ base64_encode_tail char_array_3) = out @ rfc4648 buf"
proof (induction buf arbitrary: n out rule: rfc4648.induct)
  case (1 a b c r)
  then obtain m where "n = Suc (Suc (Suc m))" and "length r \<le> m"
    by (metis Suc_le_D Suc_le_mono length_Cons)
  then show ?case
    using "1.IH" [of m "out @ map base64_char (encode_group [a, b, c])"]
    by (simp add: Let_def del: encode_group.simps)
qed (auto simp: base64_encode_tail_def Let_def)

lemma base64_encode_eq:
  "length buf < 2 ^ 32 \<Longrightarrow> base64_encode buf = rfc4648 buf"
  using base64_encode_loop_eq [of buf "length buf" "[]"]
  by (simp add: base64_encode_def unat_size32)

subsection \<open>Decoding what was encoded\<close>

lemma u8_cases64: "(g :: u8) < 64 \<Longrightarrow> unat g \<in> set [0..<64]"
  by (simp add: word_less_nat_alt)

lemma alphabet_table:
  "list_all (\<lambda>i. let x = base64_chars ! i in
     x \<noteq> CHR ''='' \<and> is_base64 (byte_of_char x) \<and> base64_find (byte_of_char x) = word_of_nat i) [0..<64]"
  by code_simp

lemma alphabet:
  assumes "g < 64"
  shows "base64_char g \<noteq> CHR ''=''" and "is_base64 (byte_of_char (base64_char g))"
    and "base64_find (byte_of_char (base64_char g)) = g"
  using alphabet_table u8_cases64 [OF assms]
  unfolding list_all_iff base64_char_def Let_def by (auto simp del: set_upt)

lemma plus_or:
  assumes "a AND b = (0 :: u8)"
  shows "a + b = a OR b"
  by (rule disjunctive_add) (metis assms bit_and_iff bit_0_eq bot_apply bot_bool_def)

lemma encode_plus:
  "push_bit 4 (a AND 0x03) + drop_bit 4 (b AND 0xF0) = push_bit 4 (a AND 0x03) OR drop_bit 4 (b AND 0xF0 :: u8)"
  "push_bit 2 (b AND 0x0F) + drop_bit 6 (c AND 0xC0) = push_bit 2 (b AND 0x0F) OR drop_bit 6 (c AND 0xC0 :: u8)"
  by (rule plus_or, rule u8_eqI; simp add: bit_simps)+

lemma decode_plus:
  "push_bit 2 (drop_bit 2 (a AND 0xFC)) + drop_bit 4 (x AND 0x30) =
     push_bit 2 (drop_bit 2 (a AND 0xFC)) OR drop_bit 4 (x AND 0x30 :: u8)"
  "push_bit 4 (x AND 0xF) + drop_bit 2 (y AND 0x3C) = push_bit 4 (x AND 0xF) OR drop_bit 2 (y AND 0x3C :: u8)"
  "push_bit 6 (y AND 0x3) + (c AND 0x3F) = push_bit 6 (y AND 0x3) OR (c AND 0x3F :: u8)"
  by (rule plus_or, rule u8_eqI; simp add: bit_simps)+

lemma decode_encoded:
  "push_bit 2 (drop_bit 2 (a AND 0xFC)) +
     drop_bit 4 ((push_bit 4 (a AND 0x03) + drop_bit 4 (b AND 0xF0)) AND 0x30) = (a :: u8)"
  "push_bit 4 ((push_bit 4 (a AND 0x03) + drop_bit 4 (b AND 0xF0)) AND 0xF) +
     drop_bit 2 ((push_bit 2 (b AND 0x0F) + drop_bit 6 (c AND 0xC0)) AND 0x3C) = (b :: u8)"
  "push_bit 6 ((push_bit 2 (b AND 0x0F) + drop_bit 6 (c AND 0xC0)) AND 0x3) + (c AND 0x3F) = (c :: u8)"
  unfolding encode_plus decode_plus by (rule u8_eqI; simp add: bit_simps)+

lemma decode_encode_group: "decode_group (encode_group [a, b, c]) = [a, b, c]"
  by (simp only: encode_group.simps decode_group.simps decode_encoded)

lemma lt_64_and: "(g :: u8) AND 0x3F = g \<Longrightarrow> g < 64"
proof -
  assume "g AND 0x3F = g"
  then have "g \<le> 0x3F" by (metis word_and_le1)
  then show ?thesis by (simp add: word_le_nat_alt word_less_nat_alt)
qed

lemma encode_group_small: "g \<in> set (encode_group [a, b, c]) \<Longrightarrow> g < 64"
  apply (rule lt_64_and)
  apply (simp only: encode_group.simps encode_plus list.set insert_iff empty_iff simp_thms)
  apply (elim disjE; simp only:; rule u8_eqI; simp add: bit_simps)
  done

lemma base64_find_NUL: "base64_find 0 = 255"
  by code_simp

lemma rfc4648_one: "rfc4648 [a] =
   [base64_char (drop_bit 2 (a AND 0xFC)), base64_char (push_bit 4 (a AND 0x03) + drop_bit 4 (0 AND 0xF0)),
    CHR ''='', CHR ''='']"
  by (simp add: base64_encode_tail_def Let_def numeral_2_eq_2 numeral_3_eq_3 del: and_zero_eq zero_and_eq drop_bit_of_0)

lemma rfc4648_two: "rfc4648 [a, b] =
   [base64_char (drop_bit 2 (a AND 0xFC)), base64_char (push_bit 4 (a AND 0x03) + drop_bit 4 (b AND 0xF0)),
    base64_char (push_bit 2 (b AND 0x0F) + drop_bit 6 (0 AND 0xC0)), CHR ''='']"
  by (simp add: base64_encode_tail_def Let_def numeral_2_eq_2 numeral_3_eq_3 del: and_zero_eq zero_and_eq drop_bit_of_0)

lemma encode_group_elems:
  "drop_bit 2 (a AND 0xFC) < (64 :: u8)"
  "push_bit 4 (a AND 0x03) + drop_bit 4 (b AND 0xF0) < (64 :: u8)"
  "push_bit 2 (b AND 0x0F) + drop_bit 6 (c AND 0xC0) < (64 :: u8)"
  "c AND 0x3F < (64 :: u8)"
  using encode_group_small [of _ a b c] unfolding encode_group.simps
  by (simp_all only: list.set insert_iff simp_thms)

lemma decode_loop_four:
  assumes "g0 < 64" and "g1 < 64" and "g2 < 64" and "g3 < 64"
  shows "base64_decode_loop is_base64 (Suc (Suc (Suc (Suc n))))
      (base64_char g0 # base64_char g1 # base64_char g2 # base64_char g3 # xs) [] out =
    base64_decode_loop is_base64 n xs [] (out @ decode_group [g0, g1, g2, g3])"
  using assms by (simp add: alphabet Let_def del: decode_group.simps)

lemma decode_tail_two:
  assumes "g0 < 64" and "g1 < 64"
  shows "(case base64_decode_loop is_base64 (Suc (Suc n))
      (base64_char g0 # base64_char g1 # CHR ''='' # xs) [] out of
    (char_array_4, out') \<Rightarrow> out' @ base64_decode_tail char_array_4) =
    out @ take 1 (decode_group [g0, g1, 255, 255])"
  using assms
  by (simp add: alphabet Let_def base64_decode_tail_def base64_find_NUL numeral_2_eq_2 del: decode_group.simps)

lemma decode_tail_three:
  assumes "g0 < 64" and "g1 < 64" and "g2 < 64"
  shows "(case base64_decode_loop is_base64 (Suc (Suc (Suc n)))
      (base64_char g0 # base64_char g1 # base64_char g2 # CHR ''='' # xs) [] out of
    (char_array_4, out') \<Rightarrow> out' @ base64_decode_tail char_array_4) =
    out @ take 2 (decode_group [g0, g1, g2, 255])"
  using assms
  by (simp add: alphabet Let_def base64_decode_tail_def base64_find_NUL numeral_3_eq_3 numeral_2_eq_2 del: decode_group.simps)

lemma decode_group_prefixes:
  "take 1 (decode_group [g0, g1, x, y]) = [push_bit 2 g0 + drop_bit 4 (g1 AND 0x30)]"
  "take 2 (decode_group [g0, g1, g2, y]) =
     [push_bit 2 g0 + drop_bit 4 (g1 AND 0x30), push_bit 4 (g1 AND 0xF) + drop_bit 2 (g2 AND 0x3C)]"
  by (simp_all only: decode_group.simps take_Suc_Cons One_nat_def numeral_2_eq_2 take_0)

lemma base64_decode_loop_eq:
  "length (rfc4648 bs) \<le> n \<Longrightarrow>
   (case base64_decode_loop is_base64 n (rfc4648 bs) [] out of
     (char_array_4, out') \<Rightarrow> out' @ base64_decode_tail char_array_4) = out @ bs"
proof (induction bs arbitrary: n out rule: rfc4648.induct)
  case (1 a b c r)
  then obtain m where n: "n = Suc (Suc (Suc (Suc m)))" and m: "length (rfc4648 r) \<le> m"
    by (auto simp: Suc_le_eq dest!: Suc_le_D less_imp_Suc_add)
  have string: "rfc4648 (a # b # c # r) =
      base64_char (drop_bit 2 (a AND 0xFC)) #
      base64_char (push_bit 4 (a AND 0x03) + drop_bit 4 (b AND 0xF0)) #
      base64_char (push_bit 2 (b AND 0x0F) + drop_bit 6 (c AND 0xC0)) #
      base64_char (c AND 0x3F) # rfc4648 r"
    by (simp only: rfc4648.simps encode_group.simps list.map append.simps)
  show ?case
    unfolding n string decode_loop_four [OF encode_group_elems]
    using "1.IH" [OF m] by (simp only: decode_group.simps decode_encoded append_assoc append.simps)
next
  case 2
  then show ?case by (simp add: base64_encode_tail_def base64_decode_tail_def)
next
  case (3 a)
  then obtain m where n: "n = Suc (Suc m)" unfolding rfc4648_one by (metis Suc_le_D Suc_le_mono length_Cons)
  show ?case
    unfolding n rfc4648_one decode_tail_two [OF encode_group_elems(1,2)]
    by (simp only: decode_group_prefixes decode_encoded)
next
  case (4 a b)
  then obtain m where n: "n = Suc (Suc (Suc m))" unfolding rfc4648_two by (metis Suc_le_D Suc_le_mono length_Cons)
  show ?case
    unfolding n rfc4648_two decode_tail_three [OF encode_group_elems(1,2,3)]
    by (simp only: decode_group_prefixes decode_encoded)
qed

lemma length_rfc4648: "length (rfc4648 bs) = 4 * ((length bs + 2) div 3)"
proof (induction bs rule: rfc4648.induct)
  case (1 a b c r)
  have "(length (a # b # c # r) + 2) div 3 = Suc ((length r + 2) div 3)" by simp
  with 1 show ?case by (simp del: encode_group.simps) simp
next
  case (3 a) show ?case unfolding rfc4648_one by simp
next
  case (4 a b) show ?case unfolding rfc4648_two by simp
qed (simp_all add: base64_encode_tail_def)

lemma base64_decode_encode:
  assumes "4 * ((length bs + 2) div 3) < 2 ^ 31"
  shows "base64_decode (base64_encode bs) = bs"
proof -
  have "length bs < 2 ^ 32" using assms by simp
  moreover have "unat (size32 (rfc4648 bs)) = length (rfc4648 bs)"
    using assms by (intro unat_size32) (simp add: length_rfc4648)
  ultimately show ?thesis
    using base64_decode_loop_eq [of bs "length (rfc4648 bs)" "[]"]
    by (simp add: base64_decode_def base64_encode_eq)
qed

interpretation base64: codec "\<lambda>bs. 4 * ((length bs + 2) div 3) < (2 :: nat) ^ 31" base64_encode
  "\<lambda>encoded_string. Ret (base64_decode encoded_string)"
  by unfold_locales (simp only: base64_decode_encode)

end
