(* ===== verification/R2CPWebSocketServer.thy ===== *)
theory R2CPWebSocketServer
  imports R2CPTransceiverQueue Base64 Logger
begin

text \<open>
  \<open>R2CPWebSocketServer.hpp\<close> and \<open>R2CPWebSocketServer.cpp\<close>: the server that accepts one
  operator, decodes what it sends into the reception queue and sends it the packets of the
  transmission queue.

  Of the WebSocket library the model has what the server relies on: the connections that are
  alive with their session state, and the calls \<open>get_con_from_hdl\<close>, \<open>send\<close> and \<open>close\<close>, which
  throw when the handle is dead or the connection is not open. A connection handle is a number.
\<close>

subsection \<open>Connections of the library\<close>

datatype session_state = Open | Closing

type_synonym connection_hdl = nat

record server_state =
  server_isrunning :: bool
  server_polltimeout :: u32
  receptionthread :: thread_ptr
  transmissionthread :: thread_ptr
  hasconnection :: bool
  operatorconnectionhandle :: "connection_hdl option"
  connections :: "(connection_hdl \<times> session_state) list"
  listening :: bool
  sent :: "(connection_hdl \<times> string) list"
  closeframes :: "(connection_hdl \<times> u16 \<times> string) list"
  serverqueue :: transceiver_queue
  serverlog :: "log_call list"

definition bad_connection :: exn where "bad_connection = Exn WebsocketppException ''Bad Connection''"
definition invalid_state :: exn where "invalid_state = Exn WebsocketppException ''invalid state''"

definition try_again_later :: u16 where "try_again_later = 1013"
definition going_away :: u16 where "going_away = 1001"

text \<open>\<open>hdl.lock()\<close>; a default-constructed handle locks to nothing.\<close>

definition get_con_from_hdl :: "connection_hdl option \<Rightarrow> (server_state, connection_hdl \<times> session_state) prog" where
  "get_con_from_hdl hdl = (\<lambda>s. case hdl of
     None \<Rightarrow> (Throw bad_connection, s)
   | Some h \<Rightarrow> (case map_of (connections s) h of
       None \<Rightarrow> (Throw bad_connection, s) | Some st \<Rightarrow> (Ret (h, st), s)))"

definition ws_send :: "connection_hdl option \<Rightarrow> string \<Rightarrow> (server_state, unit) prog" where
  "ws_send hdl payload =
     bindM (get_con_from_hdl hdl) (\<lambda>(h, st).
     if st = Open then modifyM (\<lambda>s. s\<lparr>sent := sent s @ [(h, payload)]\<rparr>)
     else throwM invalid_state)"

definition con_close :: "connection_hdl \<times> session_state \<Rightarrow> u16 \<Rightarrow> string \<Rightarrow> (server_state, unit) prog" where
  "con_close con code reason =
     (if snd con = Open then
        modifyM (\<lambda>s. s\<lparr>closeframes := closeframes s @ [(fst con, code, reason)],
          connections := map (\<lambda>c. if fst c = fst con then (fst c, Closing) else c) (connections s)\<rparr>)
      else throwM invalid_state)"

definition stop_listening :: "(server_state, unit) prog" where
  "stop_listening =
     bindM (getM listening) (\<lambda>l. if l then modifyM (\<lambda>s. s\<lparr>listening := False\<rparr>) else throwM invalid_state)"

subsection \<open>The handlers\<close>

definition SERVER_DEFAULTPOLLTIMEOUTINMILLISECONDS :: u32 where
  "SERVER_DEFAULTPOLLTIMEOUTINMILLISECONDS = 10"

definition R2CPWebSocketServer_init_timeout :: "u32 \<Rightarrow> transceiver_queue \<Rightarrow> server_state" where
  "R2CPWebSocketServer_init_timeout timeout q = \<lparr>server_isrunning = False, server_polltimeout = timeout,
     receptionthread = Uninitialised, transmissionthread = Uninitialised, hasconnection = False,
     operatorconnectionhandle = None, connections = [], listening = False, sent = [], closeframes = [],
     serverqueue = q, serverlog = []\<rparr>"

definition R2CPWebSocketServer_init :: "transceiver_queue \<Rightarrow> server_state" where
  "R2CPWebSocketServer_init = R2CPWebSocketServer_init_timeout SERVER_DEFAULTPOLLTIMEOUTINMILLISECONDS"

definition onserverqueue :: "(transceiver_queue, 'a) prog \<Rightarrow> (server_state, 'a) prog" where
  "onserverqueue = zoomM serverqueue (\<lambda>q. serverqueue_update (\<lambda>_. q))"

definition onmessage :: "connection_hdl \<Rightarrow> string \<Rightarrow> (server_state, unit) prog" where
  "onmessage hdl r2cppacketbase64 =
     (let r2cppacket = base64_decode r2cppacketbase64 in
      catchM (onserverqueue (pushtoreceptionqueue r2cppacket)) OverflowError
        (\<lambda>e. logf serverlog_update LOGSEVERITYWARNING (what e) []))"

definition onopen :: "connection_hdl \<Rightarrow> (server_state, unit) prog" where
  "onopen hdl =
     bindM (getM hasconnection) (\<lambda>connected.
     if connected then
       bindM (get_con_from_hdl (Some hdl)) (\<lambda>con.
       con_close con try_again_later ''Other operator already connected!'')
     else
       modifyM (\<lambda>s. s\<lparr>operatorconnectionhandle := Some hdl, hasconnection := True\<rparr>))"

definition onclose :: "connection_hdl \<Rightarrow> (server_state, unit) prog" where
  "onclose hdl =
     bindM (modifyM (\<lambda>s. s\<lparr>hasconnection := False\<rparr>)) (\<lambda>_.
     logf serverlog_update LOGSEVERITYINFO ''Operator has closed connection.'' [])"

subsection \<open>The two threads\<close>

text \<open>
  What the event loop of the library does with a connection: it becomes open, a frame arrives
  on it, the peer starts the closing handshake, it is torn down. Messages on a connection that
  is not open are dropped by the library.
\<close>

datatype ws_event = Opened connection_hdl | Message connection_hdl string
  | PeerCloses connection_hdl | Closed connection_hdl

fun handle_event :: "ws_event \<Rightarrow> (server_state, unit) prog" where
  "handle_event (Opened h) =
     bindM (modifyM (\<lambda>s. s\<lparr>connections := (h, Open) # connections s\<rparr>)) (\<lambda>_. onopen h)"
| "handle_event (Message h payload) =
     bindM (getM connections) (\<lambda>cs. if map_of cs h = Some Open then onmessage h payload else ret ())"
| "handle_event (PeerCloses h) =
     modifyM (\<lambda>s. s\<lparr>connections := map (\<lambda>c. if fst c = h then (fst c, Closing) else c) (connections s)\<rparr>)"
| "handle_event (Closed h) =
     bindM (onclose h) (\<lambda>_.
     modifyM (\<lambda>s. s\<lparr>connections := filter (\<lambda>c. fst c \<noteq> h) (connections s)\<rparr>))"

fun handle_events :: "ws_event list \<Rightarrow> (server_state, unit) prog" where
  "handle_events [] = ret ()"
| "handle_events (e # es) = bindM (handle_event e) (\<lambda>_. handle_events es)"

text \<open>
  The outcome of setting up the endpoint (\<open>init_asio\<close>, \<open>listen\<close>, \<open>start_accept\<close>) is an
  argument; the events are what \<open>wsserver.run()\<close> delivers. The second catch clause is
  \<open>catch(...)\<close>.
\<close>

definition receiver_start :: "(server_state, unit) prog" where
  "receiver_start =
     bindM (modifyM (\<lambda>s. s\<lparr>listening := True\<rparr>)) (\<lambda>_.
     logf serverlog_update LOGSEVERITYINFO ''Starting R2CP WebSocket server...'' [])"

definition receiver2cppackettask :: "unit outcome \<Rightarrow> ws_event list \<Rightarrow> (server_state, unit) prog" where
  "receiver2cppackettask setup events =
     bindM
       (\<lambda>s. case bindM (liftO setup) (\<lambda>_.
              bindM receiver_start (\<lambda>_. handle_events events)) s of
          (Throw e, s') \<Rightarrow>
            if exn_kind e = WebsocketppException then logf serverlog_update LOGSEVERITYERROR (what e) [] s'
            else logf serverlog_update LOGSEVERITYERROR
              ''Unknown exception occured during R2CP WebSocket server setup.'' [] s'
        | r \<Rightarrow> r)
       (\<lambda>_. logf serverlog_update LOGSEVERITYINFO ''Exiting R2CP packet reception thread.'' [])"

definition transmit_once :: "(server_state, unit) prog" where
  "transmit_once =
     catchM
       (bindM (onserverqueue popfromtransmissionqueue) (\<lambda>r2cppacket.
        let r2cppacketbase64 = base64_encode r2cppacket in
        bindM (getM hasconnection) (\<lambda>connected.
        if connected then
          bindM (getM operatorconnectionhandle) (\<lambda>hdl. ws_send hdl r2cppacketbase64)
        else ret ())))
       UnderflowError
       (\<lambda>e. logf serverlog_update LOGSEVERITYINFO (what e) [])"

text \<open>The loop with the number of times it finds \<open>isrunning\<close> set.\<close>

fun transmit_loop :: "nat \<Rightarrow> (server_state, unit) prog" where
  "transmit_loop 0 = ret ()"
| "transmit_loop (Suc n) = bindM transmit_once (\<lambda>_. transmit_loop n)"

definition transmitr2cppackettask :: "nat \<Rightarrow> (server_state, unit) prog" where
  "transmitr2cppackettask n =
     bindM (transmit_loop n) (\<lambda>_.
     logf serverlog_update LOGSEVERITYINFO ''Exiting R2CP packet transmission thread.'' [])"

subsection \<open>Starting and stopping\<close>

definition server_run :: "(server_state, unit) prog" where
  "server_run = modifyM (\<lambda>s. s\<lparr>server_isrunning := True, receptionthread := Thread,
     transmissionthread := Thread\<rparr>)"

definition join_thread :: "thread_ptr \<Rightarrow> (server_state, unit) prog" where
  "join_thread workingthread = (if workingthread = Thread then ret () else undefM)"

definition server_waituntilfinished :: "(server_state, unit) prog" where
  "server_waituntilfinished =
     bindM (getM receptionthread) (\<lambda>t1. bindM (join_thread t1) (\<lambda>_.
     bindM (getM transmissionthread) (\<lambda>t2. join_thread t2)))"

definition closewsserverconnections :: "(server_state, unit) prog" where
  "closewsserverconnections =
     bindM (getM hasconnection) (\<lambda>connected.
     if connected then
       bindM (getM operatorconnectionhandle) (\<lambda>hdl.
       bindM (get_con_from_hdl hdl) (\<lambda>con.
       bindM (con_close con going_away ''Goodbye!'') (\<lambda>_.
       modifyM (\<lambda>s. s\<lparr>hasconnection := False\<rparr>))))
     else ret ())"

definition server_halt :: "(server_state, unit) prog" where
  "server_halt =
     bindM (modifyM (\<lambda>s. s\<lparr>server_isrunning := False\<rparr>)) (\<lambda>_.
     bindM (getM transmissionthread) (\<lambda>t.
     bindM (case t of
         Uninitialised \<Rightarrow> undefM
       | Nullptr \<Rightarrow> ret ()
       | Thread \<Rightarrow> bindM (join_thread t) (\<lambda>_. modifyM (\<lambda>s. s\<lparr>transmissionthread := Nullptr\<rparr>))) (\<lambda>_.
     bindM (getM receptionthread) (\<lambda>r.
     case r of
         Uninitialised \<Rightarrow> undefM
       | Nullptr \<Rightarrow> ret ()
       | Thread \<Rightarrow>
           bindM stop_listening (\<lambda>_.
           bindM closewsserverconnections (\<lambda>_.
           bindM (join_thread r) (\<lambda>_.
           modifyM (\<lambda>s. s\<lparr>receptionthread := Nullptr\<rparr>))))))))"

subsection \<open>The handlers in closed form\<close>

lemma plain_messages:
  "convertformattostring ''Out of memory in reception queue.'' [] = Ret ''Out of memory in reception queue.''"
  "convertformattostring ''Operator has closed connection.'' [] = Ret ''Operator has closed connection.''"
  "convertformattostring ''Transmission queue has no R2CP packets to pop.'' [] =
     Ret ''Transmission queue has no R2CP packets to pop.''"
  by (rule convertformattostring_uint; simp)+

lemma onclose_eq:
  "onclose h s = (Ret (), s\<lparr>hasconnection := False,
     serverlog := serverlog s @ [(LOGSEVERITYINFO, ''Operator has closed connection.'')]\<rparr>)"
  by (cases s) (simp add: onclose_def modifyM_def bindM_def logf_def liftO_def plain_messages)

lemma onopen_eq:
  "onopen h s = (if hasconnection s then bindM (get_con_from_hdl (Some h))
       (\<lambda>con. con_close con try_again_later ''Other operator already connected!'') s
     else (Ret (), s\<lparr>operatorconnectionhandle := Some h, hasconnection := True\<rparr>))"
  by (simp add: onopen_def modifyM_def bindM_def getM_def)

lemma onmessage_eq:
  "\<exists>t. onmessage h payload s = (Ret (), t) \<and> serverqueue t = snd (pushtoreceptionqueue (base64_decode payload) (serverqueue s)) \<and>
     connections t = connections s \<and> hasconnection t = hasconnection s \<and>
     operatorconnectionhandle t = operatorconnectionhandle s"
proof -
  obtain q where q: "push_reception_section (base64_decode payload) (serverqueue s) = (Ret (), q)"
    using reception.push_section by blast
  show ?thesis
    by (simp add: onmessage_def Let_def onserverqueue_def zoomM_def catchM_def reception.push_eq q
        logf_def liftO_def bindM_def modifyM_def plain_messages)
qed

subsection \<open>Reachable states\<close>

inductive server_step :: "server_state \<Rightarrow> server_state \<Rightarrow> bool" where
  opened: "h \<notin> fst ` set (connections s) \<Longrightarrow> handle_event (Opened h) s = (Ret (), t) \<Longrightarrow> server_step s t"
| message: "handle_event (Message h payload) s = (Ret (), t) \<Longrightarrow> server_step s t"
| peercloses: "handle_event (PeerCloses h) s = (Ret (), t) \<Longrightarrow> server_step s t"
| closed: "h \<in> fst ` set (connections s) \<Longrightarrow> handle_event (Closed h) s = (Ret (), t) \<Longrightarrow> server_step s t"
| transmitted: "transmit_once s = (Ret (), t) \<Longrightarrow> server_step s t"
| response_queued: "onserverqueue (pushtotransmissionqueue p) s = (Ret (), t) \<Longrightarrow> server_step s t"
| packet_taken: "onserverqueue popfromreceptionqueue s = (Ret p, t) \<Longrightarrow> server_step s t"

inductive_cases server_stepE: "server_step s t"

definition server_start :: "server_state \<Rightarrow> bool" where
  "server_start s \<longleftrightarrow> (\<exists>timeout q. s = R2CPWebSocketServer_init_timeout timeout q)"

text \<open>While the server believes to have an operator, the operator's connection is alive.\<close>

definition operator_alive :: "server_state \<Rightarrow> bool" where
  "operator_alive s \<longleftrightarrow> distinct (map fst (connections s)) \<and>
     (hasconnection s \<longrightarrow> (\<exists>h. operatorconnectionhandle s = Some h \<and> h \<in> fst ` set (connections s)))"

lemma fst_close_map: "map fst (map (\<lambda>c. if fst c = h then (fst c, st) else c) cs) = map fst cs"
  by (induction cs) auto

lemma fst_close_image: "fst ` set (map (\<lambda>c. if fst c = h then (fst c, st) else c) cs) = fst ` set cs"
  using fst_close_map [of h st cs] by (metis set_map)

definition server_view :: "server_state \<Rightarrow> (connection_hdl \<times> session_state) list \<times> bool \<times> connection_hdl option" where
  "server_view s = (connections s, hasconnection s, operatorconnectionhandle s)"

lemma operator_alive_view: "server_view s = server_view t \<Longrightarrow> operator_alive s = operator_alive t"
  by (simp add: server_view_def operator_alive_def)

lemma keeps_server_queue [keeps_intros]: "keepsM server_view (onserverqueue m)"
  unfolding onserverqueue_def by (rule keepsM_zoomM) (simp add: server_view_def)

lemma keeps_server_log [keeps_intros]: "keepsM server_view (logf serverlog_update sev f args)"
  unfolding logf_def by (intro keeps_intros keepsM_modifyM) (simp add: server_view_def)

lemma keeps_ws_send [keeps_intros]: "keepsM server_view (ws_send hdl payload)"
proof -
  have "keepsM server_view (get_con_from_hdl hdl)"
    by (simp add: keepsM_def get_con_from_hdl_def split: option.splits)
  moreover have "keepsM server_view (modifyM (\<lambda>s. s\<lparr>sent := sent s @ [(h, payload)]\<rparr>))" for h
    by (rule keepsM_modifyM) (simp add: server_view_def)
  ultimately show ?thesis
    unfolding ws_send_def by (auto intro!: keeps_intros split: prod.splits)
qed

lemma keeps_transmit_once: "keepsM server_view transmit_once"
  unfolding transmit_once_def Let_def by (intro keeps_intros)

lemma keeps_message: "keepsM server_view (handle_event (Message h payload))"
  unfolding handle_event.simps onmessage_def Let_def by (intro keeps_intros)

lemma opened_result:
  assumes "operator_alive s" and "h \<notin> fst ` set (connections s)"
  shows "\<exists>t. handle_event (Opened h) s = (Ret (), t) \<and> operator_alive t"
proof (cases "hasconnection s")
  case True
  let ?s = "s\<lparr>connections := (h, Open) # connections s\<rparr>"
  have new: "h \<notin> set (map fst (connections s))" using assms(2) by simp
  have "get_con_from_hdl (Some h) ?s = (Ret (h, Open), ?s)"
    by (simp add: get_con_from_hdl_def)
  then show ?thesis
    using True assms new
    by (auto simp: modifyM_def bindM_def onopen_eq con_close_def operator_alive_def fst_close_map
        fst_close_image simp del: map_map set_map)
next
  case False
  with assms show ?thesis
    by (simp add: modifyM_def bindM_def onopen_eq operator_alive_def)
qed

lemma peercloses_result:
  "operator_alive s \<Longrightarrow> \<exists>t. handle_event (PeerCloses h) s = (Ret (), t) \<and> operator_alive t"
  by (simp add: modifyM_def operator_alive_def fst_close_map fst_close_image del: map_map set_map)

lemma closed_result:
  "operator_alive s \<Longrightarrow> \<exists>t. handle_event (Closed h) s = (Ret (), t) \<and> operator_alive t"
  by (simp add: bindM_def onclose_eq modifyM_def operator_alive_def distinct_map_filter)

lemma message_result: "operator_alive s \<Longrightarrow> \<exists>t. handle_event (Message h payload) s = (Ret (), t) \<and> operator_alive t"
  using onmessage_eq [of h payload s] by (force simp: bindM_def getM_def ret_def operator_alive_def)

lemma server_step_alive:
  assumes alive: "operator_alive s" and step: "server_step s t"
  shows "operator_alive t"
  using step
proof (cases rule: server_step.cases)
  case (opened h)
  then show ?thesis using opened_result [OF alive opened(1)] by simp
next
  case (message h payload)
  then show ?thesis using message_result [OF alive, of h payload] by simp
next
  case (peercloses h)
  then show ?thesis using peercloses_result [OF alive, of h] by simp
next
  case (closed h)
  then show ?thesis using closed_result [OF alive, of h] by simp
next
  case transmitted
  then show ?thesis using alive operator_alive_view keepsM_D [OF keeps_transmit_once] by blast
next
  case (response_queued p)
  then show ?thesis using alive operator_alive_view keepsM_D [OF keeps_server_queue] by blast
next
  case (packet_taken p)
  then show ?thesis using alive operator_alive_view keepsM_D [OF keeps_server_queue] by blast
qed

lemma server_start_alive: "server_start s \<Longrightarrow> operator_alive s"
  by (auto simp: server_start_def R2CPWebSocketServer_init_timeout_def operator_alive_def)

interpretation server: invariant server_start server_step operator_alive
  by unfold_locales (fact server_start_alive, fact server_step_alive)

subsection \<open>Transmission\<close>

lemma transmit_once_result:
  assumes "transmissionqueue (serverqueue s) = p # ps" and "length ps + 1 < 2 ^ 32"
  shows "\<exists>t q. serverqueue t = q \<and> transmissionqueue q = ps \<and>
    transmit_once s = (if hasconnection s then
        (case operatorconnectionhandle s of None \<Rightarrow> Throw bad_connection
         | Some h \<Rightarrow> (case map_of (connections s) h of None \<Rightarrow> Throw bad_connection
             | Some Open \<Rightarrow> Ret () | Some Closing \<Rightarrow> Throw invalid_state))
      else Ret (), t) \<and>
    sent t = (case operatorconnectionhandle s of
        Some h \<Rightarrow> if hasconnection s \<and> map_of (connections s) h = Some Open
                   then sent s @ [(h, base64_encode p)] else sent s
      | None \<Rightarrow> sent s)"
proof -
  have pos: "0 < size32 (transmissionqueue (serverqueue s))"
    using assms by (simp add: size32_pos_iff)
  obtain q where "popfromtransmissionqueue (serverqueue s) = (Ret p, q)" and "transmissionqueue q = ps"
    using transmission.pop_section_Cons [OF assms(1)] pos by (auto simp: transmission.pop_eq)
  then show ?thesis
    by (auto simp: transmit_once_def onserverqueue_def zoomM_def catchM_def bindM_def getM_def Let_def
        ws_send_def get_con_from_hdl_def ret_def throwM_def modifyM_def bad_connection_def invalid_state_def
        split: option.splits session_state.splits)
qed

subsection \<open>Halting\<close>

lemma server_halt_unstarted:
  "transmissionthread s = Uninitialised \<Longrightarrow> fst (server_halt s) = Undefined"
  by (simp add: server_halt_def modifyM_def bindM_def getM_def undefM_def)

lemma server_halt_result:
  assumes "transmissionthread s = Thread" and "receptionthread s = Thread"
  shows "fst (server_halt s) =
    (if \<not> listening s then Throw invalid_state
     else if hasconnection s then
       (case operatorconnectionhandle s of None \<Rightarrow> Throw bad_connection
        | Some h \<Rightarrow> (case map_of (connections s) h of None \<Rightarrow> Throw bad_connection
            | Some Open \<Rightarrow> Ret () | Some Closing \<Rightarrow> Throw invalid_state))
     else Ret ())"
  using assms
  by (auto simp: server_halt_def modifyM_def bindM_def getM_def join_thread_def stop_listening_def
      closewsserverconnections_def get_con_from_hdl_def con_close_def ret_def throwM_def
      split: option.splits session_state.splits)

end
