(* ===== verification/R2CPRuntimeBroker.thy ===== *)
theory R2CPRuntimeBroker
  imports R2CPPacketProcessor R2CPWebSocketServer
begin

text \<open>
  \<open>R2CPRuntimeBroker.hpp\<close> and \<open>R2CPRuntimeBroker.cpp\<close>: the object that owns the server and the
  packet processor, runs both until the user enters \<open>q\<close>, and halts them. The transceiver queue
  is a singleton, so the two components work on one queue: the broker's state holds it, and a
  step of a component runs on it.
\<close>

subsection \<open>State\<close>

record 'w broker =
  robotserver :: server_state
  packetprocessor :: "'w processor"
  singletonqueue :: transceiver_queue

definition R2CPRuntimeBroker_init_timeout :: "u32 \<Rightarrow> u32 \<Rightarrow> transceiver_queue \<Rightarrow> 'w \<Rightarrow> 'w broker" where
  "R2CPRuntimeBroker_init_timeout servertimeout processortimeout q w = \<lparr>
     robotserver = R2CPWebSocketServer_init_timeout servertimeout q,
     packetprocessor = R2CPPacketProcessor_init_timeout processortimeout q w,
     singletonqueue = q\<rparr>"

definition R2CPRuntimeBroker_init :: "transceiver_queue \<Rightarrow> 'w \<Rightarrow> 'w broker" where
  "R2CPRuntimeBroker_init q w = \<lparr>robotserver = R2CPWebSocketServer_init q,
     packetprocessor = R2CPPacketProcessor_init q w, singletonqueue = q\<rparr>"

definition onrobotserver :: "(server_state, 'a) prog \<Rightarrow> ('w broker, 'a) prog" where
  "onrobotserver = zoomM (\<lambda>b. robotserver b\<lparr>serverqueue := singletonqueue b\<rparr>)
     (\<lambda>s b. b\<lparr>robotserver := s, singletonqueue := serverqueue s\<rparr>)"

definition onpacketprocessor :: "('w processor, 'a) prog \<Rightarrow> ('w broker, 'a) prog" where
  "onpacketprocessor = zoomM (\<lambda>b. packetprocessor b\<lparr>transceiverqueue := singletonqueue b\<rparr>)
     (\<lambda>s b. b\<lparr>packetprocessor := s, singletonqueue := transceiverqueue s\<rparr>)"

definition getrobotserver :: "('w broker, server_state) prog" where
  "getrobotserver = onrobotserver (getM id)"

definition getpacketprocessor :: "('w broker, 'w processor) prog" where
  "getpacketprocessor = onpacketprocessor (getM id)"

subsection \<open>Running\<close>

text \<open>
  The loop on standard input, a list of words. At the end of the input \<open>operator>>\<close> fails
  without changing \<open>userinput\<close>, and the loop goes on. The result is the input left over,
  \<open>None\<close> when the loop never ends.
\<close>

partial_function (option) input_loop :: "string list \<Rightarrow> string \<Rightarrow> string list option" where
  "input_loop input userinput =
     (if userinput \<noteq> ''q'' then
        (case input of
           [] \<Rightarrow> input_loop [] userinput
         | word # rest \<Rightarrow> input_loop rest word)
      else Some input)"

definition broker_halt :: "('w broker, unit) prog" where
  "broker_halt =
     bindM (onpacketprocessor processor_halt) (\<lambda>_. onrobotserver server_halt)"

definition R2CPRuntimeBroker_destroy :: "('w broker, unit) prog" where
  "R2CPRuntimeBroker_destroy = broker_halt"

text \<open>
  What the threads do while the main thread reads its input is a sequence of rounds of the
  three threads, in any order. Without \<open>ServerStarts\<close> the endpoint could not be set up (the
  port is taken, say), and the reception thread has ended.
\<close>

datatype thread_round = ServerStarts | ServerEvent ws_event | TransmitRound | ProcessRound

fun thread_step :: "'w robot_modules \<Rightarrow> thread_round \<Rightarrow> ('w broker, unit) prog" where
  "thread_step mods ServerStarts = onrobotserver receiver_start"
| "thread_step mods (ServerEvent e) = onrobotserver (handle_event e)"
| "thread_step mods TransmitRound = onrobotserver transmit_once"
| "thread_step mods ProcessRound = onpacketprocessor (executetask mods)"

fun thread_steps :: "'w robot_modules \<Rightarrow> thread_round list \<Rightarrow> ('w broker, unit) prog" where
  "thread_steps mods [] = ret ()"
| "thread_steps mods (r # rs) = bindM (thread_step mods r) (\<lambda>_. thread_steps mods rs)"

definition broker_run :: "'w robot_modules \<Rightarrow> thread_round list \<Rightarrow> string list \<Rightarrow> 'w broker
    \<Rightarrow> (unit outcome \<times> 'w broker) option" where
  "broker_run mods rounds input b =
     (case input_loop input [] of
        None \<Rightarrow> None
      | Some _ \<Rightarrow> Some
          (bindM (onrobotserver server_run) (\<lambda>_.
           bindM (onpacketprocessor processor_run) (\<lambda>_.
           bindM (thread_steps mods rounds) (\<lambda>_.
           broker_halt))) b))"

subsection \<open>The loop on standard input\<close>

lemma input_loop_q: "''q'' \<in> set input \<Longrightarrow> input_loop input w =
   Some (if w = ''q'' then input else tl (dropWhile (\<lambda>x. x \<noteq> ''q'') input))"
proof (induction input arbitrary: w)
  case (Cons x xs)
  show ?case
  proof (cases "x = ''q''")
    case True
    then show ?thesis by (simp add: input_loop.simps)
  next
    case False
    with Cons show ?thesis by (subst input_loop.simps) simp
  qed
qed simp

lemma input_loop_SomeD: "input_loop input w = Some r \<Longrightarrow> w = ''q'' \<or> ''q'' \<in> set input"
proof (rule input_loop.raw_induct [where P = "\<lambda>input w r. w = ''q'' \<or> ''q'' \<in> set input"])
  fix f :: "string list \<Rightarrow> string \<Rightarrow> string list option" and input w r
  assume "\<And>input w r. f input w = Some r \<Longrightarrow> w = ''q'' \<or> ''q'' \<in> set input"
    and "(if w \<noteq> ''q'' then (case input of [] \<Rightarrow> f [] w | word # rest \<Rightarrow> f rest word) else Some input) = Some r"
  then show "w = ''q'' \<or> ''q'' \<in> set input" by (fastforce split: if_splits list.splits)
qed

lemma input_loop_returns_iff: "(\<exists>rest. input_loop input [] = Some rest) \<longleftrightarrow> ''q'' \<in> set input"
  using input_loop_q [of input "[]"] input_loop_SomeD [of input "[]"] by auto

subsection \<open>No response ever reaches an operator\<close>

definition silent :: "'w broker \<Rightarrow> bool" where
  "silent b \<longleftrightarrow> transmissionqueue (singletonqueue b) = [] \<and> sent (robotserver b) = []"

definition server_silent :: "server_state \<Rightarrow> bytes list \<times> (connection_hdl \<times> string) list" where
  "server_silent s = (transmissionqueue (serverqueue s), sent s)"

lemma keeps_silent_log: "keepsM server_silent (logf serverlog_update sev f args)"
  unfolding logf_def by (intro keeps_intros keepsM_modifyM) (simp add: server_silent_def)

lemma keeps_silent_push: "keepsM server_silent (onserverqueue (pushtoreceptionqueue p))"
  unfolding onserverqueue_def
  by (rule keepsM_zoomM) (auto simp: server_silent_def queue_defs bindM_def getM_def modifyM_def throwM_def)

lemma keeps_silent_close: "keepsM server_silent (con_close con code reason)"
  unfolding con_close_def by (intro keeps_intros keepsM_modifyM) (simp add: server_silent_def)

lemma keeps_silent_con: "keepsM server_silent (get_con_from_hdl hdl)"
  by (simp add: keepsM_def get_con_from_hdl_def split: option.splits)

lemma keeps_silent_event: "keepsM server_silent (handle_event e)"
  by (cases e; simp only: handle_event.simps onopen_def onmessage_def onclose_def Let_def;
      intro keeps_intros keeps_silent_log keeps_silent_push keeps_silent_close keeps_silent_con keepsM_modifyM)
    (simp_all add: server_silent_def)

lemma transmit_once_empty:
  assumes "transmissionqueue (serverqueue s) = []"
  shows "transmit_once s = (Ret (), s\<lparr>serverlog := serverlog s @
    [(LOGSEVERITYINFO, ''Transmission queue has no R2CP packets to pop.'')]\<rparr>)"
  using assms
  by (cases s) (simp add: transmit_once_def onserverqueue_def zoomM_def catchM_def bindM_def
      transmission.pop_eq logf_def plain_messages liftO_def modifyM_def)

lemma thread_step_silent: "silent b \<Longrightarrow> silent (snd (thread_step mods r b))"
proof (cases r)
  case ServerStarts
  have start: "keepsM server_silent receiver_start"
    unfolding receiver_start_def
    by (intro keeps_intros keeps_silent_log keepsM_modifyM) (simp add: server_silent_def)
  assume "silent b"
  then show ?thesis
    using keepsM_D [OF start, of "robotserver b\<lparr>serverqueue := singletonqueue b\<rparr>"]
    by (auto simp: ServerStarts silent_def onrobotserver_def zoomM_def server_silent_def split: prod.splits)
next
  case (ServerEvent e)
  assume "silent b"
  then show ?thesis
    using keepsM_D [OF keeps_silent_event, of e "robotserver b\<lparr>serverqueue := singletonqueue b\<rparr>"]
    by (auto simp: ServerEvent silent_def onrobotserver_def zoomM_def server_silent_def split: prod.splits)
next
  case TransmitRound
  assume "silent b"
  then show ?thesis
    by (simp add: TransmitRound silent_def onrobotserver_def zoomM_def transmit_once_empty)
next
  case ProcessRound
  assume "silent b"
  then show ?thesis
    using keepsM_D [OF keeps_executetask, of mods "packetprocessor b\<lparr>transceiverqueue := singletonqueue b\<rparr>"]
    by (auto simp: ProcessRound silent_def onpacketprocessor_def zoomM_def split: prod.splits)
qed

lemma thread_steps_silent: "silent b \<Longrightarrow> silent (snd (thread_steps mods rs b))"
proof (induction rs arbitrary: b)
  case (Cons r rs)
  have "silent (snd (thread_step mods r b))" using Cons.prems by (rule thread_step_silent)
  with Cons.IH show ?case by (auto simp: bindM_def split: prod.splits outcome.splits)
qed (simp add: ret_def)

subsection \<open>Halting\<close>

lemma broker_halt_unstarted: "fst (broker_halt (R2CPRuntimeBroker_init q w)) = Undefined"
  by (simp add: broker_halt_def onpacketprocessor_def zoomM_def processor_halt_eq R2CPRuntimeBroker_init_def
      R2CPPacketProcessor_init_def R2CPPacketProcessor_init_timeout_def bindM_def)

lemma broker_halt_result:
  assumes "packetprocessorthread (packetprocessor b) = Thread"
    and "transmissionthread (robotserver b) = Thread" and "receptionthread (robotserver b) = Thread"
  shows "fst (broker_halt b) =
    (if \<not> listening (robotserver b) then Throw invalid_state
     else if hasconnection (robotserver b) then
       (case operatorconnectionhandle (robotserver b) of None \<Rightarrow> Throw bad_connection
        | Some h \<Rightarrow> (case map_of (connections (robotserver b)) h of None \<Rightarrow> Throw bad_connection
            | Some Open \<Rightarrow> Ret () | Some Closing \<Rightarrow> Throw invalid_state))
     else Ret ())"
  using server_halt_result [of "robotserver b\<lparr>serverqueue := singletonqueue b\<rparr>"] assms
  by (cases "server_halt (robotserver b\<lparr>serverqueue := singletonqueue b\<rparr>)")
    (simp add: broker_halt_def onpacketprocessor_def onrobotserver_def zoomM_def processor_halt_eq bindM_def
      cong: option.case_cong)

end
