(* ===== verification/Ws_Error.thy ===== *)
theory Ws_Error
  imports R2CP_Prelude
begin

text \<open>
  The error codes of the WebSocket library: \<open>WebSocketPP/websocketpp/error.hpp\<close> and those of
  \<open>processors/base.hpp\<close>, the extensions and the transports. A \<open>lib::error_code\<close> pairs a category with a value; the pairs the
  modelled code builds are the constructors of \<open>error_code\<close>, the default-constructed one
  (no error) included.
\<close>

subsection \<open>Library errors\<close>

datatype ws_error =
    WE_general
  | WE_send_queue_full
  | WE_payload_violation
  | WE_endpoint_not_secure
  | WE_endpoint_unavailable
  | WE_invalid_uri
  | WE_no_outgoing_buffers
  | WE_no_incoming_buffers
  | WE_invalid_state
  | WE_bad_close_code
  | WE_reserved_close_code
  | WE_invalid_close_code
  | WE_invalid_utf8
  | WE_invalid_subprotocol
  | WE_bad_connection
  | WE_test
  | WE_con_creation_failed
  | WE_unrequested_subprotocol
  | WE_client_only
  | WE_server_only
  | WE_http_connection_ended
  | WE_open_handshake_timeout
  | WE_close_handshake_timeout
  | WE_invalid_port
  | WE_async_accept_not_listening
  | WE_operation_canceled
  | WE_rejected
  | WE_upgrade_required
  | WE_invalid_version
  | WE_unsupported_version
  | WE_http_parse_error
  | WE_extension_neg_failed

primrec ws_error_message :: "ws_error \<Rightarrow> string" where
  "ws_error_message WE_general = ''Generic error''"
| "ws_error_message WE_send_queue_full = ''send queue full''"
| "ws_error_message WE_payload_violation = ''payload violation''"
| "ws_error_message WE_endpoint_not_secure = ''endpoint not secure''"
| "ws_error_message WE_endpoint_unavailable = ''endpoint not available''"
| "ws_error_message WE_invalid_uri = ''invalid uri''"
| "ws_error_message WE_no_outgoing_buffers = ''no outgoing message buffers''"
| "ws_error_message WE_no_incoming_buffers = ''no incoming message buffers''"
| "ws_error_message WE_invalid_state = ''invalid state''"
| "ws_error_message WE_bad_close_code = ''Unable to extract close code''"
| "ws_error_message WE_reserved_close_code = ''Extracted close code is in a reserved range''"
| "ws_error_message WE_invalid_close_code = ''Extracted close code is in an invalid range''"
| "ws_error_message WE_invalid_utf8 = ''Invalid UTF-8''"
| "ws_error_message WE_invalid_subprotocol = ''Invalid subprotocol''"
| "ws_error_message WE_bad_connection = ''Bad Connection''"
| "ws_error_message WE_test = ''Test Error''"
| "ws_error_message WE_con_creation_failed = ''Connection creation attempt failed''"
| "ws_error_message WE_unrequested_subprotocol = ''Selected subprotocol was not requested by the client''"
| "ws_error_message WE_client_only = ''Feature not available on server endpoints''"
| "ws_error_message WE_server_only = ''Feature not available on client endpoints''"
| "ws_error_message WE_http_connection_ended = ''HTTP connection ended''"
| "ws_error_message WE_open_handshake_timeout = ''The opening handshake timed out''"
| "ws_error_message WE_close_handshake_timeout = ''The closing handshake timed out''"
| "ws_error_message WE_invalid_port = ''Invalid URI port''"
| "ws_error_message WE_async_accept_not_listening = ''Async Accept not listening''"
| "ws_error_message WE_operation_canceled = ''Operation canceled''"
| "ws_error_message WE_rejected = ''Connection rejected''"
| "ws_error_message WE_upgrade_required = ''Upgrade required''"
| "ws_error_message WE_invalid_version = ''Invalid version''"
| "ws_error_message WE_unsupported_version = ''Unsupported version''"
| "ws_error_message WE_http_parse_error = ''HTTP parse error''"
| "ws_error_message WE_extension_neg_failed = ''Extension negotiation failed''"

subsection \<open>Processor errors\<close>

datatype processor_error =
    PE_general
  | PE_bad_request
  | PE_protocol_violation
  | PE_message_too_big
  | PE_invalid_payload
  | PE_invalid_arguments
  | PE_invalid_opcode
  | PE_control_too_big
  | PE_invalid_rsv_bit
  | PE_fragmented_control
  | PE_invalid_continuation
  | PE_masking_required
  | PE_masking_forbidden
  | PE_non_minimal_encoding
  | PE_requires_64bit
  | PE_invalid_utf8
  | PE_not_implemented
  | PE_invalid_http_method
  | PE_invalid_http_version
  | PE_invalid_http_status
  | PE_missing_required_header
  | PE_sha1_library
  | PE_no_protocol_support
  | PE_reserved_close_code
  | PE_invalid_close_code
  | PE_reason_requires_code
  | PE_subprotocol_parse_error
  | PE_extension_parse_error
  | PE_extensions_disabled
  | PE_short_key3

primrec processor_error_message :: "processor_error \<Rightarrow> string" where
  "processor_error_message PE_general = ''Generic processor error''"
| "processor_error_message PE_bad_request = ''invalid user input''"
| "processor_error_message PE_protocol_violation = ''Generic protocol violation''"
| "processor_error_message PE_message_too_big = ''A message was too large''"
| "processor_error_message PE_invalid_payload = ''A payload contained invalid data''"
| "processor_error_message PE_invalid_arguments = ''invalid function arguments''"
| "processor_error_message PE_invalid_opcode = ''invalid opcode''"
| "processor_error_message PE_control_too_big = ''Control messages are limited to fewer than 125 characters''"
| "processor_error_message PE_invalid_rsv_bit = ''Invalid use of reserved bits''"
| "processor_error_message PE_fragmented_control = ''Control messages cannot be fragmented''"
| "processor_error_message PE_invalid_continuation = ''Invalid message continuation''"
| "processor_error_message PE_masking_required = ''Clients may not send unmasked frames''"
| "processor_error_message PE_masking_forbidden = ''Servers may not send masked frames''"
| "processor_error_message PE_non_minimal_encoding = ''Payload length was not minimally encoded''"
| "processor_error_message PE_requires_64bit = ''64 bit frames are not supported on 32 bit systems''"
| "processor_error_message PE_invalid_utf8 = ''Invalid UTF8 encoding''"
| "processor_error_message PE_not_implemented = ''Operation required not implemented functionality''"
| "processor_error_message PE_invalid_http_method = ''Invalid HTTP method.''"
| "processor_error_message PE_invalid_http_version = ''Invalid HTTP version.''"
| "processor_error_message PE_invalid_http_status = ''Invalid HTTP status.''"
| "processor_error_message PE_missing_required_header = ''A required HTTP header is missing''"
| "processor_error_message PE_sha1_library = ''SHA-1 library error''"
| "processor_error_message PE_no_protocol_support = ''The WebSocket protocol version in use does not support this feature''"
| "processor_error_message PE_reserved_close_code = ''Reserved close code used''"
| "processor_error_message PE_invalid_close_code = ''Invalid close code used''"
| "processor_error_message PE_reason_requires_code = ''Using a close reason requires a valid close code''"
| "processor_error_message PE_subprotocol_parse_error = ''Error parsing subprotocol header''"
| "processor_error_message PE_extension_parse_error = ''Error parsing extension header''"
| "processor_error_message PE_extensions_disabled = ''Extensions are disabled''"
| "processor_error_message PE_short_key3 = ''Short Hybi00 Key 3 read''"

subsection \<open>Error codes\<close>

text \<open>\<open>extensions/extension.hpp\<close>.\<close>

datatype extension_error = XE_general | XE_disabled

primrec extension_error_message :: "extension_error \<Rightarrow> string" where
  "extension_error_message XE_general = ''Generic extension error''"
| "extension_error_message XE_disabled = ''Use of methods from disabled extension''"

subsection \<open>Transport errors\<close>

text \<open>\<open>transport/base/connection.hpp\<close>.\<close>

datatype transport_error =
    TE_general
  | TE_pass_through
  | TE_invalid_num_bytes
  | TE_double_read
  | TE_operation_aborted
  | TE_operation_not_supported
  | TE_eof
  | TE_tls_short_read
  | TE_timeout
  | TE_action_after_shutdown
  | TE_tls_error

fun transport_error_message :: "transport_error \<Rightarrow> string" where
  "transport_error_message TE_general = ''Generic transport policy error''"
| "transport_error_message TE_pass_through = ''Underlying Transport Error''"
| "transport_error_message TE_invalid_num_bytes = ''async_read_at_least call requested more bytes than buffer can store''"
| "transport_error_message TE_operation_aborted = ''The operation was aborted''"
| "transport_error_message TE_operation_not_supported = ''The operation is not supported by this transport''"
| "transport_error_message TE_eof = ''End of File''"
| "transport_error_message TE_tls_short_read = ''TLS Short Read''"
| "transport_error_message TE_timeout = ''Timer Expired''"
| "transport_error_message TE_action_after_shutdown = ''A transport action was requested after shutdown''"
| "transport_error_message TE_tls_error = ''Generic TLS related error''"
| "transport_error_message TE_double_read = ''Unknown''"

datatype error_code = NoError | WsError ws_error | ProcessorError processor_error
  | ExtensionError extension_error | TransportError transport_error

definition has_error :: "error_code \<Rightarrow> bool" where
  "has_error ec \<longleftrightarrow> ec \<noteq> NoError"

text \<open>The enumerations number their members from 1, so that no member is the value of success.\<close>

definition ws_errors :: "ws_error list" where
  "ws_errors =
    [WE_general, WE_send_queue_full, WE_payload_violation, WE_endpoint_not_secure,
     WE_endpoint_unavailable, WE_invalid_uri, WE_no_outgoing_buffers, WE_no_incoming_buffers,
     WE_invalid_state, WE_bad_close_code, WE_reserved_close_code, WE_invalid_close_code,
     WE_invalid_utf8, WE_invalid_subprotocol, WE_bad_connection, WE_test,
     WE_con_creation_failed, WE_unrequested_subprotocol, WE_client_only, WE_server_only,
     WE_http_connection_ended, WE_open_handshake_timeout, WE_close_handshake_timeout, WE_invalid_port,
     WE_async_accept_not_listening, WE_operation_canceled, WE_rejected, WE_upgrade_required,
     WE_invalid_version, WE_unsupported_version, WE_http_parse_error, WE_extension_neg_failed]"

definition processor_errors :: "processor_error list" where
  "processor_errors =
    [PE_general, PE_bad_request, PE_protocol_violation, PE_message_too_big,
     PE_invalid_payload, PE_invalid_arguments, PE_invalid_opcode, PE_control_too_big,
     PE_invalid_rsv_bit, PE_fragmented_control, PE_invalid_continuation, PE_masking_required,
     PE_masking_forbidden, PE_non_minimal_encoding, PE_requires_64bit, PE_invalid_utf8,
     PE_not_implemented, PE_invalid_http_method, PE_invalid_http_version, PE_invalid_http_status,
     PE_missing_required_header, PE_sha1_library, PE_no_protocol_support, PE_reserved_close_code,
     PE_invalid_close_code, PE_reason_requires_code, PE_subprotocol_parse_error, PE_extension_parse_error,
     PE_extensions_disabled, PE_short_key3]"

fun index_from :: "int \<Rightarrow> 'a list \<Rightarrow> 'a \<Rightarrow> int" where
  "index_from n [] y = 0"
| "index_from n (x # xs) y = (if x = y then n else index_from (n + 1) xs y)"

definition transport_errors :: "transport_error list" where
  "transport_errors =
    [TE_general, TE_pass_through, TE_invalid_num_bytes, TE_double_read, TE_operation_aborted,
     TE_operation_not_supported, TE_eof, TE_tls_short_read, TE_timeout, TE_action_after_shutdown,
     TE_tls_error]"

definition error_value :: "error_code \<Rightarrow> int" where
  "error_value ec =
     (case ec of
        NoError \<Rightarrow> 0
      | WsError e \<Rightarrow> index_from 1 ws_errors e
      | ProcessorError e \<Rightarrow> index_from 1 processor_errors e
      | ExtensionError e \<Rightarrow> (case e of XE_general \<Rightarrow> 1 | XE_disabled \<Rightarrow> 2)
      | TransportError e \<Rightarrow> index_from 1 transport_errors e)"

definition error_message :: "error_code \<Rightarrow> string" where
  "error_message ec =
     (case ec of
        NoError \<Rightarrow> ''Success''
      | WsError e \<Rightarrow> ws_error_message e
      | ProcessorError e \<Rightarrow> processor_error_message e
      | ExtensionError e \<Rightarrow> extension_error_message e
      | TransportError e \<Rightarrow> transport_error_message e)"

lemma index_from_positive: "0 < n \<Longrightarrow> y \<in> set xs \<Longrightarrow> 0 < index_from n xs y"
  by (induction xs arbitrary: n) auto

lemma ws_errors_complete: "e \<in> set ws_errors"
  by (cases e) (simp_all add: ws_errors_def)

lemma processor_errors_complete: "e \<in> set processor_errors"
  by (cases e) (simp_all add: processor_errors_def)

lemma transport_errors_complete: "e \<in> set transport_errors"
  by (cases e) (simp_all add: transport_errors_def)

lemma error_value_zero: "error_value ec = 0 \<longleftrightarrow> \<not> has_error ec"
  using index_from_positive [OF _ ws_errors_complete, of 1] index_from_positive [OF _ processor_errors_complete, of 1]
    index_from_positive [OF _ transport_errors_complete, of 1]
  by (auto simp: error_value_def has_error_def split: error_code.splits extension_error.splits) (metis less_irrefl zero_less_one)+

end
