(* ===== verification/Ws_Frame.thy ===== *)
theory Ws_Frame
  imports R2CP_Prelude
begin

text \<open>
  \<open>WebSocketPP/websocketpp/frame.hpp\<close> and the byte-order functions of
  \<open>common/network.hpp\<close>: the two parts of a WebSocket frame header, their accessors, and the
  masking routines. The unions that overlay an integer on its bytes are read through
  \<open>word_bytes\<close> and \<open>bytes_word\<close>, whose argument \<open>le\<close> says whether the host is little-endian;
  every theorem holds for both orders. \<open>size_t\<close> has 64 bits. The masking key, a union, is the
  list of its four bytes. A masking routine returns the bytes it writes to \<open>output\<close>, which
  may be \<open>input\<close>: a word or byte is written only after it was read.
\<close>

subsection \<open>Integers over bytes\<close>

definition word_bytes :: "bool \<Rightarrow> nat \<Rightarrow> 'a::len word \<Rightarrow> bytes" where
  "word_bytes le n w =
     (let c = map (\<lambda>i. ucast (drop_bit (8 * i) w)) [0..<n] in if le then c else rev c)"

fun le_word :: "bytes \<Rightarrow> 'a::len word" where
  "le_word [] = 0"
| "le_word (b # bs) = ucast b OR push_bit 8 (le_word bs)"

definition bytes_word :: "bool \<Rightarrow> bytes \<Rightarrow> 'a::len word" where
  "bytes_word le c = le_word (if le then c else rev c)"

definition htonll :: "bool \<Rightarrow> u64 \<Rightarrow> u64" where
  "htonll le src =
     (if \<not> le then src
      else let c = word_bytes le 8 src
           in bytes_word le [c ! 7, c ! 6, c ! 5, c ! 4, c ! 3, c ! 2, c ! 1, c ! 0])"

definition ntohll :: "bool \<Rightarrow> u64 \<Rightarrow> u64" where
  "ntohll le src = htonll le src"

definition ntohs :: "bool \<Rightarrow> u16 \<Rightarrow> u16" where
  "ntohs le src =
     (if \<not> le then src else let c = word_bytes le 2 src in bytes_word le [c ! 1, c ! 0])"

text \<open>\<open>std::copy(xs.begin(), xs.end(), dst + off)\<close>.\<close>

definition copy_at :: "nat \<Rightarrow> 'a list \<Rightarrow> 'a list \<Rightarrow> 'a list" where
  "copy_at off xs dst = take off dst @ xs @ drop (off + length xs) dst"

subsection \<open>Opcodes, limits and masks\<close>

definition BASIC_HEADER_LENGTH :: nat where "BASIC_HEADER_LENGTH = 2"
definition MAX_HEADER_LENGTH :: nat where "MAX_HEADER_LENGTH = 14"
definition MAX_EXTENDED_HEADER_LENGTH :: nat where "MAX_EXTENDED_HEADER_LENGTH = 12"

type_synonym opcode = int

definition op_continuation :: opcode where "op_continuation = 0x0"
definition op_text :: opcode where "op_text = 0x1"
definition op_binary :: opcode where "op_binary = 0x2"
definition op_rsv3 :: opcode where "op_rsv3 = 0x3"
definition op_rsv7 :: opcode where "op_rsv7 = 0x7"
definition op_close :: opcode where "op_close = 0x8"
definition op_ping :: opcode where "op_ping = 0x9"
definition op_pong :: opcode where "op_pong = 0xA"
definition op_control_rsvb :: opcode where "op_control_rsvb = 0xB"
definition op_control_rsvf :: opcode where "op_control_rsvf = 0xF"

lemmas opcode_defs = op_continuation_def op_text_def op_binary_def op_rsv3_def op_rsv7_def
  op_close_def op_ping_def op_pong_def op_control_rsvb_def op_control_rsvf_def

definition opcode_reserved :: "opcode \<Rightarrow> bool" where
  "opcode_reserved v \<longleftrightarrow> (v \<ge> op_rsv3 \<and> v \<le> op_rsv7) \<or> (v \<ge> op_control_rsvb \<and> v \<le> op_control_rsvf)"

definition opcode_invalid :: "opcode \<Rightarrow> bool" where
  "opcode_invalid v \<longleftrightarrow> v > 0xF \<or> v < 0"

definition opcode_is_control :: "opcode \<Rightarrow> bool" where
  "opcode_is_control v \<longleftrightarrow> v \<ge> 0x8"

definition payload_size_basic :: u8 where "payload_size_basic = 125"
definition payload_size_extended :: u16 where "payload_size_extended = 0xFFFF"
definition payload_size_jumbo :: u64 where "payload_size_jumbo = 0x7FFFFFFFFFFFFFFF"
definition close_reason_size :: u8 where "close_reason_size = 123"

definition BHB0_OPCODE :: u8 where "BHB0_OPCODE = 0x0F"
definition BHB0_RSV3 :: u8 where "BHB0_RSV3 = 0x10"
definition BHB0_RSV2 :: u8 where "BHB0_RSV2 = 0x20"
definition BHB0_RSV1 :: u8 where "BHB0_RSV1 = 0x40"
definition BHB0_FIN :: u8 where "BHB0_FIN = 0x80"
definition BHB1_PAYLOAD :: u8 where "BHB1_PAYLOAD = 0x7F"
definition BHB1_MASK :: u8 where "BHB1_MASK = 0x80"
definition payload_size_code_16bit :: u8 where "payload_size_code_16bit = 0x7E"
definition payload_size_code_64bit :: u8 where "payload_size_code_64bit = 0x7F"

lemmas frame_masks = BHB0_OPCODE_def BHB0_RSV3_def BHB0_RSV2_def BHB0_RSV1_def BHB0_FIN_def
  BHB1_PAYLOAD_def BHB1_MASK_def

lemmas frame_sizes = payload_size_basic_def payload_size_extended_def payload_size_code_16bit_def
  payload_size_code_64bit_def

subsection \<open>The basic header\<close>

record basic_header =
  b0 :: u8
  b1 :: u8

definition basic_size_code :: "u64 \<Rightarrow> u8" where
  "basic_size_code sz =
     (if sz \<le> ucast payload_size_basic then ucast sz
      else if sz \<le> ucast payload_size_extended then payload_size_code_16bit
      else payload_size_code_64bit)"

definition basic_header_of ::
  "opcode \<Rightarrow> u64 \<Rightarrow> bool \<Rightarrow> bool \<Rightarrow> bool \<Rightarrow> bool \<Rightarrow> bool \<Rightarrow> basic_header" where
  "basic_header_of op sz fin masked rsv1 rsv2 rsv3 =
     (let x = 0;
          x = (if fin then x OR BHB0_FIN else x);
          x = (if rsv1 then x OR BHB0_RSV1 else x);
          x = (if rsv2 then x OR BHB0_RSV2 else x);
          x = (if rsv3 then x OR BHB0_RSV3 else x);
          x = x OR (word_of_int op AND BHB0_OPCODE);
          y = 0;
          y = (if masked then y OR BHB1_MASK else y);
          y = y OR basic_size_code sz
      in \<lparr>b0 = x, b1 = y\<rparr>)"

definition get_fin :: "basic_header \<Rightarrow> bool" where
  "get_fin h \<longleftrightarrow> b0 h AND BHB0_FIN = BHB0_FIN"

definition set_fin :: "bool \<Rightarrow> basic_header \<Rightarrow> basic_header" where
  "set_fin value h = h\<lparr>b0 := (if value then b0 h OR BHB0_FIN else b0 h AND NOT BHB0_FIN)\<rparr>"

definition get_rsv1 :: "basic_header \<Rightarrow> bool" where
  "get_rsv1 h \<longleftrightarrow> b0 h AND BHB0_RSV1 = BHB0_RSV1"

definition set_rsv1 :: "bool \<Rightarrow> basic_header \<Rightarrow> basic_header" where
  "set_rsv1 value h = h\<lparr>b0 := (if value then b0 h OR BHB0_RSV1 else b0 h AND NOT BHB0_RSV1)\<rparr>"

definition get_rsv2 :: "basic_header \<Rightarrow> bool" where
  "get_rsv2 h \<longleftrightarrow> b0 h AND BHB0_RSV2 = BHB0_RSV2"

definition set_rsv2 :: "bool \<Rightarrow> basic_header \<Rightarrow> basic_header" where
  "set_rsv2 value h = h\<lparr>b0 := (if value then b0 h OR BHB0_RSV2 else b0 h AND NOT BHB0_RSV2)\<rparr>"

definition get_rsv3 :: "basic_header \<Rightarrow> bool" where
  "get_rsv3 h \<longleftrightarrow> b0 h AND BHB0_RSV3 = BHB0_RSV3"

definition set_rsv3 :: "bool \<Rightarrow> basic_header \<Rightarrow> basic_header" where
  "set_rsv3 value h = h\<lparr>b0 := (if value then b0 h OR BHB0_RSV3 else b0 h AND NOT BHB0_RSV3)\<rparr>"

definition get_opcode :: "basic_header \<Rightarrow> opcode" where
  "get_opcode h = uint (b0 h AND BHB0_OPCODE)"

definition get_masked :: "basic_header \<Rightarrow> bool" where
  "get_masked h \<longleftrightarrow> b1 h AND BHB1_MASK = BHB1_MASK"

definition set_masked :: "bool \<Rightarrow> basic_header \<Rightarrow> basic_header" where
  "set_masked value h = h\<lparr>b1 := (if value then b1 h OR BHB1_MASK else b1 h AND NOT BHB1_MASK)\<rparr>"

definition get_basic_size :: "basic_header \<Rightarrow> u8" where
  "get_basic_size h = b1 h AND BHB1_PAYLOAD"

definition get_masking_key_offset :: "basic_header \<Rightarrow> nat" where
  "get_masking_key_offset h =
     (if get_basic_size h = payload_size_code_16bit then 2
      else if get_basic_size h = payload_size_code_64bit then 8
      else 0)"

definition get_header_len :: "basic_header \<Rightarrow> nat" where
  "get_header_len h =
     (let sz = BASIC_HEADER_LENGTH + get_masking_key_offset h
      in if get_masked h then sz + 4 else sz)"

subsection \<open>The extended header\<close>

definition extended_header_none :: bytes where
  "extended_header_none = replicate MAX_EXTENDED_HEADER_LENGTH 0"

definition copy_payload :: "bool \<Rightarrow> u64 \<Rightarrow> bytes \<Rightarrow> nat \<times> bytes" where
  "copy_payload le payload_size e =
     (let payload_offset =
            (if payload_size \<le> ucast payload_size_basic then 8
             else if payload_size \<le> ucast payload_size_extended then 6
             else 0);
          c = word_bytes le 8 (htonll le payload_size)
      in (8 - payload_offset, copy_at 0 (drop payload_offset c) e))"

definition extended_header :: "bool \<Rightarrow> u64 \<Rightarrow> bytes" where
  "extended_header le payload_size = snd (copy_payload le payload_size extended_header_none)"

definition extended_header_masked :: "bool \<Rightarrow> u64 \<Rightarrow> bytes \<Rightarrow> bytes" where
  "extended_header_masked le payload_size masking_key =
     (case copy_payload le payload_size extended_header_none of
        (offset, e) \<Rightarrow> copy_at offset (take 4 masking_key) e)"

definition prepare_header :: "basic_header \<Rightarrow> bytes \<Rightarrow> bytes" where
  "prepare_header h e = [b0 h, b1 h] @ take (get_header_len h - BASIC_HEADER_LENGTH) e"

definition get_masking_key :: "basic_header \<Rightarrow> bytes \<Rightarrow> bytes" where
  "get_masking_key h e =
     (if \<not> get_masked h then replicate 4 0
      else take 4 (drop (get_masking_key_offset h) e))"

definition get_extended_size :: "bool \<Rightarrow> bytes \<Rightarrow> u16" where
  "get_extended_size le e = ntohs le (bytes_word le (take 2 e))"

definition get_jumbo_size :: "bool \<Rightarrow> bytes \<Rightarrow> u64" where
  "get_jumbo_size le e = ntohll le (bytes_word le (take 8 e))"

definition get_payload_size :: "bool \<Rightarrow> basic_header \<Rightarrow> bytes \<Rightarrow> u64" where
  "get_payload_size le h e =
     (let val = get_basic_size h in
      if val \<le> payload_size_basic then ucast val
      else if val = payload_size_code_16bit then ucast (get_extended_size le e)
      else get_jumbo_size le e)"

subsection \<open>Masking\<close>

definition prepare_masking_key :: "bool \<Rightarrow> bytes \<Rightarrow> u64" where
  "prepare_masking_key le key =
     (let low_bits = (ucast (bytes_word le key :: u32) :: u64)
      in push_bit 32 low_bits OR low_bits)"

definition circshift_prepared_key :: "bool \<Rightarrow> u64 \<Rightarrow> nat \<Rightarrow> u64" where
  "circshift_prepared_key le prepared_key offset =
     (if offset = 0 then prepared_key
      else if le
      then drop_bit (offset * 8) prepared_key OR push_bit ((8 - offset) * 8) prepared_key
      else push_bit (offset * 8) prepared_key OR drop_bit ((8 - offset) * 8) prepared_key)"

fun byte_mask_loop :: "bytes \<Rightarrow> nat \<Rightarrow> bytes \<Rightarrow> bytes" where
  "byte_mask_loop key key_index [] = []"
| "byte_mask_loop key key_index (x # xs) =
     (x XOR key ! key_index) # byte_mask_loop key ((key_index + 1) mod 4) xs"

definition byte_mask :: "bytes \<Rightarrow> nat \<Rightarrow> bytes \<Rightarrow> bytes" where
  "byte_mask key key_offset xs = byte_mask_loop key (key_offset mod 4) xs"

text \<open>The loop over whole words of \<open>word_mask_exact\<close> and \<open>word_mask_circ\<close>.\<close>

fun word_mask_loop :: "bool \<Rightarrow> u64 \<Rightarrow> nat \<Rightarrow> bytes \<Rightarrow> bytes" where
  "word_mask_loop le prepared_key 0 input = []"
| "word_mask_loop le prepared_key (Suc n) input =
     word_bytes le 8 (bytes_word le (take 8 input) XOR prepared_key) @
     word_mask_loop le prepared_key n (drop 8 input)"

definition word_mask_exact :: "bool \<Rightarrow> bytes \<Rightarrow> nat \<Rightarrow> bytes \<Rightarrow> bytes" where
  "word_mask_exact le key len input =
     (let prepared_key = prepare_masking_key le key;
          n = len div 8
      in word_mask_loop le prepared_key n input @
         map (\<lambda>i. input ! i XOR key ! (i mod 4)) [n * 8..<len])"

definition word_mask_circ :: "bool \<Rightarrow> u64 \<Rightarrow> nat \<Rightarrow> bytes \<Rightarrow> bytes \<times> u64" where
  "word_mask_circ le prepared_key len input =
     (let n = len div 8;
          l = len - n * 8;
          start = len - l;
          byte_key = word_bytes le 8 prepared_key
      in (word_mask_loop le prepared_key n input @
            map (\<lambda>i. input ! (start + i) XOR byte_key ! i) [0..<l],
          circshift_prepared_key le prepared_key l))"

definition byte_mask_circ :: "bool \<Rightarrow> u64 \<Rightarrow> nat \<Rightarrow> bytes \<Rightarrow> bytes \<times> u64" where
  "byte_mask_circ le prepared_key len input =
     (let key = word_bytes le 4 (ucast prepared_key :: u32)
      in (map (\<lambda>i. input ! i XOR key ! (i mod 4)) [0..<len],
          circshift_prepared_key le prepared_key (len mod 4)))"

subsection \<open>Integers and their bytes\<close>

lemma LENGTH_64: "LENGTH(64) = 8 * 8"
  by simp

lemma length_word_bytes [simp]: "length (word_bytes le n w) = n"
  by (simp add: word_bytes_def Let_def)

lemma u8_no_bit: "\<not> bit (b :: u8) (j + 8)"
  by (simp add: bit_word.rep_eq)

lemma bit_le_word:
  "bit (le_word bs :: 'a::len word) i \<longleftrightarrow>
     i < LENGTH('a) \<and> i div 8 < length bs \<and> bit (bs ! (i div 8)) (i mod 8)"
proof (induction bs arbitrary: i)
  case (Cons b bs)
  show ?case
  proof (cases "i < 8")
    case True
    then show ?thesis by (auto simp: bit_simps)
  next
    case False
    then obtain j where "i = j + 8" by (metis le_add_diff_inverse2 not_less)
    moreover have "(j + 8) div 8 = Suc (j div 8)" by simp
    ultimately show ?thesis using Cons.IH [of j] by (auto simp: bit_simps u8_no_bit)
  qed
qed simp

lemma nth_word_bytes_True: "i < n \<Longrightarrow> word_bytes True n w ! i = ucast (drop_bit (8 * i) w)"
  by (simp add: word_bytes_def)

lemma word_bytes_False: "word_bytes False n w = rev (word_bytes True n w)"
  by (simp add: word_bytes_def)

lemma word_bytes_True: "rev (word_bytes True n w) = word_bytes False n w"
  by (simp add: word_bytes_def)

lemma bytes_word_word_bytes:
  assumes "LENGTH('a::len) = 8 * n"
  shows "bytes_word le (word_bytes le n w) = (w :: 'a word)"
proof -
  have "le_word (word_bytes True n w) = w"
  proof (rule bit_word_eqI)
    fix i assume "i < LENGTH('a)"
    then have "i div 8 < n" using assms by auto
    then show "bit (le_word (word_bytes True n w) :: 'a word) i = bit w i"
      using \<open>i < LENGTH('a)\<close> by (simp add: bit_le_word nth_word_bytes_True bit_simps)
  qed
  then show ?thesis by (cases le) (simp_all add: bytes_word_def word_bytes_False)
qed

lemma word_bytes_bytes_word:
  assumes "LENGTH('a::len) = 8 * n" and "length bs = n"
  shows "word_bytes le n (bytes_word le bs :: 'a word) = bs"
proof -
  have "word_bytes True n (le_word cs :: 'a word) = cs" if "length cs = n" for cs
  proof (rule nth_equalityI)
    fix i assume "i < length (word_bytes True n (le_word cs :: 'a word))"
    then have i: "i < n" by simp
    show "word_bytes True n (le_word cs :: 'a word) ! i = cs ! i"
    proof (rule bit_word_eqI)
      fix j assume "j < LENGTH(8)"
      then have j: "j < 8" by simp
      then have "8 * i + j < LENGTH('a)" using i assms(1) by simp
      then show "bit (word_bytes True n (le_word cs :: 'a word) ! i) j = bit (cs ! i) j"
        using i j that by (simp add: nth_word_bytes_True bit_simps bit_le_word)
    qed
  qed (simp add: that)
  from this [of bs] this [of "rev bs"] show ?thesis
    using assms(2) by (cases le) (simp_all add: bytes_word_def word_bytes_False)
qed

lemma length_8:
  assumes "length xs = 8"
  obtains a b c d e f g h where "xs = [a, b, c, d, e, f, g, h]"
  using assms by (auto simp: numeral_eq_Suc length_Suc_conv)

lemma reverse_8:
  assumes "length xs = 8"
  shows "[xs ! 7, xs ! 6, xs ! 5, xs ! 4, xs ! 3, xs ! 2, xs ! 1, xs ! 0] = rev xs"
  by (rule length_8 [OF assms]) simp

text \<open>The bytes of a value in network order do not depend on the host.\<close>

lemma word_bytes_htonll: "word_bytes le 8 (htonll le w) = word_bytes False 8 w"
  by (cases le) (simp_all only: htonll_def Let_def reverse_8 length_word_bytes word_bytes_bytes_word
    word_bytes_True length_rev if_True if_False simp_thms LENGTH_64)

lemma ntohll_htonll: "ntohll le (htonll le w) = w"
proof -
  have "word_bytes le 8 (htonll le (htonll le w)) = word_bytes le 8 w"
  proof (cases le)
    case True
    then show ?thesis
      using word_bytes_htonll [of True w] word_bytes_htonll [of True "htonll True w"]
      by (metis rev_rev_ident word_bytes_True)
  qed (simp add: htonll_def)
  then have "bytes_word le (word_bytes le 8 (htonll le (htonll le w))) = (bytes_word le (word_bytes le 8 w) :: u64)"
    by simp
  then show ?thesis by (simp add: ntohll_def bytes_word_word_bytes)
qed

lemma ntohll_network: "ntohll le (bytes_word le (word_bytes False 8 w)) = w"
  by (metis LENGTH_64 bytes_word_word_bytes ntohll_htonll word_bytes_htonll)

lemma LENGTH_16: "LENGTH(16) = 8 * 2"
  by simp

lemma ntohs_network: "ntohs le (bytes_word le (word_bytes False 2 w)) = w"
proof (cases le)
  case True
  have two: "[c ! 1, c ! 0] = rev c" if "length c = 2" for c :: bytes
    using that by (auto simp: numeral_2_eq_2 length_Suc_conv)
  have "bytes_word True (rev (word_bytes False 2 w)) = w"
    unfolding word_bytes_True [symmetric] rev_rev_ident by (simp add: bytes_word_word_bytes)
  with True show ?thesis
    unfolding ntohs_def Let_def
    by (simp only: word_bytes_bytes_word [OF LENGTH_16 length_word_bytes] two [OF length_word_bytes]
      simp_thms if_False)
qed (simp add: ntohs_def bytes_word_word_bytes)

lemma network_16: "drop 6 (word_bytes False 8 w) = word_bytes False 2 (ucast (w :: u64) :: u16)"
proof -
  have "ucast (drop_bit 8 w) = (ucast (drop_bit 8 (ucast w :: u16)) :: u8)"
    "ucast w = (ucast (ucast w :: u16) :: u8)"
    by (rule u8_eqI; simp add: bit_simps)+
  then show ?thesis by (simp add: word_bytes_def upt_rec numeral_eq_Suc)
qed

subsection \<open>Header fields\<close>

lemma u8_and_single:
  "(x :: u8) AND 0x80 = 0x80 \<longleftrightarrow> bit x 7" "x AND 0x40 = 0x40 \<longleftrightarrow> bit x 6"
  "x AND 0x20 = 0x20 \<longleftrightarrow> bit x 5" "x AND 0x10 = 0x10 \<longleftrightarrow> bit x 4"
proof -
  have "x AND y = y \<longleftrightarrow> bit x n" if y: "bit y n" "\<And>m. m < 8 \<Longrightarrow> m \<noteq> n \<Longrightarrow> \<not> bit y m" for y :: u8 and n
  proof
    assume "x AND y = y" with y(1) show "bit x n" by (metis bit_and_iff)
  next
    assume "bit x n"
    show "x AND y = y"
    proof (rule bit_word_eqI)
      fix m assume "m < LENGTH(8)"
      then show "bit (x AND y) m = bit y m"
        using \<open>bit x n\<close> y by (cases "m = n") (auto simp: bit_and_iff)
    qed
  qed
  note single = this
  show "x AND 0x80 = 0x80 \<longleftrightarrow> bit x 7" by (rule single) (auto dest!: u8_bit_cases)
  show "x AND 0x40 = 0x40 \<longleftrightarrow> bit x 6" by (rule single) (auto dest!: u8_bit_cases)
  show "x AND 0x20 = 0x20 \<longleftrightarrow> bit x 5" by (rule single) (auto dest!: u8_bit_cases)
  show "x AND 0x10 = 0x10 \<longleftrightarrow> bit x 4" by (rule single) (auto dest!: u8_bit_cases)
qed

text \<open>The fields a header is built from are the fields its accessors read.\<close>

lemma get_flags_basic_header_of:
  "get_fin (basic_header_of op sz fin masked r1 r2 r3) = fin"
  "get_rsv1 (basic_header_of op sz fin masked r1 r2 r3) = r1"
  "get_rsv2 (basic_header_of op sz fin masked r1 r2 r3) = r2"
  "get_rsv3 (basic_header_of op sz fin masked r1 r2 r3) = r3"
  by (simp_all add: get_fin_def get_rsv1_def get_rsv2_def get_rsv3_def basic_header_of_def Let_def
    frame_masks u8_and_single bit_simps)

lemma word_of_int_nibble: "0 \<le> op \<Longrightarrow> op < 16 \<Longrightarrow> uint (word_of_int op AND 0x0F :: u8) = op"
proof -
  assume op: "0 \<le> op" "op < 16"
  have "word_of_int op AND 0x0F = (take_bit 4 (word_of_int op) :: u8)"
    by (simp add: take_bit_eq_mask mask_numeral)
  also have "uint \<dots> = take_bit 4 (uint (word_of_int op :: u8))"
    by (rule unsigned_take_bit_eq)
  also have "\<dots> = op mod 16"
    by (simp add: take_bit_eq_mod uint_word_of_int mod_mod_cancel)
  finally show ?thesis using op by simp
qed

lemma get_opcode_basic_header_of:
  assumes "0 \<le> op" and "op < 16"
  shows "get_opcode (basic_header_of op sz fin masked r1 r2 r3) = op"
proof -
  have "b0 (basic_header_of op sz fin masked r1 r2 r3) AND 0x0F = word_of_int op AND 0x0F"
    by (rule u8_eqI; simp add: basic_header_of_def Let_def frame_masks bit_simps)
  then show ?thesis
    by (simp add: get_opcode_def frame_masks word_of_int_nibble [OF assms])
qed

lemma unat_ucast_u8_u64: "unat (sz :: u64) < 256 \<Longrightarrow> unat (ucast sz :: u8) = unat sz"
  by (simp add: unsigned_ucast_eq take_bit_eq_mod)

lemma ucast_ucast_u8: "unat (sz :: u64) < 256 \<Longrightarrow> ucast (ucast sz :: u8) = sz"
  by (rule word_unat_eq_iff [THEN iffD2]) (simp add: unsigned_ucast_eq take_bit_eq_mod unat_mod)

lemma ucast_ucast_u16: "unat (sz :: u64) < 65536 \<Longrightarrow> ucast (ucast sz :: u16) = sz"
  by (rule word_unat_eq_iff [THEN iffD2]) (simp add: unsigned_ucast_eq take_bit_eq_mod unat_mod)

lemma basic_size_code_less: "basic_size_code sz < 128"
  by (auto simp: basic_size_code_def frame_sizes word_less_nat_alt word_le_nat_alt unat_ucast_u8_u64)

lemma and_7F:
  assumes "c < 128"
  shows "c AND 0x7F = (c :: u8)"
proof -
  have "c AND 0x7F = take_bit 7 c" by (simp add: take_bit_eq_mask mask_numeral)
  also have "\<dots> = c"
    using assms by (intro word_unat_eq_iff [THEN iffD2])
      (simp add: unsigned_take_bit_eq word_less_nat_alt take_bit_nat_eq_self)
  finally show ?thesis .
qed

lemma size_code_bit_7: "\<not> bit (basic_size_code sz) 7"
  using arg_cong [OF and_7F [OF basic_size_code_less [of sz]], of "\<lambda>w. bit w 7"]
  by (simp add: bit_and_iff)

lemma get_masked_basic_header_of:
  "get_masked (basic_header_of op sz fin masked r1 r2 r3) = masked"
  by (simp add: get_masked_def basic_header_of_def Let_def frame_masks u8_and_single bit_simps size_code_bit_7)

lemma get_basic_size_basic_header_of:
  "get_basic_size (basic_header_of op sz fin masked r1 r2 r3) = basic_size_code sz"
proof -
  have "b1 (basic_header_of op sz fin masked r1 r2 r3) AND 0x7F = basic_size_code sz AND 0x7F"
    by (rule u8_eqI; simp add: basic_header_of_def Let_def frame_masks bit_simps)
  then show ?thesis
    by (simp add: get_basic_size_def frame_masks and_7F [OF basic_size_code_less])
qed

lemmas basic_header_of_fields = get_flags_basic_header_of get_opcode_basic_header_of
  get_masked_basic_header_of get_basic_size_basic_header_of

subsection \<open>The header round trip\<close>

lemma copy_at_0: "copy_at 0 xs dst = xs @ drop (length xs) dst"
  by (simp add: copy_at_def)

text \<open>The three ranges of payload sizes, with what each puts into the two headers.\<close>

lemma payload_ranges:
  fixes sz :: u64
  obtains (basic) "sz \<le> 125" "basic_size_code sz = ucast sz" "unat (ucast sz :: u8) = unat sz" "unat sz \<le> 125"
    "copy_payload le sz e = (0, e)"
  | (extended) "125 < sz" "sz \<le> 0xFFFF" "basic_size_code sz = 126" "unat sz < 65536"
    "copy_payload le sz e = (2, word_bytes False 2 (ucast sz :: u16) @ drop 2 e)"
  | (jumbo) "0xFFFF < sz" "basic_size_code sz = 127"
    "copy_payload le sz e = (8, word_bytes False 8 sz @ drop 8 e)"
proof -
  consider "sz \<le> 125" | "125 < sz" "sz \<le> 0xFFFF" | "0xFFFF < sz" by (meson not_le_imp_less)
  then show thesis
  proof cases
    case 1
    then have "unat sz \<le> 125" by (simp add: word_le_nat_alt)
    with 1 show thesis
      by (intro basic) (simp_all add: basic_size_code_def frame_sizes copy_payload_def copy_at_0
        unat_ucast_u8_u64 Let_def)
  next
    case 2
    then have "unat sz < 65536" by (simp add: word_le_nat_alt)
    with 2 show thesis
      by (intro extended) (simp_all add: basic_size_code_def frame_sizes copy_payload_def copy_at_0
        word_bytes_htonll network_16 Let_def word_le_nat_alt word_less_nat_alt)
  next
    case 3
    then have "\<not> sz \<le> 125" by (simp add: word_le_nat_alt word_less_nat_alt)
    with 3 show thesis
      by (intro jumbo) (simp_all add: basic_size_code_def frame_sizes copy_payload_def copy_at_0
        word_bytes_htonll Let_def word_le_nat_alt word_less_nat_alt)
  qed
qed

lemma get_payload_size_any:
  assumes "get_basic_size h = basic_size_code sz"
    and "take (fst (copy_payload le sz extended_header_none)) e = take (fst (copy_payload le sz extended_header_none)) (snd (copy_payload le sz extended_header_none))"
  shows "get_payload_size le h e = sz"
proof (cases rule: payload_ranges [of sz le extended_header_none])
  case basic
  then show ?thesis
    using assms(1) by (simp add: get_payload_size_def Let_def frame_sizes word_le_nat_alt ucast_ucast_u8)
next
  case extended
  then show ?thesis
    using assms by (simp add: get_payload_size_def Let_def frame_sizes get_extended_size_def
      ntohs_network ucast_ucast_u16 word_le_nat_alt)
next
  case jumbo
  then show ?thesis
    using assms by (simp add: get_payload_size_def Let_def frame_sizes get_jumbo_size_def
      ntohll_network word_le_nat_alt)
qed

lemma length_copy_payload:
  "fst (copy_payload le sz extended_header_none) \<le> 8"
  "length (snd (copy_payload le sz extended_header_none)) = 12"
  by (cases rule: payload_ranges [of sz le extended_header_none];
      simp add: extended_header_none_def MAX_EXTENDED_HEADER_LENGTH_def)+

lemma get_masking_key_offset_basic_header_of:
  assumes "get_basic_size h = basic_size_code sz"
  shows "get_masking_key_offset h = fst (copy_payload le sz e)"
proof (cases rule: payload_ranges [of sz le e])
  case basic
  then have "basic_size_code sz \<noteq> 126" "basic_size_code sz \<noteq> 127" by (auto simp: word_unat_eq_iff)
  then show ?thesis using assms basic(5) by (simp add: get_masking_key_offset_def frame_sizes)
qed (simp_all add: get_masking_key_offset_def frame_sizes assms)

text \<open>The extended header of a frame, by whether it carries a masking key.\<close>

definition frame_extended_header :: "bool \<Rightarrow> u64 \<Rightarrow> bool \<Rightarrow> bytes \<Rightarrow> bytes" where
  "frame_extended_header le sz masked key =
     (if masked then extended_header_masked le sz key else extended_header le sz)"

lemma frame_extended_header_split:
  assumes "length key = 4"
  shows "\<exists>r. frame_extended_header le sz masked key =
    take (fst (copy_payload le sz extended_header_none)) (snd (copy_payload le sz extended_header_none)) @
    (if masked then key else []) @ r"
proof -
  obtain off e where c: "copy_payload le sz extended_header_none = (off, e)" by fastforce
  then have "off \<le> length e" using length_copy_payload [of le sz] by simp
  then show ?thesis
    using assms append_take_drop_id [of off e]
    by (auto simp: frame_extended_header_def extended_header_masked_def extended_header_def copy_at_def c
      intro: exI [of _ "drop off e"])
qed

lemma header_roundtrip:
  assumes "0 \<le> op" and "op < 16" and "length key = 4"
    and h: "h = basic_header_of op sz fin masked r1 r2 r3"
    and w: "w = prepare_header h (frame_extended_header le sz masked key)"
  shows "length w = get_header_len h" "w = b0 h # b1 h # drop 2 w"
    and "get_payload_size le h (drop 2 w @ r) = sz"
    and "get_masking_key h (drop 2 w @ r) = (if masked then key else replicate 4 0)"
proof -
  obtain off e where c: "copy_payload le sz extended_header_none = (off, e)" by fastforce
  obtain x where x: "frame_extended_header le sz masked key = take off e @ (if masked then key else []) @ x"
    using frame_extended_header_split [OF assms(3), of le sz masked] c by auto
  have off: "off \<le> length e" using length_copy_payload [of le sz] c by simp
  have code: "get_basic_size h = basic_size_code sz" and masked: "get_masked h = masked"
    by (simp_all add: h basic_header_of_fields)
  have offset: "get_masking_key_offset h = off"
    using get_masking_key_offset_basic_header_of [OF code, of le extended_header_none] c by simp
  have len: "get_header_len h - BASIC_HEADER_LENGTH = off + (if masked then 4 else 0)"
    by (simp add: get_header_len_def Let_def offset masked BASIC_HEADER_LENGTH_def)
  have dropw: "drop 2 w = take off e @ (if masked then key else [])"
    using off assms(3) by (simp add: w prepare_header_def len x)
  show "w = b0 h # b1 h # drop 2 w" by (simp add: w prepare_header_def)
  then have "length w = 2 + length (drop 2 w)" by (metis length_Cons add_2_eq_Suc)
  then show "length w = get_header_len h"
    using off assms(3)
    by (simp add: dropw get_header_len_def Let_def offset masked BASIC_HEADER_LENGTH_def)
  show "get_payload_size le h (drop 2 w @ r) = sz"
    by (rule get_payload_size_any [OF code]) (use off in \<open>simp add: dropw c\<close>)
  show "get_masking_key h (drop 2 w @ r) = (if masked then key else replicate 4 0)"
    using off assms(3) by (simp add: get_masking_key_def masked offset dropw)
qed

subsection \<open>Masking as an exclusive or with a repeated key\<close>

fun xor_from :: "bytes \<Rightarrow> nat \<Rightarrow> bytes \<Rightarrow> bytes" where
  "xor_from ks i [] = []"
| "xor_from ks i (x # xs) = (x XOR ks ! (i mod length ks)) # xor_from ks (i + 1) xs"

lemma length_xor_from [simp]: "length (xor_from ks i xs) = length xs"
  by (induction xs arbitrary: i) simp_all

lemma nth_xor_from: "j < length xs \<Longrightarrow> xor_from ks i xs ! j = xs ! j XOR ks ! ((i + j) mod length ks)"
  by (induction xs arbitrary: i j) (auto simp: nth_Cons split: nat.splits)

lemma xor_from_append: "xor_from ks i (xs @ ys) = xor_from ks i xs @ xor_from ks (i + length xs) ys"
  by (induction xs arbitrary: i) simp_all

lemma xor_from_eqI:
  assumes "length ys = length xs"
    and "\<And>j. j < length xs \<Longrightarrow> ys ! j = xs ! j XOR ks ! ((i + j) mod length ks)"
  shows "ys = xor_from ks i xs"
  by (rule nth_equalityI) (simp_all add: assms nth_xor_from)

lemma xor_from_involution: "xor_from ks i (xor_from ks i xs) = xs"
  by (rule nth_equalityI) (simp_all add: nth_xor_from xor.assoc)

lemma byte_mask_eq: "length key = 4 \<Longrightarrow> byte_mask key off xs = xor_from key off xs"
proof -
  assume k: "length key = 4"
  have "byte_mask_loop key (i mod 4) xs = xor_from key i xs" for i
    by (induction xs arbitrary: i) (simp_all add: k mod_Suc_eq)
  then show ?thesis by (simp add: byte_mask_def)
qed

lemma word_bytes_XOR: "word_bytes le n (a XOR b) = map2 (XOR) (word_bytes le n a) (word_bytes le n b)"
proof -
  have "word_bytes True n (a XOR b) = map2 (XOR) (word_bytes True n a) (word_bytes True n b)"
  proof (rule nth_equalityI)
    fix i assume "i < length (word_bytes True n (a XOR b))"
    then show "word_bytes True n (a XOR b) ! i = map2 (XOR) (word_bytes True n a) (word_bytes True n b) ! i"
      by (simp add: nth_word_bytes_True) (rule u8_eqI; simp add: bit_simps)
  qed simp
  then show ?thesis by (cases le) (simp_all add: word_bytes_False rev_map zip_rev)
qed

lemma word_mask_loop_eq:
  assumes "8 * n \<le> length input"
  shows "word_mask_loop le pk n input = xor_from (word_bytes le 8 pk) 0 (take (8 * n) input)"
  using assms
proof (induction n arbitrary: input)
  case (Suc n)
  have word: "word_bytes le 8 (bytes_word le (take 8 input) XOR pk) = xor_from (word_bytes le 8 pk) 0 (take 8 input)"
    using Suc.prems
    by (intro xor_from_eqI) (simp_all add: word_bytes_XOR word_bytes_bytes_word)
  have shift: "xor_from (word_bytes le 8 pk) (i + 8) xs = xor_from (word_bytes le 8 pk) i xs" for i xs
  proof -
    have "(i + 8 + j) mod 8 = (i + j) mod 8" for j
      by (metis add.assoc add.commute mod_add_self2)
    then show ?thesis by (intro xor_from_eqI) (simp_all add: nth_xor_from)
  qed
  have "take (8 * Suc n) input = take 8 input @ take (8 * n) (drop 8 input)"
    by (simp add: take_add)
  then show ?case
    using Suc.IH [of "drop 8 input"] Suc.prems shift [of 0]
    by (simp add: word xor_from_append min_absorb2)
qed simp

lemma map_xor_from:
  assumes "b \<le> length input"
  shows "map (\<lambda>i. input ! i XOR ks ! (i mod length ks)) [a..<b] = xor_from ks a (drop a (take b input))"
  by (rule xor_from_eqI) (use assms in auto)

subsection \<open>Prepared keys\<close>

lemma word_bytes_prepared_key:
  assumes "length key = 4"
  shows "word_bytes le 8 (prepare_masking_key le key) = key @ key"
proof -
  define w where "w = (bytes_word le key :: u32)"
  have "word_bytes True 8 (prepare_masking_key le key) = word_bytes True 4 w @ word_bytes True 4 w"
  proof (rule nth_equalityI)
    fix i assume "i < length (word_bytes True 8 (prepare_masking_key le key))"
    then have i: "i < 8" by simp
    have "ucast (drop_bit (8 * i) (prepare_masking_key le key)) =
        (ucast (drop_bit (8 * (if i < 4 then i else i - 4)) w) :: u8)"
    proof (rule bit_word_eqI)
      fix j assume "j < LENGTH(8)"
      then have "j < 8" by simp
      show "bit (ucast (drop_bit (8 * i) (prepare_masking_key le key)) :: u8) j =
          bit (ucast (drop_bit (8 * (if i < 4 then i else i - 4)) w) :: u8) j"
      proof (cases "i < 4")
        case True
        then have "8 * i + j < 32" using \<open>j < 8\<close> by simp
        with True show ?thesis
          by (auto simp: prepare_masking_key_def Let_def w_def bit_simps)
      next
        case False
        then obtain m where m: "i = m + 4" by (metis le_add_diff_inverse2 not_less)
        then have "8 * m + j < 32" using i \<open>j < 8\<close> by simp
        with m show ?thesis
          by (auto simp: prepare_masking_key_def Let_def w_def bit_simps dest: bit_imp_le_length)
      qed
    qed
    then show "word_bytes True 8 (prepare_masking_key le key) ! i = (word_bytes True 4 w @ word_bytes True 4 w) ! i"
      using i by (simp add: nth_word_bytes_True nth_append)
  qed simp
  then have "word_bytes le 8 (prepare_masking_key le key) = word_bytes le 4 w @ word_bytes le 4 w"
    by (cases le) (simp_all add: word_bytes_False)
  then show ?thesis using assms by (simp add: w_def word_bytes_bytes_word)
qed

lemma rotate_word_bytes:
  assumes "0 < off" and "off < 8"
  shows "word_bytes True 8 (drop_bit (off * 8) pk OR push_bit ((8 - off) * 8) pk) = rotate off (word_bytes True 8 (pk :: u64))"
proof (rule nth_equalityI)
  fix i assume "i < length (word_bytes True 8 (drop_bit (off * 8) pk OR push_bit ((8 - off) * 8) pk))"
  then have i: "i < 8" by simp
  have "ucast (drop_bit (8 * i) (drop_bit (off * 8) pk OR push_bit ((8 - off) * 8) pk)) =
      (ucast (drop_bit (8 * ((off + i) mod 8)) pk) :: u8)"
  proof (rule bit_word_eqI)
    fix j assume "j < LENGTH(8)"
    then have j: "j < 8" by simp
    show "bit (ucast (drop_bit (8 * i) (drop_bit (off * 8) pk OR push_bit ((8 - off) * 8) pk)) :: u8) j =
        bit (ucast (drop_bit (8 * ((off + i) mod 8)) pk) :: u8) j"
    proof (cases "off + i < 8")
      case True
      then have "off * 8 + (8 * i + j) = 8 * (off + i) + j" and "8 * i + j < (8 - off) * 8" using j by auto
      with True j show ?thesis by (simp add: bit_simps not_le mult.commute [of off 8] add.assoc add.left_commute)
    next
      case False
      then obtain m where m: "off + i = 8 + m" by (metis le_add_diff_inverse not_less)
      then have "m < 8" using assms i by simp
      have "(8 - off) * 8 + (8 * m + j) = 8 * i + j" using m assms by (simp add: diff_mult_distrib)
      moreover have "64 \<le> off * 8 + (8 * i + j)" using m by simp
      ultimately have "(8 - off) * 8 \<le> 8 * i + j \<and> 8 * i + j - (8 - off) * 8 = 8 * m + j \<and>
          \<not> bit pk (off * 8 + (8 * i + j))"
        by (auto dest: bit_imp_le_length)
      then show ?thesis using j m \<open>m < 8\<close> i by (simp add: bit_simps)
    qed
  qed
  then show "word_bytes True 8 (drop_bit (off * 8) pk OR push_bit ((8 - off) * 8) pk) ! i = rotate off (word_bytes True 8 pk) ! i"
    using i by (simp add: nth_word_bytes_True nth_rotate)
qed simp

lemma word_bytes_circshift:
  assumes "off < 8"
  shows "word_bytes le 8 (circshift_prepared_key le pk off) = rotate off (word_bytes le 8 pk)"
proof (cases "off = 0")
  case False
  then have off: "0 < off" by simp
  show ?thesis
  proof (cases le)
    case True
    then show ?thesis using off rotate_word_bytes [OF off assms] by (simp add: circshift_prepared_key_def)
  next
    case le: False
    have "word_bytes True 8 (drop_bit ((8 - off) * 8) pk OR push_bit (off * 8) pk) =
        rotate (8 - off) (word_bytes True 8 pk)"
      using rotate_word_bytes [of "8 - off" pk] off assms by simp
    with le off assms show ?thesis
      by (simp add: circshift_prepared_key_def word_bytes_False rotate_rev or.commute)
  qed
qed (simp add: circshift_prepared_key_def)

lemma xor_from_rotate: "ks \<noteq> [] \<Longrightarrow> xor_from (rotate off ks) i xs = xor_from ks (off + i) xs"
  by (rule xor_from_eqI) (simp_all add: nth_xor_from nth_rotate mod_add_right_eq add.assoc)

lemma xor_from_twice:
  assumes "length key = 4"
  shows "xor_from (key @ key) i xs = xor_from key i xs"
proof (rule xor_from_eqI)
  fix j assume "j < length xs"
  have "(key @ key) ! (k mod 8) = key ! (k mod 4)" for k
  proof -
    have "k mod 8 < 4 \<and> k mod 4 = k mod 8 \<or> 4 \<le> k mod 8 \<and> k mod 8 - 4 = k mod 4" by presburger
    then show ?thesis by (auto simp: nth_append assms)
  qed
  then show "xor_from (key @ key) i xs ! j = xs ! j XOR key ! ((i + j) mod length key)"
    using \<open>j < length xs\<close> by (simp add: nth_xor_from assms)
qed simp

subsection \<open>The optimised routines mask byte by byte\<close>

lemma word_mask_exact_eq:
  assumes "length key = 4" and "len \<le> length input"
  shows "word_mask_exact le key len input = byte_mask key 0 (take len input)"
proof -
  let ?n = "len div 8 * 8"
  have n: "?n \<le> len" by simp
  have words: "word_mask_loop le (prepare_masking_key le key) (len div 8) input = xor_from key 0 (take ?n input)"
    using word_mask_loop_eq [of "len div 8" input le "prepare_masking_key le key"] n assms
    by (simp add: word_bytes_prepared_key xor_from_twice mult.commute)
  have tail: "map (\<lambda>i. input ! i XOR key ! (i mod 4)) [?n..<len] = xor_from key ?n (drop ?n (take len input))"
    using map_xor_from [of len input key ?n] assms by simp
  have "take len input = take ?n input @ drop ?n (take len input)"
    using n append_take_drop_id [of ?n "take len input"] by (simp add: min_absorb2 take_take min_absorb1)
  from arg_cong [OF this, of "xor_from key 0"]
  have "xor_from key 0 (take len input) = xor_from key 0 (take ?n input) @ xor_from key ?n (drop ?n (take len input))"
    using n assms(2) by (simp only: xor_from_append length_take) (simp add: min_absorb2)
  then show ?thesis by (simp only: word_mask_exact_def Let_def words tail byte_mask_eq [OF assms(1)])
qed

lemma xor_from_mod: "xor_from ks (i mod length ks) xs = xor_from ks i xs"
  by (rule xor_from_eqI) (simp_all add: nth_xor_from mod_add_left_eq)

lemma word_mask_circ_eq:
  assumes "len \<le> length input"
  shows "word_mask_circ le pk len input =
    (xor_from (word_bytes le 8 pk) 0 (take len input), circshift_prepared_key le pk (len mod 8))"
proof -
  let ?n = "len div 8 * 8" and ?k = "word_bytes le 8 pk"
  have n: "?n \<le> len" by simp
  have l: "len - ?n = len mod 8" by (simp add: minus_div_mult_eq_mod)
  have words: "word_mask_loop le pk (len div 8) input = xor_from ?k 0 (take ?n input)"
    using word_mask_loop_eq [of "len div 8" input le pk] n assms by (simp add: mult.commute)
  have "map (\<lambda>i. input ! (?n + i) XOR ?k ! i) [0..<len mod 8] = xor_from ?k 0 (drop ?n (take len input))"
    by (rule xor_from_eqI) (use n assms l in \<open>simp_all\<close>)
  also have "\<dots> = xor_from ?k ?n (drop ?n (take len input))"
    using xor_from_mod [of ?k ?n] by simp
  finally have tail: "map (\<lambda>i. input ! (?n + i) XOR ?k ! i) [0..<len mod 8] = xor_from ?k ?n (drop ?n (take len input))" .
  have "take len input = take ?n input @ drop ?n (take len input)"
    using n append_take_drop_id [of ?n "take len input"] by (simp add: min_absorb2 take_take min_absorb1)
  from arg_cong [OF this, of "xor_from ?k 0"]
  have "xor_from ?k 0 (take len input) = xor_from ?k 0 (take ?n input) @ xor_from ?k ?n (drop ?n (take len input))"
    using n assms by (simp only: xor_from_append length_take) (simp add: min_absorb2)
  moreover have "len - len mod 8 = ?n" by (simp add: minus_mod_eq_div_mult)
  ultimately show ?thesis by (simp only: word_mask_circ_def Let_def words tail l)
qed

lemma circshift_circshift:
  assumes "a < 8" and "b < 8"
  shows "circshift_prepared_key le (circshift_prepared_key le pk a) b = circshift_prepared_key le pk ((a + b) mod 8)"
proof -
  have "word_bytes le 8 (circshift_prepared_key le (circshift_prepared_key le pk a) b) =
      rotate (a + b) (word_bytes le 8 pk)"
    using assms by (simp add: word_bytes_circshift rotate_rotate add.commute)
  also have "\<dots> = word_bytes le 8 (circshift_prepared_key le pk ((a + b) mod 8))"
    using rotate_conv_mod [of "a + b" "word_bytes le 8 pk"] by (simp add: word_bytes_circshift)
  finally have "bytes_word le (word_bytes le 8 (circshift_prepared_key le (circshift_prepared_key le pk a) b)) =
      (bytes_word le (word_bytes le 8 (circshift_prepared_key le pk ((a + b) mod 8))) :: u64)" by simp
  then show ?thesis by (simp add: bytes_word_word_bytes)
qed

lemma word_mask_circ_append:
  assumes "word_mask_circ le pk (length xs) xs = (out1, pk1)"
    and "word_mask_circ le pk1 (length ys) ys = (out2, pk2)"
  shows "word_mask_circ le pk (length (xs @ ys)) (xs @ ys) = (out1 @ out2, pk2)"
proof -
  let ?k = "word_bytes le 8 pk"
  have pk1: "pk1 = circshift_prepared_key le pk (length xs mod 8)" and out1: "out1 = xor_from ?k 0 xs"
    using assms(1) by (simp_all add: word_mask_circ_eq)
  have "out2 = xor_from (rotate (length xs mod 8) ?k) 0 ys"
    using assms(2) by (simp add: word_mask_circ_eq pk1 word_bytes_circshift)
  also have "\<dots> = xor_from ?k (length xs mod 8) ys"
    using xor_from_rotate [of ?k "length xs mod 8" 0 ys] by (auto simp: length_0_conv [symmetric] simp del: length_0_conv)
  also have "\<dots> = xor_from ?k (length xs) ys"
    using xor_from_mod [of ?k "length xs" ys] by simp
  finally have out2: "out2 = xor_from ?k (length xs) ys" .
  have "pk2 = circshift_prepared_key le pk ((length xs + length ys) mod 8)"
    using assms(2) by (simp add: word_mask_circ_eq pk1 circshift_circshift mod_add_eq)
  then show ?thesis by (simp add: word_mask_circ_eq out1 out2 xor_from_append)
qed

lemma ucast_prepared_key:
  assumes "length key = 4"
  shows "word_bytes le 4 (ucast (prepare_masking_key le key) :: u32) = key"
proof -
  have "(ucast (prepare_masking_key le key) :: u32) = bytes_word le key"
    by (rule bit_word_eqI) (auto simp: prepare_masking_key_def Let_def bit_simps)
  then show ?thesis using assms by (simp add: word_bytes_bytes_word)
qed

lemma byte_mask_circ_eq:
  assumes "length key = 4" and "len \<le> length input"
  shows "fst (byte_mask_circ le (prepare_masking_key le key) len input) = byte_mask key 0 (take len input)"
  using map_xor_from [OF assms(2), of key 0] assms(1)
  by (simp add: byte_mask_circ_def Let_def ucast_prepared_key byte_mask_eq)

end
