(* ===== verification/Ws_Utf8.thy ===== *)
theory Ws_Utf8
  imports R2CP_Prelude
begin

text \<open>
  \<open>WebSocketPP/websocketpp/utf8_validator.hpp\<close>: the table-driven UTF-8 automaton and the
  streaming validator around it, and UTF-8 itself (RFC 3629) as an encoding of lists of
  Unicode scalar values, which the validator is shown to accept exactly.
\<close>

subsection \<open>The automaton\<close>

definition utf8_accept :: u32 where "utf8_accept = 0"

definition utf8_reject :: u32 where "utf8_reject = 1"

definition utf8d :: bytes where
  "utf8d = [
  0,0,0,0,0,0,0,0,0,0,0,0,0,0,0,0,0,0,0,0,0,0,0,0,0,0,0,0,0,0,0,0,
  0,0,0,0,0,0,0,0,0,0,0,0,0,0,0,0,0,0,0,0,0,0,0,0,0,0,0,0,0,0,0,0,
  0,0,0,0,0,0,0,0,0,0,0,0,0,0,0,0,0,0,0,0,0,0,0,0,0,0,0,0,0,0,0,0,
  0,0,0,0,0,0,0,0,0,0,0,0,0,0,0,0,0,0,0,0,0,0,0,0,0,0,0,0,0,0,0,0,
  1,1,1,1,1,1,1,1,1,1,1,1,1,1,1,1,9,9,9,9,9,9,9,9,9,9,9,9,9,9,9,9,
  7,7,7,7,7,7,7,7,7,7,7,7,7,7,7,7,7,7,7,7,7,7,7,7,7,7,7,7,7,7,7,7,
  8,8,2,2,2,2,2,2,2,2,2,2,2,2,2,2,2,2,2,2,2,2,2,2,2,2,2,2,2,2,2,2,
  0xa,0x3,0x3,0x3,0x3,0x3,0x3,0x3,0x3,0x3,0x3,0x3,0x3,0x4,0x3,0x3,
  0xb,0x6,0x6,0x6,0x5,0x8,0x8,0x8,0x8,0x8,0x8,0x8,0x8,0x8,0x8,0x8,
  0x0,0x1,0x2,0x3,0x5,0x8,0x7,0x1,0x1,0x1,0x4,0x6,0x1,0x1,0x1,0x1,
  1,1,1,1,1,1,1,1,1,1,1,1,1,1,1,1,1,0,1,1,1,1,1,0,1,0,1,1,1,1,1,1,
  1,2,1,1,1,1,1,2,1,2,1,1,1,1,1,1,1,1,1,1,1,1,1,2,1,1,1,1,1,1,1,1,
  1,2,1,1,1,1,1,1,1,2,1,1,1,1,1,1,1,1,1,1,1,1,1,3,1,3,1,1,1,1,1,1,
  1,3,1,1,1,1,1,3,1,3,1,1,1,1,1,1,1,3,1,1,1,1,1,1,1,1,1,1,1,1,1,1]"

record utf8_validator =
  m_state :: u32
  m_codepoint :: u32

definition validator :: utf8_validator where
  "validator = \<lparr>m_state = utf8_accept, m_codepoint = 0\<rparr>"

definition utf8_decode :: "utf8_validator \<Rightarrow> u8 \<Rightarrow> utf8_validator" where
  "utf8_decode v byte =
     (let type = (ucast (utf8d ! unat byte) :: u32);
          codep = (if m_state v \<noteq> utf8_accept
                   then (ucast byte AND 0x3F) OR push_bit 6 (m_codepoint v)
                   else drop_bit (unat type) 0xFF AND ucast byte)
      in \<lparr>m_state = ucast (utf8d ! unat (256 + m_state v * 16 + type)), m_codepoint = codep\<rparr>)"

definition utf8_consume :: "u8 \<Rightarrow> (utf8_validator, bool) prog" where
  "utf8_consume byte = (\<lambda>v.
     let v' = utf8_decode v byte
     in (Ret (m_state v' \<noteq> utf8_reject), v'))"

fun utf8_decode_range :: "bytes \<Rightarrow> utf8_validator \<Rightarrow> bool \<times> utf8_validator" where
  "utf8_decode_range [] v = (True, v)"
| "utf8_decode_range (b # it) v =
     (let v' = utf8_decode v b in
      if m_state v' = utf8_reject then (False, v') else utf8_decode_range it v')"

definition utf8_complete :: "utf8_validator \<Rightarrow> bool" where
  "utf8_complete v \<longleftrightarrow> m_state v = utf8_accept"

definition utf8_reset :: "utf8_validator \<Rightarrow> utf8_validator" where
  "utf8_reset v = v\<lparr>m_state := utf8_accept, m_codepoint := 0\<rparr>"

definition utf8_validate :: "bytes \<Rightarrow> bool" where
  "utf8_validate s =
     (case utf8_decode_range s validator of
        (False, v) \<Rightarrow> False
      | (True, v) \<Rightarrow> utf8_complete v)"

subsection \<open>The table by rows\<close>

lemma utf8d_rows: "utf8d =
   replicate 128 0 @ replicate 16 1 @ replicate 16 9 @ replicate 32 7 @ replicate 2 8 @ replicate 30 2 @
   [10] @ replicate 12 3 @ [4] @ replicate 2 3 @ [11] @ replicate 3 6 @ [5] @ replicate 11 8 @
   [0,1,2,3,5,8,7,1,1,1,4,6] @ replicate 21 1 @ [0,1,1,1,1,1,0,1,0] @
   replicate 7 1 @ [2,1,1,1,1,1,2,1,2] @ replicate 13 1 @ [2] @
   replicate 9 1 @ [2,1,1,1,1,1,1,1,2] @ replicate 13 1 @ [3,1,3] @
   replicate 7 1 @ [3,1,1,1,1,1,3,1,3] @ replicate 7 1 @ [3] @ replicate 14 1"
  by code_simp

lemma length_utf8d: "length utf8d = 400"
  by (simp add: utf8d_rows)

text \<open>The class of a byte: the first 256 entries.\<close>

definition utf8_type :: "int \<Rightarrow> u8" where
  "utf8_type k =
    (if k < 128 then 0 else if k < 144 then 1 else if k < 160 then 9 else if k < 192 then 7
     else if k < 194 then 8 else if k < 224 then 2 else if k = 224 then 10 else if k = 237 then 4
     else if k < 240 then 3 else if k = 240 then 11 else if k < 244 then 6 else if k = 244 then 5 else 8)"

lemma utf8d_types: "take 256 utf8d = map utf8_type [0..255]"
  by code_simp

lemma utf8d_type: "k < 256 \<Longrightarrow> utf8d ! k = utf8_type (int k)"
  using arg_cong [OF utf8d_types, of "\<lambda>xs. xs ! k"] by (simp add: nth_upto)

lemma utf8d_state:
  "utf8d ! 256 = 0" "utf8d ! 257 = 1" "utf8d ! 258 = 2" "utf8d ! 259 = 3" "utf8d ! 260 = 5"
  "utf8d ! 261 = 8" "utf8d ! 262 = 7" "utf8d ! 263 = 1" "utf8d ! 264 = 1" "utf8d ! 265 = 1"
  "utf8d ! 266 = 4" "utf8d ! 267 = 6"
  unfolding utf8d_rows by (simp_all add: nth_append nth_Cons')

text \<open>The rows of the continuation states: only the columns 1, 7 and 9 do not reject.\<close>

lemma utf8d_continuation:
  assumes "2 \<le> s" and "s \<le> 8" and "t < 12"
  shows "utf8d ! (256 + s * 16 + t) =
    (if s = 2 \<and> t \<in> {1, 7, 9} then 0
     else if s = 3 \<and> t \<in> {1, 7, 9} then 2
     else if s = 4 \<and> t = 7 then 2
     else if s = 5 \<and> t \<in> {1, 9} then 2
     else if s = 6 \<and> t \<in> {7, 9} then 3
     else if s = 7 \<and> t \<in> {1, 7, 9} then 3
     else if s = 8 \<and> t = 1 then 3
     else 1)"
proof -
  have "s \<in> {2, 3, 4, 5, 6, 7, 8}" using assms by auto
  then show ?thesis using assms(3) unfolding utf8d_rows
    by (elim insertE emptyE; simp add: nth_append nth_Cons'; auto)
qed

text \<open>The state reached from a state by a byte.\<close>

definition utf8_next :: "nat \<Rightarrow> nat \<Rightarrow> nat" where
  "utf8_next s k =
    (if s = 0 then
       (if k < 128 then 0 else if k < 194 then 1 else if k < 224 then 2 else if k = 224 then 4
        else if k = 237 then 5 else if k < 240 then 3 else if k = 240 then 6
        else if k < 244 then 7 else if k = 244 then 8 else 1)
     else if 128 \<le> k \<and> k < 192 then
       (if s = 2 then 0 else if s = 3 then 2
        else if s = 4 then (if 160 \<le> k then 2 else 1)
        else if s = 5 then (if k < 160 then 2 else 1)
        else if s = 6 then (if 144 \<le> k then 3 else 1)
        else if s = 7 then 3
        else if s = 8 then (if k < 144 then 3 else 1) else 1)
     else 1)"

lemma unat_u8: "unat (b :: u8) < 256"
  using unsigned_less [of b] by simp

lemma utf8_index:
  assumes "s \<le> 8" and "(t :: u8) < 12"
  shows "unat (256 + word_of_nat s * 16 + (ucast t :: u32)) = 256 + s * 16 + unat t"
proof -
  have "unat t < 12" using assms(2) by (simp add: word_less_nat_alt)
  then have "256 + word_of_nat s * 16 + (ucast t :: u32) = word_of_nat (256 + s * 16 + unat t)"
    by simp
  moreover have "256 + s * 16 + unat t < 2 ^ 32" using assms(1) \<open>unat t < 12\<close> by simp
  ultimately show ?thesis by (simp only: unat_word_of_nat32)
qed

lemma utf8d_next:
  assumes "k < 256" and "s \<le> 8" and "s \<noteq> 1"
  shows "ucast (utf8d ! (256 + s * 16 + unat (utf8d ! k))) = (word_of_nat (utf8_next s k) :: u32)"
proof (cases "s = 0")
  case True
  then show ?thesis
    using assms(1) by (simp add: utf8d_type utf8_type_def utf8_next_def utf8d_state)
next
  case False
  have "unat (utf8d ! k) < 12"
    using assms(1) by (simp add: utf8d_type utf8_type_def)
  with False assms show ?thesis
    using utf8d_continuation [of s "unat (utf8d ! k)"]
    by (simp add: utf8d_type utf8_type_def utf8_next_def)
qed

lemma utf8d_type_small: "k < 256 \<Longrightarrow> utf8d ! k < 12"
  by (simp add: utf8d_type utf8_type_def)

lemma utf8_decode_state:
  assumes "m_state v = word_of_nat s" and "s \<le> 8" and "s \<noteq> 1"
  shows "m_state (utf8_decode v b) = word_of_nat (utf8_next s (unat b))"
  using assms utf8d_next [OF unat_u8, of s b]
  by (simp add: utf8_decode_def Let_def utf8_index utf8d_type_small unat_u8)

lemma utf8_next_bound: "utf8_next s k \<le> 8"
  by (simp add: utf8_next_def)

subsection \<open>RFC 3629\<close>

definition unicode_scalar :: "nat \<Rightarrow> bool" where
  "unicode_scalar c \<longleftrightarrow> c < 0xD800 \<or> (0xE000 \<le> c \<and> c \<le> 0x10FFFF)"

definition utf8_units :: "nat \<Rightarrow> nat list" where
  "utf8_units c =
    (if c < 0x80 then [c]
     else if c < 0x800 then [0xC0 + c div 64, 0x80 + c mod 64]
     else if c < 0x10000 then [0xE0 + c div 4096, 0x80 + c div 64 mod 64, 0x80 + c mod 64]
     else [0xF0 + c div 262144, 0x80 + c div 4096 mod 64, 0x80 + c div 64 mod 64, 0x80 + c mod 64])"

fun utf8_run :: "nat \<Rightarrow> nat list \<Rightarrow> bool" where
  "utf8_run s [] \<longleftrightarrow> s = 0"
| "utf8_run s (k # ks) \<longleftrightarrow> utf8_next s k \<noteq> 1 \<and> utf8_run (utf8_next s k) ks"

definition utf8_tail :: "nat \<Rightarrow> bool" where
  "utf8_tail k \<longleftrightarrow> 128 \<le> k \<and> k < 192"

lemma utf8_run_tail:
  assumes "utf8_run s ks" and "s \<noteq> 0"
  obtains k r where "ks = k # r" and "utf8_tail k" and "utf8_next s k \<noteq> 1" and "utf8_run (utf8_next s k) r"
  using assms by (cases ks) (auto simp: utf8_next_def utf8_tail_def split: if_splits)

lemma utf8_run_2:
  assumes "utf8_run 2 ks"
  obtains k r where "ks = k # r" and "utf8_tail k" and "utf8_run 0 r"
  using assms by (rule utf8_run_tail) (auto simp: utf8_next_def utf8_tail_def)

lemma utf8_run_3:
  assumes "utf8_run 3 ks"
  obtains j k r where "ks = j # k # r" and "utf8_tail j" and "utf8_tail k" and "utf8_run 0 r"
proof (rule utf8_run_tail [OF assms])
  fix j r assume "ks = j # r" and "utf8_tail j" and "utf8_run (utf8_next 3 j) r"
  moreover have "utf8_next 3 j = 2" using \<open>utf8_tail j\<close> by (simp add: utf8_next_def utf8_tail_def)
  ultimately show thesis by (metis utf8_run_2 that)
qed simp

lemma horner64:
  assumes "z < (64 :: nat)"
  shows "(u * 64 + z) div 64 = u" and "(u * 64 + z) mod 64 = z"
  using assms by simp_all

lemma horner64_less: "u < n \<Longrightarrow> z < 64 \<Longrightarrow> u * 64 + z < n * (64 :: nat)"
  by linarith

lemma horner64_ge: "n \<le> u \<Longrightarrow> n * (64 :: nat) \<le> u * 64 + z"
  by linarith

lemma utf8_units_2:
  assumes "194 \<le> a" and "a < 224" and "utf8_tail b"
  shows "\<exists>c. unicode_scalar c \<and> [a, b] = utf8_units c"
proof -
  define y where "y = b - 128"
  have y: "y < 64" "b = 128 + y" using assms by (auto simp: y_def utf8_tail_def)
  define c where "c = (a - 192) * 64 + y"
  have "c div 64 = a - 192" "c mod 64 = y" "0x80 \<le> c" "c < 0x800"
    using horner64 [OF y(1)] y assms by (auto simp: c_def)
  then have "unicode_scalar c \<and> [a, b] = utf8_units c"
    using y assms by (auto simp: utf8_units_def unicode_scalar_def)
  then show ?thesis ..
qed

lemma utf8_units_3:
  assumes "224 \<le> a" and "a < 240" and "utf8_tail b" and "utf8_tail c"
    and "a = 224 \<longrightarrow> 160 \<le> b" and "a = 237 \<longrightarrow> b < 160"
  shows "\<exists>d. unicode_scalar d \<and> [a, b, c] = utf8_units d"
proof -
  obtain x y z where abc: "a = 224 + x" "b = 128 + y" "c = 128 + z"
    using assms by (metis le_Suc_ex utf8_tail_def)
  have b: "x < 16" "y < 64" "z < 64" "x = 0 \<longrightarrow> 32 \<le> y" "x = 13 \<longrightarrow> y < 32"
    using assms by (auto simp: abc utf8_tail_def)
  define d where "d = (x * 64 + y) * 64 + z"
  have d64: "d div 64 = x * 64 + y" "d mod 64 = z"
    unfolding d_def by (rule horner64 [OF b(3)])+
  have d4096: "d div 4096 = x" using div_mult2_eq [of d 64 64] horner64 [OF b(2)] by (simp add: d64)
  have "0x800 \<le> d"
    using b(4) horner64_ge [of 32 "x * 64 + y" z] by (cases "x = 0") (simp_all add: d_def)
  moreover have "d < 0x10000"
    using horner64_less [OF horner64_less [OF b(1,2)] b(3)] by (simp add: d_def)
  moreover have "d < 0xD800 \<or> 0xE000 \<le> d"
  proof -
    consider "x < 13" | "x = 13" | "14 \<le> x" by linarith
    then show ?thesis
    proof cases
      case 1 then show ?thesis using horner64_less [OF horner64_less [OF 1 b(2)] b(3)] by (simp add: d_def)
    next
      case 2
      then have "x * 64 + y < 864" using b(5) by simp
      from horner64_less [OF this b(3)] show ?thesis by (simp add: d_def)
    next
      case 3 then show ?thesis using horner64_ge [OF horner64_ge [OF 3, of y], of z] by (simp add: d_def)
    qed
  qed
  ultimately have range: "0x800 \<le> d" "d < 0x10000" "d < 0xD800 \<or> 0xE000 \<le> d" by simp_all
  have "[a, b, c] = utf8_units d"
    using range b(2) by (simp add: utf8_units_def d64 d4096 abc)
  with range show ?thesis unfolding unicode_scalar_def by (intro exI [of _ d]) auto
qed

lemma utf8_units_4:
  assumes "240 \<le> a" and "a < 245" and "utf8_tail b" and "utf8_tail c" and "utf8_tail d"
    and "a = 240 \<longrightarrow> 144 \<le> b" and "a = 244 \<longrightarrow> b < 144"
  shows "\<exists>e. unicode_scalar e \<and> [a, b, c, d] = utf8_units e"
proof -
  obtain x y z w where abcd: "a = 240 + x" "b = 128 + y" "c = 128 + z" "d = 128 + w"
    using assms by (metis le_Suc_ex utf8_tail_def)
  have b: "x < 5" "y < 64" "z < 64" "w < 64" "x = 0 \<longrightarrow> 16 \<le> y" "x = 4 \<longrightarrow> y < 16"
    using assms by (auto simp: abcd utf8_tail_def)
  define e where "e = ((x * 64 + y) * 64 + z) * 64 + w"
  have e64: "e div 64 = (x * 64 + y) * 64 + z" "e mod 64 = w"
    unfolding e_def by (rule horner64 [OF b(4)])+
  have e4096: "e div 4096 = x * 64 + y"
    using div_mult2_eq [of e 64 64] horner64 [OF b(3)] by (simp add: e64)
  have e262144: "e div 262144 = x"
    using div_mult2_eq [of e 4096 64] horner64 [OF b(2)] by (simp add: e4096)
  have "16 \<le> x * 64 + y" using b(5) by (cases "x = 0") simp_all
  from horner64_ge [OF horner64_ge [OF this, of z], of w] have "0x10000 \<le> e" by (simp add: e_def)
  moreover have "x * 64 + y < 272" using b(1,2,6) by (cases "x = 4") simp_all
  from horner64_less [OF horner64_less [OF this b(3)] b(4)] have "e \<le> 0x10FFFF" by (simp add: e_def)
  ultimately have range: "0x10000 \<le> e" "e \<le> 0x10FFFF" by simp_all
  have "e div 64 mod 64 = z" "e div 4096 mod 64 = y"
    unfolding e64 e4096 by (rule horner64 [OF b(3)] horner64 [OF b(2)])+
  then have "[a, b, c, d] = utf8_units e"
    using range by (simp add: utf8_units_def e64(2) e262144 abcd)
  with range show ?thesis unfolding unicode_scalar_def by (intro exI [of _ e]) auto
qed

lemma utf8_run_scalar:
  assumes "utf8_run 0 ks" and "ks \<noteq> []"
  obtains c r where "unicode_scalar c" and "ks = utf8_units c @ r" and "utf8_run 0 r"
proof -
  obtain k r where ks: "ks = k # r" using assms(2) by (cases ks) auto
  with assms(1) have run: "utf8_run (utf8_next 0 k) r" and valid: "utf8_next 0 k \<noteq> 1" by simp_all
  consider "k < 128" | "194 \<le> k" "k < 224" | "224 \<le> k" "k < 240" | "240 \<le> k" "k < 245"
    using valid unfolding utf8_next_def by (auto split: if_splits)
  then show thesis
  proof cases
    assume "k < 128"
    then show thesis using run ks
      by (intro that [of k r]) (simp_all add: unicode_scalar_def utf8_units_def utf8_next_def)
  next
    assume k: "194 \<le> k" "k < 224"
    then have "utf8_run 2 r" using run by (simp add: utf8_next_def)
    then obtain b r' where "r = b # r'" "utf8_tail b" "utf8_run 0 r'" by (rule utf8_run_2)
    with utf8_units_2 [OF k] ks show thesis by (metis append.simps that)
  next
    assume k: "224 \<le> k" "k < 240"
    then have "utf8_next 0 k \<in> {3, 4, 5}" by (simp add: utf8_next_def)
    then have "utf8_next 0 k \<noteq> 0" by auto
    with run obtain b r1 where r: "r = b # r1" "utf8_tail b" "utf8_next (utf8_next 0 k) b \<noteq> 1"
      "utf8_run (utf8_next (utf8_next 0 k) b) r1" by (rule utf8_run_tail)
    have "utf8_next (utf8_next 0 k) b = 2 \<and> (k = 224 \<longrightarrow> 160 \<le> b) \<and> (k = 237 \<longrightarrow> b < 160)"
      using r(2,3) k by (auto simp: utf8_next_def utf8_tail_def split: if_splits)
    with r(4) have "utf8_run 2 r1" and b: "k = 224 \<longrightarrow> 160 \<le> b" "k = 237 \<longrightarrow> b < 160" by auto
    from this(1) obtain c r2 where "r1 = c # r2" "utf8_tail c" "utf8_run 0 r2" by (rule utf8_run_2)
    with utf8_units_3 [OF k r(2) _ b] ks r(1) show thesis by (metis append.simps that)
  next
    assume k: "240 \<le> k" "k < 245"
    then have "utf8_next 0 k \<in> {6, 7, 8}" by (simp add: utf8_next_def)
    then have "utf8_next 0 k \<noteq> 0" by auto
    with run obtain b r1 where r: "r = b # r1" "utf8_tail b" "utf8_next (utf8_next 0 k) b \<noteq> 1"
      "utf8_run (utf8_next (utf8_next 0 k) b) r1" by (rule utf8_run_tail)
    have "utf8_next (utf8_next 0 k) b = 3 \<and> (k = 240 \<longrightarrow> 144 \<le> b) \<and> (k = 244 \<longrightarrow> b < 144)"
      using r(2,3) k by (auto simp: utf8_next_def utf8_tail_def split: if_splits)
    with r(4) have "utf8_run 3 r1" and b: "k = 240 \<longrightarrow> 144 \<le> b" "k = 244 \<longrightarrow> b < 144" by auto
    from this(1) obtain c d r2 where "r1 = c # d # r2" "utf8_tail c" "utf8_tail d" "utf8_run 0 r2"
      by (rule utf8_run_3)
    with utf8_units_4 [OF k r(2) _ _ b] ks r(1) show thesis by (metis append.simps that)
  qed
qed

lemma utf8_run_units:
  assumes "unicode_scalar c"
  shows "utf8_run 0 (utf8_units c @ r) \<longleftrightarrow> utf8_run 0 r"
proof -
  consider "c < 0x80" | "0x80 \<le> c" "c < 0x800" | "0x800 \<le> c" "c < 0x10000" | "0x10000 \<le> c"
    by linarith
  then show ?thesis
  proof cases
    case 1 then show ?thesis by (simp add: utf8_units_def utf8_next_def)
  next
    case 2
    then have "2 \<le> c div 64" "c div 64 < 32" by auto
    with 2 show ?thesis by (simp add: utf8_units_def utf8_next_def)
  next
    case 3
    define x y where "x = c div 4096" and "y = c div 64 mod 64"
    have xy: "c div 64 = x * 64 + y" "x < 16" "y < 64"
      using 3 div_mult2_eq [of c 64 64] by (auto simp: x_def y_def)
    have "utf8_next 0 (0xE0 + x) \<in> {3, 4, 5}" "utf8_next (utf8_next 0 (0xE0 + x)) (0x80 + y) = 2"
      using 3 xy assms by (auto simp: utf8_next_def unicode_scalar_def)
    moreover have "utf8_next 2 (0x80 + c mod 64) = 0" by (simp add: utf8_next_def)
    ultimately show ?thesis using 3 by (auto simp: utf8_units_def x_def y_def)
  next
    case 4
    define x y where "x = c div 262144" and "y = c div 4096 mod 64"
    have xy: "c div 4096 = x * 64 + y" "x < 5" "y < 64"
      using 4 assms div_mult2_eq [of c 4096 64] by (auto simp: x_def y_def unicode_scalar_def)
    have "utf8_next 0 (0xF0 + x) \<in> {6, 7, 8}" "utf8_next (utf8_next 0 (0xF0 + x)) (0x80 + y) = 3"
      using 4 xy assms by (auto simp: utf8_next_def unicode_scalar_def)
    moreover have "utf8_next 3 (0x80 + c div 64 mod 64) = 2" "utf8_next 2 (0x80 + c mod 64) = 0"
      by (simp_all add: utf8_next_def)
    ultimately show ?thesis using 4 by (auto simp: utf8_units_def x_def y_def)
  qed
qed

lemma utf8_run_iff:
  "utf8_run 0 ks \<longleftrightarrow> (\<exists>cs. list_all unicode_scalar cs \<and> ks = concat (map utf8_units cs))"
proof
  assume "utf8_run 0 ks"
  then show "\<exists>cs. list_all unicode_scalar cs \<and> ks = concat (map utf8_units cs)"
  proof (induction ks rule: length_induct)
    case (1 ks)
    show ?case
    proof (cases "ks = []")
      case True
      then show ?thesis by (intro exI [of _ "[]"]) simp
    next
      case False
      with "1.prems" obtain c r where c: "unicode_scalar c" "ks = utf8_units c @ r" "utf8_run 0 r"
        by (rule utf8_run_scalar)
      moreover have "length r < length ks" using c(2) by (simp add: utf8_units_def)
      ultimately obtain cs where "list_all unicode_scalar cs" "r = concat (map utf8_units cs)"
        using "1.IH" by blast
      with c show ?thesis by (intro exI [of _ "c # cs"]) simp
    qed
  qed
next
  assume "\<exists>cs. list_all unicode_scalar cs \<and> ks = concat (map utf8_units cs)"
  then obtain cs where "list_all unicode_scalar cs" and ks: "ks = concat (map utf8_units cs)" by blast
  then have "utf8_run 0 (concat (map utf8_units cs))"
    by (induction cs arbitrary: ks) (auto simp: utf8_run_units)
  then show "utf8_run 0 ks" by (simp add: ks)
qed

subsection \<open>The validator accepts UTF-8\<close>

text \<open>The encoding of a list of code points as bytes.\<close>

definition utf8_encode :: "nat list \<Rightarrow> bytes" where
  "utf8_encode cs = map word_of_nat (concat (map utf8_units cs))"

lemma utf8_units_bound: "unicode_scalar c \<Longrightarrow> k \<in> set (utf8_units c) \<Longrightarrow> k < 256"
  by (auto simp: utf8_units_def unicode_scalar_def split: if_splits)

lemma unat_word_of_nat8: "k < 256 \<Longrightarrow> unat (word_of_nat k :: u8) = k"
  by (simp add: unat_of_nat take_bit_eq_mod)

lemma utf8_units_all_bound:
  "list_all unicode_scalar cs \<Longrightarrow> k \<in> set (concat (map utf8_units cs)) \<Longrightarrow> k < 256"
  by (auto simp: list_all_iff dest: utf8_units_bound)

lemma map_unat_utf8_encode:
  assumes "list_all unicode_scalar cs"
  shows "map unat (utf8_encode cs) = concat (map utf8_units cs)"
  unfolding utf8_encode_def map_map
  by (rule map_idI) (simp only: comp_apply unat_word_of_nat8 utf8_units_all_bound [OF assms])

lemma word_of_nat_8_eq:
  assumes "s \<le> 8" and "n \<le> 8"
  shows "(word_of_nat s :: u32) = word_of_nat n \<longleftrightarrow> s = n"
proof -
  have "s < 2 ^ 32" "n < 2 ^ 32" using assms by simp_all
  then show ?thesis by (metis unat_word_of_nat32)
qed

lemma utf8_decode_range_run:
  assumes "m_state v = word_of_nat s" and "s \<le> 8" and "s \<noteq> 1"
  shows "(case utf8_decode_range bs v of (ok, v') \<Rightarrow> ok \<and> utf8_complete v') \<longleftrightarrow>
    utf8_run s (map unat bs)"
  using assms
proof (induction bs arbitrary: v s)
  case Nil
  then show ?case using word_of_nat_8_eq [of s 0] by (simp add: utf8_complete_def utf8_accept_def)
next
  case (Cons b bs)
  let ?v = "utf8_decode v b" and ?s = "utf8_next s (unat b)"
  have v: "m_state ?v = word_of_nat ?s" using Cons.prems by (rule utf8_decode_state)
  have "m_state ?v = utf8_reject \<longleftrightarrow> ?s = 1"
    using word_of_nat_8_eq [of ?s 1] utf8_next_bound [of s "unat b"] by (simp add: v utf8_reject_def)
  then show ?case
    using Cons.IH [OF v utf8_next_bound] by (auto simp: Let_def)
qed

lemma utf8_validate_run: "utf8_validate s \<longleftrightarrow> utf8_run 0 (map unat s)"
  using utf8_decode_range_run [of validator 0 s]
  by (auto simp: utf8_validate_def validator_def utf8_accept_def split: prod.splits bool.splits)

lemma utf8_validate_iff:
  "utf8_validate s \<longleftrightarrow> (\<exists>cs. list_all unicode_scalar cs \<and> s = utf8_encode cs)"
proof -
  have "map unat s = concat (map utf8_units cs) \<longleftrightarrow> s = utf8_encode cs" if "list_all unicode_scalar cs" for cs
  proof
    assume "map unat s = concat (map utf8_units cs)"
    then have "map unat s = map unat (utf8_encode cs)" by (simp only: map_unat_utf8_encode [OF that])
    then show "s = utf8_encode cs" by (rule map_injective) (simp add: inj_unsigned)
  qed (simp add: map_unat_utf8_encode [OF that])
  then show ?thesis unfolding utf8_validate_run utf8_run_iff by blast
qed

subsection \<open>The code point register\<close>

lemma ucast_u8: "k < 256 \<Longrightarrow> (ucast (word_of_nat k :: u8) :: u32) = word_of_nat k"
  by (metis of_nat_unat unat_word_of_nat8)

lemma unat_ucast_u8: "unat (ucast (x :: u8) :: u32) = unat x"
  using unat_u8 [of x] by (simp add: unsigned_ucast_eq take_bit_eq_mod)

lemma utf8_decode_lead:
  assumes "m_state v = 0" and "k < 256"
  shows "m_codepoint (utf8_decode v (word_of_nat k)) = word_of_nat (k mod 2 ^ (8 - unat (utf8d ! k)))"
proof -
  have "drop_bit n (mask 8) AND w = take_bit (8 - n) w" for n and w :: u32
    by (rule bit_word_eqI) (auto simp: bit_simps)
  moreover have "mask 8 = (0xFF :: u32)" by (simp add: mask_numeral)
  ultimately have drop: "drop_bit n (0xFF :: u32) AND w = take_bit (8 - n) w" for n w by metis
  have "take_bit n (word_of_nat k :: u32) = word_of_nat (k mod 2 ^ n)" for n
    by (metis take_bit_of_nat take_bit_eq_mod)
  moreover have "unat (ucast (utf8d ! k) :: u32) = unat (utf8d ! k)"
    by (rule unat_ucast_u8)
  ultimately show ?thesis
    using assms by (simp add: utf8_decode_def Let_def utf8_accept_def unat_word_of_nat8 ucast_u8 drop
      del: take_bit_of_nat)
qed

lemma or_push_bit: "take_bit n (w :: u32) OR push_bit n z = take_bit n w + push_bit n z"
  by (rule disjunctive_add [symmetric]) (auto simp: bit_simps)

lemma utf8_decode_continuation:
  assumes "m_state v \<noteq> 0" and "m_codepoint v = word_of_nat n" and "y < 64"
  shows "m_codepoint (utf8_decode v (word_of_nat (128 + y))) = word_of_nat (n * 64 + y)"
proof -
  have u: "(ucast (word_of_nat (128 + y) :: u8) :: u32) = word_of_nat (128 + y)"
    using assms(3) by (intro ucast_u8) simp
  have "(word_of_nat (128 + y) AND 0x3F :: u32) = take_bit 6 (word_of_nat (128 + y))"
    by (simp add: take_bit_eq_mask mask_numeral)
  also have "\<dots> = word_of_nat (take_bit 6 (128 + y))"
    by (metis take_bit_of_nat)
  also have "take_bit 6 (128 + y) = y" using horner64(2) [OF assms(3), of 2] by (simp add: take_bit_eq_mod)
  finally have low: "(word_of_nat (128 + y) AND 0x3F :: u32) = word_of_nat y" .
  have "take_bit 6 y = y" using assms(3) by (simp add: take_bit_eq_mod)
  then have "take_bit 6 (word_of_nat y :: u32) = word_of_nat y"
    by (metis take_bit_of_nat)
  then have "word_of_nat y OR push_bit 6 (word_of_nat n) = (word_of_nat (n * 64 + y) :: u32)"
    using or_push_bit [of 6 "word_of_nat y" "word_of_nat n"] by (simp add: push_bit_eq_mult algebra_simps)
  with low show ?thesis
    using assms by (simp add: utf8_decode_def Let_def utf8_accept_def u del: of_nat_add)
qed

text \<open>One step of the range loop on a byte that does not reject, in the automaton's terms.\<close>

lemma utf8_decode_range_step:
  assumes "m_state v = word_of_nat s" and "s \<le> 8" and "s \<noteq> 1" and "k < 256"
    and "utf8_next s k = s'" and "s' \<noteq> 1" and "m_codepoint (utf8_decode v (word_of_nat k)) = word_of_nat n"
  shows "utf8_decode_range (word_of_nat k # it) v =
    utf8_decode_range it \<lparr>m_state = word_of_nat s', m_codepoint = word_of_nat n\<rparr>"
proof -
  let ?v = "utf8_decode v (word_of_nat k)"
  have "m_state ?v = word_of_nat s'"
    using utf8_decode_state [OF assms(1-3)] assms(4,5) by (simp add: unat_word_of_nat8)
  moreover from this have "m_state ?v \<noteq> utf8_reject"
    using word_of_nat_8_eq [of s' 1] utf8_next_bound [of s k] assms(5,6) by (simp add: utf8_reject_def)
  moreover from this have "?v = \<lparr>m_state = word_of_nat s', m_codepoint = word_of_nat n\<rparr>"
    using assms(7) calculation(1) by simp
  ultimately show ?thesis by (simp add: Let_def)
qed

lemma utf8_decode_range_tail:
  assumes "st = word_of_nat s" and "st' = word_of_nat s'" and "s \<noteq> 0" and "s \<noteq> 1" and "s \<le> 8"
    and "y < 64" and "utf8_next s (128 + y) = s'" and "s' \<noteq> 1"
  shows "utf8_decode_range (word_of_nat (128 + y) # it) \<lparr>m_state = st, m_codepoint = word_of_nat n\<rparr> =
    utf8_decode_range it \<lparr>m_state = st', m_codepoint = word_of_nat (n * 64 + y)\<rparr>"
  unfolding assms(2)
proof (rule utf8_decode_range_step)
  show "m_codepoint (utf8_decode \<lparr>m_state = st, m_codepoint = word_of_nat n\<rparr> (word_of_nat (128 + y))) =
      word_of_nat (n * 64 + y)"
    by (rule utf8_decode_continuation) (use assms word_of_nat_8_eq [of s 0] in \<open>simp_all\<close>)
qed (use assms in simp_all)

lemma utf8_decode_units:
  assumes "unicode_scalar c"
  shows "utf8_decode_range (map word_of_nat (utf8_units c) @ it) \<lparr>m_state = 0, m_codepoint = w\<rparr> =
    utf8_decode_range it \<lparr>m_state = 0, m_codepoint = word_of_nat c\<rparr>"
proof -
  let ?v = "\<lparr>m_state = 0, m_codepoint = w\<rparr> :: utf8_validator"
  have lead: "utf8_decode_range (word_of_nat k # r) ?v =
      utf8_decode_range r \<lparr>m_state = word_of_nat (utf8_next 0 k),
        m_codepoint = word_of_nat (k mod 2 ^ (8 - unat (utf8d ! k)))\<rparr>"
    if "k < 256" "utf8_next 0 k \<noteq> 1" for k r
    by (rule utf8_decode_range_step [where s = 0]) (use that in \<open>auto intro: utf8_decode_lead\<close>)
  consider "c < 0x80" | "0x80 \<le> c" "c < 0x800" | "0x800 \<le> c" "c < 0x10000" | "0x10000 \<le> c" by linarith
  then show ?thesis
  proof cases
    case 1
    then show ?thesis
      by (simp add: utf8_units_def lead utf8_next_def utf8d_type utf8_type_def del: utf8_decode_range.simps)
  next
    case 2
    define x y where "x = c div 64" and "y = c mod 64"
    have c: "c = x * 64 + y" "y < 64" "2 \<le> x" "x < 32" using 2 by (auto simp: x_def y_def)
    define l where "l = 192 + x"
    have l: "l < 256" "utf8_next 0 l = 2" "l mod 2 ^ (8 - unat (utf8d ! l)) = x"
      using c horner64(2) [of x 3] by (simp_all add: l_def utf8_next_def utf8d_type utf8_type_def)
    have "utf8_units c = [l, 128 + y]" using 2 by (simp add: utf8_units_def x_def y_def l_def)
    moreover have "utf8_next 2 (128 + y) = 0" using c by (simp add: utf8_next_def)
    ultimately show ?thesis
      using c l by (simp add: lead utf8_decode_range_tail [where s = 2 and s' = 0 and st = 2 and st' = 0] del: of_nat_add of_nat_mult utf8_decode_range.simps)
  next
    case 3
    define x y z where "x = c div 4096" and "y = c div 64 mod 64" and "z = c mod 64"
    define l where "l = 224 + x"
    have c: "c = (x * 64 + y) * 64 + z" "x < 16" "y < 64" "z < 64"
      using 3 div_mult2_eq [of c 64 64] by (auto simp: x_def y_def z_def)
    have l: "l < 256" "utf8_next 0 l \<in> {3, 4, 5}" "l mod 2 ^ (8 - unat (utf8d ! l)) = x"
      using c mod_mult_self3 [of 7 32 x] by (simp_all add: l_def utf8_next_def utf8d_type utf8_type_def)
    have "utf8_units c = [l, 128 + y, 128 + z]" using 3 by (simp add: utf8_units_def x_def y_def z_def l_def)
    moreover have "utf8_next (utf8_next 0 l) (128 + y) = 2"
      using c 3 assms by (auto simp: utf8_next_def unicode_scalar_def l_def)
    moreover have "utf8_next 2 (128 + z) = 0" using c by (simp add: utf8_next_def)
    moreover have "utf8_next 0 l \<noteq> 0 \<and> utf8_next 0 l \<noteq> 1 \<and> utf8_next 0 l \<le> 8" using l(2) by auto
    ultimately show ?thesis
      using c l by (simp add: lead utf8_decode_range_tail [where s = "utf8_next 0 l" and s' = 2 and st' = 2]
        utf8_decode_range_tail [where s = 2 and s' = 0 and st = 2 and st' = 0] del: of_nat_add of_nat_mult utf8_decode_range.simps)
  next
    case 4
    define x y z u where "x = c div 262144" and "y = c div 4096 mod 64" and "z = c div 64 mod 64" and "u = c mod 64"
    define l where "l = 240 + x"
    have "x < 5" using 4 assms by (auto simp: x_def unicode_scalar_def)
    then have c: "c = ((x * 64 + y) * 64 + z) * 64 + u" "x < 5" "y < 64" "z < 64" "u < 64"
      using div_mult2_eq [of c 4096 64] div_mult2_eq [of c 64 64]
      by (auto simp: x_def y_def z_def u_def)
    have l: "l < 256" "utf8_next 0 l \<in> {6, 7, 8}" "l mod 2 ^ (8 - unat (utf8d ! l)) = x"
      using c mod_mult_self3 [of 60 4 x] mod_mult_self3 [of 30 8 x]
      by (simp_all add: l_def utf8_next_def utf8d_type utf8_type_def)
    have "utf8_units c = [l, 128 + y, 128 + z, 128 + u]"
      using 4 by (simp add: utf8_units_def x_def y_def z_def u_def l_def)
    moreover have "utf8_next (utf8_next 0 l) (128 + y) = 3"
      using c 4 assms by (auto simp: utf8_next_def unicode_scalar_def l_def)
    moreover have "utf8_next 3 (128 + z) = 2" "utf8_next 2 (128 + u) = 0" using c by (simp_all add: utf8_next_def)
    moreover have "utf8_next 0 l \<noteq> 0 \<and> utf8_next 0 l \<noteq> 1 \<and> utf8_next 0 l \<le> 8" using l(2) by auto
    ultimately show ?thesis
      using c l by (simp add: lead utf8_decode_range_tail [where s = "utf8_next 0 l" and s' = 3 and st' = 3]
        utf8_decode_range_tail [where s = 3 and s' = 2 and st = 3 and st' = 2] utf8_decode_range_tail [where s = 2 and s' = 0 and st = 2 and st' = 0]
        del: of_nat_add of_nat_mult utf8_decode_range.simps)
  qed
qed

lemma utf8_decode_units_validator:
  assumes "unicode_scalar c"
  shows "utf8_decode_range (utf8_encode [c]) validator = (True, \<lparr>m_state = utf8_accept, m_codepoint = word_of_nat c\<rparr>)"
  using utf8_decode_units [OF assms, of "[]" 0]
  by (simp add: utf8_encode_def validator_def utf8_accept_def)

text \<open>Feeding the range in two parts is feeding it whole.\<close>

lemma utf8_decode_range_append:
  "utf8_decode_range (xs @ ys) v =
    (case utf8_decode_range xs v of
       (False, v') \<Rightarrow> (False, v')
     | (True, v') \<Rightarrow> utf8_decode_range ys v')"
  by (induction xs arbitrary: v) (simp_all add: Let_def)

end
