(* ===== verification/Ws_Close.thy ===== *)
theory Ws_Close
  imports Ws_Error Ws_Frame Ws_Utf8
begin

text \<open>
  \<open>WebSocketPP/websocketpp/close.hpp\<close>: close codes, their ranges and names, and the code and
  reason of a close frame's payload; \<open>to_ws\<close> of \<open>processors/base.hpp\<close>, the close code that
  answers a processor's error.
\<close>

subsection \<open>Close codes\<close>

type_synonym close_code = u16

definition cs_blank :: close_code where "cs_blank = 0"
definition cs_omit_handshake :: close_code where "cs_omit_handshake = 1"
definition cs_force_tcp_drop :: close_code where "cs_force_tcp_drop = 2"
definition cs_normal :: close_code where "cs_normal = 1000"
definition cs_going_away :: close_code where "cs_going_away = 1001"
definition cs_protocol_error :: close_code where "cs_protocol_error = 1002"
definition cs_unsupported_data :: close_code where "cs_unsupported_data = 1003"
definition cs_no_status :: close_code where "cs_no_status = 1005"
definition cs_abnormal_close :: close_code where "cs_abnormal_close = 1006"
definition cs_invalid_payload :: close_code where "cs_invalid_payload = 1007"
definition cs_policy_violation :: close_code where "cs_policy_violation = 1008"
definition cs_message_too_big :: close_code where "cs_message_too_big = 1009"
definition cs_extension_required :: close_code where "cs_extension_required = 1010"
definition cs_internal_endpoint_error :: close_code where "cs_internal_endpoint_error = 1011"
definition cs_service_restart :: close_code where "cs_service_restart = 1012"
definition cs_try_again_later :: close_code where "cs_try_again_later = 1013"
definition cs_bad_gateway :: close_code where "cs_bad_gateway = 1014"
definition cs_tls_handshake :: close_code where "cs_tls_handshake = 1015"
definition cs_subprotocol_error :: close_code where "cs_subprotocol_error = 3000"
definition cs_invalid_subprotocol_data :: close_code where "cs_invalid_subprotocol_data = 3001"
definition cs_rsv_start :: close_code where "cs_rsv_start = 1016"
definition cs_rsv_end :: close_code where "cs_rsv_end = 2999"
definition cs_invalid_low :: close_code where "cs_invalid_low = 999"
definition cs_invalid_high :: close_code where "cs_invalid_high = 5000"

lemmas close_codes = cs_blank_def cs_omit_handshake_def cs_force_tcp_drop_def cs_normal_def
  cs_going_away_def cs_protocol_error_def cs_unsupported_data_def cs_no_status_def
  cs_abnormal_close_def cs_invalid_payload_def cs_policy_violation_def cs_message_too_big_def
  cs_extension_required_def cs_internal_endpoint_error_def cs_service_restart_def
  cs_try_again_later_def cs_bad_gateway_def cs_tls_handshake_def cs_subprotocol_error_def
  cs_invalid_subprotocol_data_def cs_rsv_start_def cs_rsv_end_def cs_invalid_low_def cs_invalid_high_def

definition close_reserved :: "close_code \<Rightarrow> bool" where
  "close_reserved code \<longleftrightarrow> (code \<ge> cs_rsv_start \<and> code \<le> cs_rsv_end) \<or> code = 1004"

definition close_invalid :: "close_code \<Rightarrow> bool" where
  "close_invalid code \<longleftrightarrow> code \<le> cs_invalid_low \<or> code \<ge> cs_invalid_high \<or>
     code = cs_no_status \<or> code = cs_abnormal_close \<or> code = cs_tls_handshake"

definition close_terminal :: "close_code \<Rightarrow> bool" where
  "close_terminal code \<longleftrightarrow> code = cs_protocol_error \<or> code = cs_invalid_payload \<or>
     code = cs_policy_violation \<or> code = cs_message_too_big \<or> code = cs_internal_endpoint_error"

definition close_strings :: "(close_code \<times> string) list" where
  "close_strings =
    [(cs_normal, ''Normal close''),
     (cs_going_away, ''Going away''),
     (cs_protocol_error, ''Protocol error''),
     (cs_unsupported_data, ''Unsupported data''),
     (cs_no_status, ''No status set''),
     (cs_abnormal_close, ''Abnormal close''),
     (cs_invalid_payload, ''Invalid payload''),
     (cs_policy_violation, ''Policy violoation''),
     (cs_message_too_big, ''Message too big''),
     (cs_extension_required, ''Extension required''),
     (cs_internal_endpoint_error, ''Internal endpoint error''),
     (cs_service_restart, ''Service restart''),
     (cs_try_again_later, ''Try again later''),
     (cs_bad_gateway, ''Bad gateway''),
     (cs_tls_handshake, ''TLS handshake failure''),
     (cs_subprotocol_error, ''Generic subprotocol error''),
     (cs_invalid_subprotocol_data, ''Invalid subprotocol data'')]"

definition close_string :: "close_code \<Rightarrow> string" where
  "close_string code =
     (case map_of close_strings code of Some s \<Rightarrow> s | None \<Rightarrow> ''Unknown'')"

subsection \<open>The payload of a close frame\<close>

definition extract_code :: "bool \<Rightarrow> bytes \<Rightarrow> close_code \<times> error_code" where
  "extract_code le payload =
     (if length payload = 0 then (cs_no_status, NoError)
      else if length payload = 1 then (cs_protocol_error, WsError WE_bad_close_code)
      else
        (let code = ntohs le (bytes_word le [payload ! 0, payload ! 1]);
             ec = NoError;
             ec = (if close_invalid code then WsError WE_invalid_close_code else ec);
             ec = (if close_reserved code then WsError WE_reserved_close_code else ec)
         in (code, ec)))"

definition extract_reason :: "bytes \<Rightarrow> bytes \<times> error_code" where
  "extract_reason payload =
     (let reason = (if length payload > 2 then drop 2 payload else [])
      in (reason, if utf8_validate reason then NoError else WsError WE_invalid_utf8))"

subsection \<open>The close code for an error\<close>

definition to_ws :: "error_code \<Rightarrow> close_code" where
  "to_ws ec =
     (case ec of
        ProcessorError e \<Rightarrow>
          if e \<in> {PE_protocol_violation, PE_control_too_big, PE_invalid_opcode, PE_invalid_rsv_bit,
                   PE_fragmented_control, PE_invalid_continuation, PE_masking_required,
                   PE_masking_forbidden, PE_reserved_close_code, PE_invalid_close_code}
          then cs_protocol_error
          else if e \<in> {PE_invalid_payload, PE_invalid_utf8} then cs_invalid_payload
          else if e = PE_message_too_big then cs_message_too_big
          else cs_internal_endpoint_error
      | _ \<Rightarrow> cs_blank)"

lemma to_ws_values:
  "to_ws (ProcessorError e) \<in> {cs_protocol_error, cs_invalid_payload, cs_message_too_big, cs_internal_endpoint_error}"
  by (simp add: to_ws_def)

lemma to_ws_sendable:
  "close_terminal (to_ws (ProcessorError e))"
  "\<not> close_invalid (to_ws (ProcessorError e))" "\<not> close_reserved (to_ws (ProcessorError e))"
  using to_ws_values [of e]
  by (auto simp: close_terminal_def close_invalid_def close_reserved_def close_codes)

text \<open>No code is both invalid and reserved, so the error of \<open>extract_code\<close> is that of the code.\<close>

lemma invalid_not_reserved: "close_invalid code \<Longrightarrow> \<not> close_reserved code"
  unfolding close_invalid_def close_reserved_def close_codes
  by (auto simp: word_le_nat_alt)

end
