(* ===== verification/Ws_Message.thy ===== *)
theory Ws_Message
  imports Ws_Frame
begin

text \<open>
  \<open>WebSocketPP/websocketpp/message_buffer/message.hpp\<close>: the buffer of one message, and the
  allocation of one by \<open>message_buffer/alloc.hpp\<close>. A pointer to a message is an option; the
  capacity that \<open>reserve\<close> asks for is not part of a message's value.
\<close>

record ws_message =
  m_header :: bytes
  m_extension_data :: bytes
  m_payload :: bytes
  m_opcode :: opcode
  m_prepared :: bool
  m_fin :: bool
  m_terminal :: bool
  m_compressed :: bool

definition message_init :: "opcode \<Rightarrow> ws_message" where
  "message_init op =
     \<lparr>m_header = [], m_extension_data = [], m_payload = [], m_opcode = op, m_prepared = False,
      m_fin = True, m_terminal = False, m_compressed = False\<rparr>"

definition manager_get_message :: "opcode \<Rightarrow> u64 \<Rightarrow> ws_message option" where
  "manager_get_message op sz = Some (message_init op)"

definition set_prepared :: "bool \<Rightarrow> ws_message \<Rightarrow> ws_message" where
  "set_prepared v m = m\<lparr>m_prepared := v\<rparr>"

definition set_compressed :: "bool \<Rightarrow> ws_message \<Rightarrow> ws_message" where
  "set_compressed v m = m\<lparr>m_compressed := v\<rparr>"

definition set_terminal :: "bool \<Rightarrow> ws_message \<Rightarrow> ws_message" where
  "set_terminal v m = m\<lparr>m_terminal := v\<rparr>"

definition msg_set_fin :: "bool \<Rightarrow> ws_message \<Rightarrow> ws_message" where
  "msg_set_fin v m = m\<lparr>m_fin := v\<rparr>"

definition set_opcode :: "opcode \<Rightarrow> ws_message \<Rightarrow> ws_message" where
  "set_opcode op m = m\<lparr>m_opcode := op\<rparr>"

definition set_header :: "bytes \<Rightarrow> ws_message \<Rightarrow> ws_message" where
  "set_header h m = m\<lparr>m_header := h\<rparr>"

definition set_payload :: "bytes \<Rightarrow> ws_message \<Rightarrow> ws_message" where
  "set_payload pl m = m\<lparr>m_payload := pl\<rparr>"

definition append_payload :: "bytes \<Rightarrow> ws_message \<Rightarrow> ws_message" where
  "append_payload pl m = m\<lparr>m_payload := m_payload m @ pl\<rparr>"

lemmas message_setters = set_prepared_def set_compressed_def set_terminal_def msg_set_fin_def
  set_opcode_def set_header_def set_payload_def append_payload_def

end
