(* ===== verification/Ws_Hybi13.thy ===== *)
theory Ws_Hybi13
  imports Ws_Close Ws_Message
begin

text \<open>
  \<open>WebSocketPP/websocketpp/processors/hybi13.hpp\<close>: the processor of RFC 6455 frames, reading
  (\<open>consume\<close>, a state machine over the bytes received) and writing (\<open>prepare_data_frame\<close>,
  \<open>prepare_control\<close>, \<open>prepare_close\<close>). \<open>m_current_msg\<close>, a pointer to one of the two message
  members, is the name of that member. Dereferencing a null message pointer and copying past
  the twelve bytes of the extended header are \<open>Undefined\<close>; \<open>size_t\<close> arithmetic on lengths taken
  from the wire wraps as 64-bit words do. The permessage-deflate extension is the disabled one
  of \<open>extensions/permessage_deflate/disabled.hpp\<close>, as in the configuration the server uses.
\<close>

subsection \<open>State\<close>

datatype hybi13_state = HEADER_BASIC | HEADER_EXTENDED | EXTENSION | APPLICATION | READY | FATAL_ERROR

record msg_metadata =
  msg_ptr :: "ws_message option"
  prepared_key :: u64
  md_validator :: utf8_validator

datatype current_msg = NoMsg | DataMsg | ControlMsg

record hybi13 =
  m_server :: bool
  m_max_message_size :: u64
  m_hstate :: hybi13_state
  m_basic_header :: basic_header
  m_extended_header :: bytes
  m_bytes_needed :: u64
  m_cursor :: nat
  m_data_msg :: msg_metadata
  m_control_msg :: msg_metadata
  m_current_msg :: current_msg

definition msg_metadata_of :: "ws_message option \<Rightarrow> u64 \<Rightarrow> msg_metadata" where
  "msg_metadata_of m p = \<lparr>msg_ptr = m, prepared_key = p, md_validator = validator\<rparr>"

definition reset_headers :: "hybi13 \<Rightarrow> hybi13" where
  "reset_headers s =
     s\<lparr>m_hstate := HEADER_BASIC,
       m_bytes_needed := of_nat BASIC_HEADER_LENGTH,
       m_basic_header := \<lparr>b0 = 0x00, b1 = 0x00\<rparr>,
       m_extended_header := replicate MAX_EXTENDED_HEADER_LENGTH 0\<rparr>"

definition hybi13_init :: "bool \<Rightarrow> u64 \<Rightarrow> hybi13" where
  "hybi13_init server max_message_size =
     reset_headers
       \<lparr>m_server = server, m_max_message_size = max_message_size, m_hstate = HEADER_BASIC,
        m_basic_header = \<lparr>b0 = 0, b1 = 0\<rparr>, m_extended_header = replicate 12 0, m_bytes_needed = 0,
        m_cursor = 0, m_data_msg = msg_metadata_of None 0, m_control_msg = msg_metadata_of None 0,
        m_current_msg = NoMsg\<rparr>"

definition current_metadata :: "hybi13 \<Rightarrow> msg_metadata" where
  "current_metadata s =
     (case m_current_msg s of
        DataMsg \<Rightarrow> m_data_msg s
      | ControlMsg \<Rightarrow> m_control_msg s
      | NoMsg \<Rightarrow> msg_metadata_of None 0)"

definition set_current_metadata :: "msg_metadata \<Rightarrow> hybi13 \<Rightarrow> hybi13" where
  "set_current_metadata md s =
     (case m_current_msg s of
        DataMsg \<Rightarrow> s\<lparr>m_data_msg := md\<rparr>
      | ControlMsg \<Rightarrow> s\<lparr>m_control_msg := md\<rparr>
      | NoMsg \<Rightarrow> s)"

definition ready :: "hybi13 \<Rightarrow> bool" where
  "ready s \<longleftrightarrow> m_hstate s = READY"

definition get_error :: "hybi13 \<Rightarrow> bool" where
  "get_error s \<longleftrightarrow> m_hstate s = FATAL_ERROR"

text \<open>The disabled extension.\<close>

definition pmd_is_implemented :: bool where "pmd_is_implemented \<longleftrightarrow> False"
definition pmd_is_enabled :: bool where "pmd_is_enabled \<longleftrightarrow> False"
definition pmd_compress :: "bytes \<Rightarrow> bytes \<Rightarrow> error_code \<times> bytes" where
  "pmd_compress i o' = (ExtensionError XE_disabled, o')"
definition pmd_decompress :: "bytes \<Rightarrow> bytes \<Rightarrow> error_code \<times> bytes" where
  "pmd_decompress buf out = (ExtensionError XE_disabled, out)"

subsection \<open>Validation of headers\<close>

definition validate_incoming_basic_header :: "basic_header \<Rightarrow> bool \<Rightarrow> bool \<Rightarrow> error_code" where
  "validate_incoming_basic_header h is_server new_msg =
     (let op = get_opcode h in
      if opcode_is_control op \<and> get_basic_size h > payload_size_basic then ProcessorError PE_control_too_big
      else if get_rsv1 h \<and> (\<not> pmd_is_enabled \<or> opcode_is_control op) then ProcessorError PE_invalid_rsv_bit
      else if get_rsv2 h \<or> get_rsv3 h then ProcessorError PE_invalid_rsv_bit
      else if opcode_reserved op then ProcessorError PE_invalid_opcode
      else if opcode_invalid op then ProcessorError PE_invalid_opcode
      else if opcode_is_control op \<and> \<not> get_fin h then ProcessorError PE_fragmented_control
      else if new_msg \<and> op = op_continuation then ProcessorError PE_invalid_continuation
      else if \<not> new_msg \<and> \<not> opcode_is_control op \<and> op \<noteq> op_continuation
        then ProcessorError PE_invalid_continuation
      else if is_server \<and> \<not> get_masked h then ProcessorError PE_masking_required
      else if \<not> is_server \<and> get_masked h then ProcessorError PE_masking_forbidden
      else NoError)"

definition validate_incoming_extended_header :: "bool \<Rightarrow> basic_header \<Rightarrow> bytes \<Rightarrow> error_code" where
  "validate_incoming_extended_header le h e =
     (let basic_size = get_basic_size h;
          payload_size = get_payload_size le h e
      in if basic_size = payload_size_code_16bit \<and> payload_size \<le> ucast payload_size_basic
         then ProcessorError PE_non_minimal_encoding
         else if basic_size = payload_size_code_64bit \<and> payload_size \<le> ucast payload_size_extended
         then ProcessorError PE_non_minimal_encoding
         else NoError)"

subsection \<open>Reading\<close>

definition copy_basic_header_bytes :: "bytes \<Rightarrow> hybi13 \<Rightarrow> nat \<times> hybi13" where
  "copy_basic_header_bytes buf s =
     (let len = length buf; h = m_basic_header s in
      if len = 0 \<or> m_bytes_needed s = 0 then (0, s)
      else if len > 1 then
        (if m_bytes_needed s = 2
         then (2, s\<lparr>m_basic_header := h\<lparr>b0 := buf ! 0, b1 := buf ! 1\<rparr>, m_bytes_needed := m_bytes_needed s - 2\<rparr>)
         else (1, s\<lparr>m_basic_header := h\<lparr>b1 := buf ! 0\<rparr>, m_bytes_needed := m_bytes_needed s - 1\<rparr>))
      else
        (if m_bytes_needed s = 2
         then (1, s\<lparr>m_basic_header := h\<lparr>b0 := buf ! 0\<rparr>, m_bytes_needed := m_bytes_needed s - 1\<rparr>)
         else (1, s\<lparr>m_basic_header := h\<lparr>b1 := buf ! 0\<rparr>, m_bytes_needed := m_bytes_needed s - 1\<rparr>)))"

definition copy_extended_header_bytes :: "bytes \<Rightarrow> (hybi13, nat) prog" where
  "copy_extended_header_bytes buf = (\<lambda>s.
     let bytes_to_read = min (unat (m_bytes_needed s)) (length buf) in
     if m_cursor s + bytes_to_read > MAX_EXTENDED_HEADER_LENGTH then (Undefined, s)
     else (Ret bytes_to_read,
       s\<lparr>m_extended_header := copy_at (m_cursor s) (take bytes_to_read buf) (m_extended_header s),
         m_cursor := m_cursor s + bytes_to_read,
         m_bytes_needed := m_bytes_needed s - of_nat bytes_to_read\<rparr>))"

definition process_payload_bytes :: "bool \<Rightarrow> bytes \<Rightarrow> (hybi13, nat \<times> error_code) prog" where
  "process_payload_bytes le buf = (\<lambda>s.
     let len = length buf;
         md = current_metadata s;
         (buf, md) = (if get_masked (m_basic_header s)
                      then (case byte_mask_circ le (prepared_key md) len buf of
                              (buf, key) \<Rightarrow> (buf, md\<lparr>prepared_key := key\<rparr>))
                      else (buf, md));
         s = set_current_metadata md s
     in case msg_ptr md of
          None \<Rightarrow> (Undefined, s)
        | Some m \<Rightarrow>
            (let offset = length (m_payload m);
                 (ec, out) = (if pmd_is_enabled \<and> m_compressed m then pmd_decompress buf (m_payload m)
                              else (NoError, m_payload m @ buf));
                 md = md\<lparr>msg_ptr := Some (m\<lparr>m_payload := out\<rparr>)\<rparr>;
                 s = set_current_metadata md s
             in if has_error ec then (Ret (0, ec), s)
                else
                  (let (valid, v) = (if m_opcode m = op_text
                                     then utf8_decode_range (drop offset out) (md_validator md)
                                     else (True, md_validator md));
                       s = set_current_metadata (md\<lparr>md_validator := v\<rparr>) s
                   in if \<not> valid then (Ret (0, ProcessorError PE_invalid_utf8), s)
                      else (Ret (len, NoError), s\<lparr>m_bytes_needed := m_bytes_needed s - of_nat len\<rparr>))))"

definition finalize_message :: "(hybi13, error_code) prog" where
  "finalize_message = (\<lambda>s.
     case msg_ptr (current_metadata s) of
       None \<Rightarrow> (Undefined, s)
     | Some m \<Rightarrow>
         (let (ec, out) = (if pmd_is_enabled \<and> m_compressed m
                           then pmd_decompress [0x00, 0x00, 0xff, 0xff] (m_payload m)
                           else (NoError, m_payload m));
              s = set_current_metadata ((current_metadata s)\<lparr>msg_ptr := Some (m\<lparr>m_payload := out\<rparr>)\<rparr>) s
          in if has_error ec then (Ret ec, s)
             else if get_opcode (m_basic_header s) = op_text \<and> \<not> utf8_complete (md_validator (current_metadata s))
             then (Ret (ProcessorError PE_invalid_utf8), s)
             else (Ret NoError, s\<lparr>m_hstate := READY\<rparr>)))"

text \<open>The start of a frame's payload: the buffer of a new message, or the next frame of one.\<close>

definition start_payload :: "bool \<Rightarrow> (hybi13, error_code) prog" where
  "start_payload le = (\<lambda>s.
     let h = m_basic_header s;
         e = m_extended_header s;
         s = s\<lparr>m_hstate := APPLICATION, m_bytes_needed := get_payload_size le h e\<rparr>;
         op = get_opcode h;
         key = prepare_masking_key le (get_masking_key h e)
     in if opcode_is_control op then
          (Ret NoError,
           s\<lparr>m_control_msg := msg_metadata_of (manager_get_message op (m_bytes_needed s)) key,
             m_current_msg := ControlMsg\<rparr>)
        else case msg_ptr (m_data_msg s) of
          None \<Rightarrow>
            if m_bytes_needed s > m_max_message_size s then (Ret (ProcessorError PE_message_too_big), s)
            else
              (let m = manager_get_message op (m_bytes_needed s);
                   m = (if pmd_is_enabled then map_option (set_compressed (get_rsv1 h)) m else m)
               in (Ret NoError, s\<lparr>m_data_msg := msg_metadata_of m key, m_current_msg := DataMsg\<rparr>))
        | Some m \<Rightarrow>
            if of_nat (length (m_payload m)) + m_bytes_needed s > m_max_message_size s
            then (Ret (ProcessorError PE_message_too_big), s)
            else (Ret NoError, s\<lparr>m_data_msg := (m_data_msg s)\<lparr>prepared_key := key\<rparr>, m_current_msg := DataMsg\<rparr>))"

subsection \<open>The loop\<close>

text \<open>
  One iteration on the bytes from \<open>p\<close> on: the loop goes on at a new position, or is left with
  an error code. \<open>continue\<close> and the end of the body are the same.
\<close>

datatype consume_step = Continue nat | Break nat error_code

definition consume_basic_header :: "bytes \<Rightarrow> nat \<Rightarrow> (hybi13, consume_step) prog" where
  "consume_basic_header buf p = (\<lambda>s.
     case copy_basic_header_bytes (drop p buf) s of
       (k, s) \<Rightarrow>
         if m_bytes_needed s > 0 then (Ret (Continue (p + k)), s)
         else
           (let ec = validate_incoming_basic_header (m_basic_header s) (m_server s) (msg_ptr (m_data_msg s) = None) in
            if has_error ec then (Ret (Break (p + k) ec), s)
            else (Ret (Continue (p + k)),
              s\<lparr>m_hstate := HEADER_EXTENDED, m_cursor := 0,
                m_bytes_needed := of_nat (get_header_len (m_basic_header s) - BASIC_HEADER_LENGTH)\<rparr>)))"

definition consume_extended_header :: "bool \<Rightarrow> bytes \<Rightarrow> nat \<Rightarrow> (hybi13, consume_step) prog" where
  "consume_extended_header le buf p =
     bindM (copy_extended_header_bytes (drop p buf)) (\<lambda>k s.
       if m_bytes_needed s > 0 then (Ret (Continue (p + k)), s)
       else
         (let ec = validate_incoming_extended_header le (m_basic_header s) (m_extended_header s) in
          if has_error ec then (Ret (Break (p + k) ec), s)
          else
            bindM (start_payload le) (\<lambda>ec.
              if has_error ec then ret (Break (p + k) ec) else ret (Continue (p + k))) s))"

definition consume_payload :: "bool \<Rightarrow> bytes \<Rightarrow> nat \<Rightarrow> (hybi13, consume_step) prog" where
  "consume_payload le buf p = (\<lambda>s.
     let bytes_to_process = min (unat (m_bytes_needed s)) (length buf - p) in
     bindM (if bytes_to_process > 0 then process_payload_bytes le (take bytes_to_process (drop p buf))
            else ret (0, NoError))
       (\<lambda>(k, ec) s.
          if has_error ec then (Ret (Break (p + k) ec), s)
          else if m_bytes_needed s > 0 then (Ret (Continue (p + k)), s)
          else if get_fin (m_basic_header s) then
            bindM finalize_message (\<lambda>ec.
              if has_error ec then ret (Break (p + k) ec) else ret (Continue (p + k))) s
          else (Ret (Continue (p + k)), reset_headers s)) s)"

definition consume_step :: "bool \<Rightarrow> bytes \<Rightarrow> nat \<Rightarrow> (hybi13, consume_step) prog" where
  "consume_step le buf p = (\<lambda>s.
     case m_hstate s of
       HEADER_BASIC \<Rightarrow> consume_basic_header buf p s
     | HEADER_EXTENDED \<Rightarrow> consume_extended_header le buf p s
     | EXTENSION \<Rightarrow> (Ret (Continue p), s\<lparr>m_hstate := APPLICATION\<rparr>)
     | APPLICATION \<Rightarrow> consume_payload le buf p s
     | _ \<Rightarrow> (Ret (Break 0 (ProcessorError PE_general)), s))"

definition consume_more :: "bytes \<Rightarrow> nat \<Rightarrow> hybi13 \<Rightarrow> bool" where
  "consume_more buf p s \<longleftrightarrow>
     m_hstate s \<noteq> READY \<and> m_hstate s \<noteq> FATAL_ERROR \<and> (p < length buf \<or> m_bytes_needed s = 0)"

subsection \<open>Every iteration makes progress\<close>

lemma has_error_simps [simp]: "\<not> has_error NoError" "has_error (ProcessorError e)" "has_error (ExtensionError x)" "has_error (WsError w)" "has_error (TransportError y)"
  by (simp_all add: has_error_def)

lemma set_current_metadata_sel [simp]:
  "m_bytes_needed (set_current_metadata md s) = m_bytes_needed s"
  "m_hstate (set_current_metadata md s) = m_hstate s"
  "m_basic_header (set_current_metadata md s) = m_basic_header s"
  "m_extended_header (set_current_metadata md s) = m_extended_header s"
  "m_server (set_current_metadata md s) = m_server s"
  "m_max_message_size (set_current_metadata md s) = m_max_message_size s"
  "m_cursor (set_current_metadata md s) = m_cursor s"
  "m_current_msg (set_current_metadata md s) = m_current_msg s"
  by (simp_all add: set_current_metadata_def split: current_msg.split)

lemma current_set_metadata [simp]:
  "m_current_msg s \<noteq> NoMsg \<Longrightarrow> current_metadata (set_current_metadata md s) = md"
  by (cases "m_current_msg s") (simp_all add: set_current_metadata_def current_metadata_def)

lemma set_set_current_metadata [simp]:
  "set_current_metadata md (set_current_metadata md' s) = set_current_metadata md s"
  by (cases "m_current_msg s") (simp_all add: set_current_metadata_def)

lemma reset_headers_sel [simp]:
  "m_bytes_needed (reset_headers s) = 2" "m_hstate (reset_headers s) = HEADER_BASIC"
  "m_server (reset_headers s) = m_server s" "m_max_message_size (reset_headers s) = m_max_message_size s"
  "m_data_msg (reset_headers s) = m_data_msg s" "m_control_msg (reset_headers s) = m_control_msg s"
  "m_current_msg (reset_headers s) = m_current_msg s"
  "m_extended_header (reset_headers s) = replicate 12 0"
  by (simp_all add: reset_headers_def BASIC_HEADER_LENGTH_def MAX_EXTENDED_HEADER_LENGTH_def)

definition consume_rank :: "hybi13 \<Rightarrow> nat" where
  "consume_rank s =
     (case m_hstate s of
        HEADER_BASIC \<Rightarrow> if m_bytes_needed s = 0 then 4 else 0
      | HEADER_EXTENDED \<Rightarrow> 3
      | EXTENSION \<Rightarrow> 2
      | APPLICATION \<Rightarrow> 1
      | _ \<Rightarrow> 0)"

lemma consume_rank_le: "consume_rank s \<le> 4"
  by (simp add: consume_rank_def split: hybi13_state.split)

lemma copy_basic_progress:
  "copy_basic_header_bytes buf s = (k, s') \<Longrightarrow>
   k \<le> length buf \<and> (0 < length buf \<and> m_bytes_needed s \<noteq> 0 \<longrightarrow> 0 < k) \<and>
   (m_bytes_needed s = 0 \<longrightarrow> k = 0 \<and> s' = s) \<and> m_hstate s' = m_hstate s"
  by (cases buf) (auto simp: copy_basic_header_bytes_def Let_def Suc_le_eq split: if_splits)

lemma copy_extended_progress:
  "copy_extended_header_bytes buf s = (Ret k, s') \<Longrightarrow>
   k \<le> length buf \<and> (0 < length buf \<and> m_bytes_needed s \<noteq> 0 \<longrightarrow> 0 < k)"
  by (auto simp: copy_extended_header_bytes_def Let_def unat_gt_0 split: if_splits)

lemma process_payload_progress:
  "process_payload_bytes le buf s = (Ret (k, ec), s') \<Longrightarrow> k \<le> length buf \<and> (\<not> has_error ec \<longrightarrow> k = length buf)"
  by (auto simp: process_payload_bytes_def Let_def pmd_is_enabled_def split: if_splits prod.splits option.splits)

lemma length_byte_mask_circ [simp]: "length (fst (byte_mask_circ le pk n buf)) = n"
  by (simp add: byte_mask_circ_def Let_def)

lemma start_payload_hstate: "start_payload le s = (Ret ec, s') \<Longrightarrow> m_hstate s' = APPLICATION"
  by (auto simp: start_payload_def Let_def split: if_splits option.splits)

lemma finalize_hstate: "finalize_message s = (Ret ec, s') \<Longrightarrow> \<not> has_error ec \<Longrightarrow> m_hstate s' = READY"
  by (auto simp: finalize_message_def Let_def split: if_splits option.splits prod.splits)

lemma bindM_RetE:
  assumes "bindM m f s = (Ret b, s')"
  obtains a t where "m s = (Ret a, t)" and "f a t = (Ret b, s')"
  using assms by (auto simp: bindM_def split: prod.splits outcome.splits)

lemma consume_basic_progress:
  assumes "consume_basic_header buf p s = (Ret (Continue p'), s')" and "m_hstate s = HEADER_BASIC"
    and "p < length buf \<or> m_bytes_needed s = 0" and "p \<le> length buf"
  shows "p' \<le> length buf \<and> 5 * (length buf - p') + consume_rank s' < 5 * (length buf - p) + consume_rank s"
proof -
  obtain k t where k: "copy_basic_header_bytes (drop p buf) s = (k, t)" by fastforce
  note pr = copy_basic_progress [OF k]
  have p': "p' = p + k" using assms(1) k by (auto simp: consume_basic_header_def Let_def split: if_splits)
  show ?thesis
  proof (cases "m_bytes_needed s = 0")
    case True
    then have "m_hstate s' = HEADER_EXTENDED"
      using assms(1) k pr by (auto simp: consume_basic_header_def Let_def split: if_splits)
    then show ?thesis using True pr p' assms(2,4) by (simp add: consume_rank_def)
  next
    case False
    then have "0 < k" "p + k \<le> length buf" using pr assms(3,4) by auto
    then show ?thesis using p' consume_rank_le [of s'] by simp
  qed
qed

lemma consume_extended_progress:
  assumes "consume_extended_header le buf p s = (Ret (Continue p'), s')" and "m_hstate s = HEADER_EXTENDED"
    and "p < length buf \<or> m_bytes_needed s = 0" and "p \<le> length buf"
  shows "p' \<le> length buf \<and> 5 * (length buf - p') + consume_rank s' < 5 * (length buf - p) + consume_rank s"
proof -
  from assms(1) obtain k t where k: "copy_extended_header_bytes (drop p buf) s = (Ret k, t)"
    and cont: "(if m_bytes_needed t > 0 then (Ret (Continue (p + k)), t)
      else let ec = validate_incoming_extended_header le (m_basic_header t) (m_extended_header t) in
        if has_error ec then (Ret (Break (p + k) ec), t)
        else bindM (start_payload le) (\<lambda>ec. if has_error ec then ret (Break (p + k) ec) else ret (Continue (p + k))) t)
      = (Ret (Continue p'), s')"
    unfolding consume_extended_header_def by (auto elim!: bindM_RetE)
  note pr = copy_extended_progress [OF k]
  have p': "p' = p + k"
    using cont by (auto simp: Let_def ret_def elim!: bindM_RetE split: if_splits)
  show ?thesis
  proof (cases "m_bytes_needed s = 0")
    case True
    then have "k = 0" "m_bytes_needed t = 0"
      using k by (auto simp: copy_extended_header_bytes_def Let_def split: if_splits)
    then have "m_hstate s' = APPLICATION"
      using cont by (auto simp: Let_def ret_def elim!: bindM_RetE dest: start_payload_hstate split: if_splits)
    then show ?thesis using p' \<open>k = 0\<close> assms(2,4) by (simp add: consume_rank_def)
  next
    case False
    then have "0 < k" "p + k \<le> length buf" using pr assms(3,4) by auto
    then show ?thesis using p' consume_rank_le [of s'] by simp
  qed
qed

lemma consume_payload_progress:
  assumes "consume_payload le buf p s = (Ret (Continue p'), s')" and "m_hstate s = APPLICATION"
    and "p < length buf \<or> m_bytes_needed s = 0" and "p \<le> length buf"
  shows "p' \<le> length buf \<and> 5 * (length buf - p') + consume_rank s' < 5 * (length buf - p) + consume_rank s"
proof -
  let ?n = "min (unat (m_bytes_needed s)) (length buf - p)"
  from assms(1) obtain k ec t where
    k: "(if ?n > 0 then process_payload_bytes le (take ?n (drop p buf)) else ret (0, NoError)) s = (Ret (k, ec), t)"
    and cont: "(if has_error ec then (Ret (Break (p + k) ec), t)
      else if m_bytes_needed t > 0 then (Ret (Continue (p + k)), t)
      else if get_fin (m_basic_header t) then
        bindM finalize_message (\<lambda>ec. if has_error ec then ret (Break (p + k) ec) else ret (Continue (p + k))) t
      else (Ret (Continue (p + k)), reset_headers t)) = (Ret (Continue p'), s')"
    unfolding consume_payload_def Let_def by (elim bindM_RetE) auto
  have p': "p' = p + k" and noerr: "\<not> has_error ec"
    using cont by (auto simp: ret_def elim!: bindM_RetE split: if_splits)
  show ?thesis
  proof (cases "m_bytes_needed s = 0")
    case True
    then have "k = 0" "t = s" using k by (auto simp: ret_def)
    then have "consume_rank s' = 0"
      using cont True by (auto simp: ret_def consume_rank_def elim!: bindM_RetE dest!: finalize_hstate split: if_splits)
    then show ?thesis using p' \<open>k = 0\<close> assms(2,4) by (simp add: consume_rank_def)
  next
    case False
    then have n: "0 < ?n" using assms(3) by (simp add: unat_gt_0)
    then have "process_payload_bytes le (take ?n (drop p buf)) s = (Ret (k, ec), t)" using k by simp
    from process_payload_progress [OF this] noerr have "k = ?n" by simp
    with n have "0 < k" "p + k \<le> length buf" by linarith+
    then show ?thesis using p' consume_rank_le [of s'] assms(4) by simp
  qed
qed

lemma consume_step_progress:
  assumes "consume_step le buf p s = (Ret (Continue p'), s')" and "consume_more buf p s" and "p \<le> length buf"
  shows "p' \<le> length buf \<and> 5 * (length buf - p') + consume_rank s' < 5 * (length buf - p) + consume_rank s"
proof -
  have more: "p < length buf \<or> m_bytes_needed s = 0" using assms(2) by (simp add: consume_more_def)
  show ?thesis
  proof (cases "m_hstate s")
    case EXTENSION
    then show ?thesis using assms(1,3) by (auto simp: consume_step_def consume_rank_def)
  next
    case HEADER_BASIC
    then show ?thesis
      using assms(1) by (intro consume_basic_progress [OF _ _ more assms(3)]) (simp_all add: consume_step_def)
  next
    case HEADER_EXTENDED
    then show ?thesis
      using assms(1) by (intro consume_extended_progress [OF _ _ more assms(3)]) (simp_all add: consume_step_def)
  next
    case APPLICATION
    then show ?thesis
      using assms(1) by (intro consume_payload_progress [OF _ _ more assms(3)]) (simp_all add: consume_step_def)
  qed (use assms in \<open>simp_all add: consume_step_def\<close>)
qed

text \<open>\<open>consume(buf + p, ...)\<close> from a position on; \<open>p\<close> never passes the end of the buffer.\<close>

function consume_loop :: "bool \<Rightarrow> bytes \<Rightarrow> nat \<Rightarrow> (hybi13, nat \<times> error_code) prog" where
  "consume_loop le buf p s =
     (if p \<le> length buf \<and> consume_more buf p s then
        (case consume_step le buf p s of
           (Ret (Continue p'), s') \<Rightarrow> consume_loop le buf p' s'
         | (Ret (Break p' ec), s') \<Rightarrow> (Ret (p', ec), s')
         | (Throw e, s') \<Rightarrow> (Throw e, s')
         | (Undefined, s') \<Rightarrow> (Undefined, s'))
      else (Ret (p, NoError), s))"
  by auto
termination
  by (relation "measure (\<lambda>(le, buf, p, s). 5 * (length buf - p) + consume_rank s)")
    (auto dest: consume_step_progress [OF sym])

declare consume_loop.simps [simp del]

definition consume :: "bool \<Rightarrow> bytes \<Rightarrow> (hybi13, nat \<times> error_code) prog" where
  "consume le buf = consume_loop le buf 0"

subsection \<open>The invariant\<close>

text \<open>
  What holds between two calls of \<open>consume\<close>: how many bytes the field being read still needs,
  that the extended header fits its buffer, and that the message being read exists.
\<close>

definition hybi13_inv :: "hybi13 \<Rightarrow> bool" where
  "hybi13_inv s \<longleftrightarrow>
     length (m_extended_header s) = MAX_EXTENDED_HEADER_LENGTH \<and>
     (case m_hstate s of
        HEADER_BASIC \<Rightarrow> m_bytes_needed s \<le> 2
      | HEADER_EXTENDED \<Rightarrow> m_cursor s + unat (m_bytes_needed s) \<le> MAX_EXTENDED_HEADER_LENGTH
      | EXTENSION \<Rightarrow> False
      | APPLICATION \<Rightarrow> msg_ptr (current_metadata s) \<noteq> None
      | READY \<Rightarrow> msg_ptr (current_metadata s) \<noteq> None
      | FATAL_ERROR \<Rightarrow> False)"

lemma hybi13_inv_init: "hybi13_inv (hybi13_init server n)"
  by (simp add: hybi13_init_def hybi13_inv_def reset_headers_def MAX_EXTENDED_HEADER_LENGTH_def BASIC_HEADER_LENGTH_def)

lemma hybi13_inv_reset: "hybi13_inv (reset_headers s)"
  by (simp add: hybi13_inv_def MAX_EXTENDED_HEADER_LENGTH_def)

lemma current_metadata_update [simp]:
  "current_metadata (s\<lparr>m_hstate := x\<rparr>) = current_metadata s"
  "current_metadata (s\<lparr>m_bytes_needed := n\<rparr>) = current_metadata s"
  "current_metadata (s\<lparr>m_cursor := c\<rparr>) = current_metadata s"
  "current_metadata (s\<lparr>m_basic_header := h\<rparr>) = current_metadata s"
  "current_metadata (s\<lparr>m_extended_header := e\<rparr>) = current_metadata s"
  by (simp_all add: current_metadata_def split: current_msg.split)

lemma unat_u64_bound: "unat (x :: u64) < 2 ^ 64"
  by (rule order_less_le_trans [OF unsigned_less]) simp

lemma unat_of_nat_min: "unat (of_nat (min (unat (x :: u64)) n) :: u64) = min (unat x) n"
proof -
  have "min (unat x) n < 2 ^ 64" by (metis min.strict_coboundedI1 unat_u64_bound)
  then show ?thesis by (simp add: unat_of_nat take_bit_eq_mod)
qed

definition step_ok :: "bytes \<Rightarrow> consume_step outcome \<times> hybi13 \<Rightarrow> bool" where
  "step_ok buf r =
     (case r of
        (Ret (Continue p), s) \<Rightarrow> hybi13_inv s
      | (Ret (Break p ec), s) \<Rightarrow> has_error ec \<and> p \<le> length buf
      | _ \<Rightarrow> False)"

lemma get_header_len_bound: "get_header_len h - BASIC_HEADER_LENGTH \<le> 12"
  by (simp add: get_header_len_def Let_def BASIC_HEADER_LENGTH_def get_masking_key_offset_def)

lemma hybi13_inv_basic:
  "m_hstate s = HEADER_BASIC \<Longrightarrow> hybi13_inv s \<longleftrightarrow> length (m_extended_header s) = 12 \<and> m_bytes_needed s \<le> 2"
  by (simp add: hybi13_inv_def MAX_EXTENDED_HEADER_LENGTH_def)

lemma hybi13_inv_extended:
  "m_hstate s = HEADER_EXTENDED \<Longrightarrow>
   hybi13_inv s \<longleftrightarrow> length (m_extended_header s) = 12 \<and> m_cursor s + unat (m_bytes_needed s) \<le> 12"
  by (simp add: hybi13_inv_def MAX_EXTENDED_HEADER_LENGTH_def)

lemma hybi13_inv_application:
  "m_hstate s = APPLICATION \<Longrightarrow>
   hybi13_inv s \<longleftrightarrow> length (m_extended_header s) = 12 \<and> msg_ptr (current_metadata s) \<noteq> None"
  by (simp add: hybi13_inv_def MAX_EXTENDED_HEADER_LENGTH_def)

lemma hybi13_inv_ready:
  "m_hstate s = READY \<Longrightarrow>
   hybi13_inv s \<longleftrightarrow> length (m_extended_header s) = 12 \<and> msg_ptr (current_metadata s) \<noteq> None"
  by (simp add: hybi13_inv_def MAX_EXTENDED_HEADER_LENGTH_def)

lemmas hybi13_invs = hybi13_inv_basic hybi13_inv_extended hybi13_inv_application hybi13_inv_ready

lemma copy_basic_keeps:
  assumes "copy_basic_header_bytes buf s = (k, t)" and "m_bytes_needed s \<le> 2"
  shows "m_bytes_needed t \<le> 2" "m_extended_header t = m_extended_header s" "m_data_msg t = m_data_msg s"
    "m_server t = m_server s" "m_max_message_size t = m_max_message_size s"
proof -
  have "m_bytes_needed s - 1 \<le> 2" if "m_bytes_needed s \<noteq> 0"
    using assms(2) that by unat_arith
  then show "m_bytes_needed t \<le> 2"
    using assms by (auto simp: copy_basic_header_bytes_def Let_def split: if_splits)
qed (use assms in \<open>auto simp: copy_basic_header_bytes_def Let_def split: if_splits\<close>)

lemma consume_basic_ok:
  assumes "hybi13_inv s" and "m_hstate s = HEADER_BASIC" and "p \<le> length buf"
  shows "step_ok buf (consume_basic_header buf p s)"
proof -
  obtain k t where k: "copy_basic_header_bytes (drop p buf) s = (k, t)" by fastforce
  have needed: "m_bytes_needed s \<le> 2" "length (m_extended_header s) = 12"
    using assms(1,2) by (simp_all add: hybi13_invs)
  note keep = copy_basic_keeps [OF k needed(1)]
  have "k \<le> length buf - p" "m_hstate t = HEADER_BASIC"
    using copy_basic_progress [OF k] assms(2) by simp_all
  moreover have "unat (of_nat (get_header_len h - BASIC_HEADER_LENGTH) :: u64) \<le> 12" for h
    using get_header_len_bound [of h] by (simp add: unat_of_nat take_bit_eq_mod)
  ultimately show ?thesis
    using keep needed assms(3)
    by (auto simp: consume_basic_header_def k Let_def step_ok_def hybi13_invs)
qed

lemma copy_extended_ok:
  assumes "hybi13_inv s" and "m_hstate s = HEADER_EXTENDED"
  shows "\<exists>k t. copy_extended_header_bytes buf s = (Ret k, t) \<and> hybi13_inv t \<and> m_hstate t = HEADER_EXTENDED"
proof -
  let ?k = "min (unat (m_bytes_needed s)) (length buf)"
  have s: "length (m_extended_header s) = 12" "m_cursor s + unat (m_bytes_needed s) \<le> 12"
    using assms by (simp_all add: hybi13_invs)
  have "unat (m_bytes_needed s - of_nat ?k) = unat (m_bytes_needed s) - ?k"
    by (simp add: unat_sub word_le_nat_alt unat_of_nat_min)
  then show ?thesis
    using s assms(2)
    by (simp add: copy_extended_header_bytes_def Let_def hybi13_invs MAX_EXTENDED_HEADER_LENGTH_def copy_at_def)
qed

lemma start_payload_ok:
  assumes "length (m_extended_header s) = 12"
  shows "\<exists>ec t. start_payload le s = (Ret ec, t) \<and> (\<not> has_error ec \<longrightarrow> hybi13_inv t)"
  using assms
  by (auto simp: start_payload_def Let_def hybi13_invs manager_get_message_def msg_metadata_of_def
    current_metadata_def pmd_is_enabled_def split: option.splits)

lemma consume_extended_ok:
  assumes "hybi13_inv s" and "m_hstate s = HEADER_EXTENDED" and "p \<le> length buf"
  shows "step_ok buf (consume_extended_header le buf p s)"
proof -
  obtain k t where t: "copy_extended_header_bytes (drop p buf) s = (Ret k, t)" "hybi13_inv t" "m_hstate t = HEADER_EXTENDED"
    using copy_extended_ok [OF assms(1,2)] by blast
  have k: "k \<le> length buf - p" using copy_extended_progress [OF t(1)] by simp
  obtain ec u where u: "start_payload le t = (Ret ec, u)" "\<not> has_error ec \<longrightarrow> hybi13_inv u"
    using start_payload_ok [of t le] t(2,3) by (auto simp: hybi13_invs)
  show ?thesis
    using t u k assms(3)
    by (auto simp: consume_extended_header_def bindM_def step_ok_def Let_def ret_def)
qed

lemma process_payload_ok:
  assumes "hybi13_inv s" and "m_hstate s = APPLICATION"
  shows "\<exists>k ec t. process_payload_bytes le buf s = (Ret (k, ec), t) \<and> (\<not> has_error ec \<longrightarrow> hybi13_inv t \<and> m_hstate t = APPLICATION)"
proof -
  obtain m where m: "msg_ptr (current_metadata s) = Some m" and cur: "m_current_msg s \<noteq> NoMsg"
    using assms by (auto simp: hybi13_invs current_metadata_def msg_metadata_of_def split: current_msg.splits)
  show ?thesis
    using assms m cur
    by (auto simp: process_payload_bytes_def Let_def pmd_is_enabled_def hybi13_invs split: prod.split)
qed

lemma finalize_ok:
  assumes "hybi13_inv s" and "m_hstate s = APPLICATION"
  shows "\<exists>ec t. finalize_message s = (Ret ec, t) \<and> (\<not> has_error ec \<longrightarrow> hybi13_inv t)"
proof -
  obtain m where m: "msg_ptr (current_metadata s) = Some m" and cur: "m_current_msg s \<noteq> NoMsg"
    using assms by (auto simp: hybi13_invs current_metadata_def msg_metadata_of_def split: current_msg.splits)
  show ?thesis
    using assms m cur
    by (auto simp: finalize_message_def Let_def pmd_is_enabled_def hybi13_invs split: prod.split)
qed

lemma consume_payload_ok:
  assumes "hybi13_inv s" and "m_hstate s = APPLICATION" and "p \<le> length buf"
  shows "step_ok buf (consume_payload le buf p s)"
proof -
  let ?n = "min (unat (m_bytes_needed s)) (length buf - p)"
  obtain k ec t where t: "(if ?n > 0 then process_payload_bytes le (take ?n (drop p buf)) else ret (0, NoError)) s = (Ret (k, ec), t)"
    "\<not> has_error ec \<longrightarrow> hybi13_inv t \<and> m_hstate t = APPLICATION" "k \<le> length buf - p"
  proof (cases "?n > 0")
    case True
    obtain k ec t where "process_payload_bytes le (take ?n (drop p buf)) s = (Ret (k, ec), t)"
      "\<not> has_error ec \<longrightarrow> hybi13_inv t \<and> m_hstate t = APPLICATION"
      using process_payload_ok [OF assms(1,2)] by blast
    with process_payload_progress [OF this(1)] True show thesis by (intro that [of k ec t]) auto
  next
    case False
    then have "(if ?n > 0 then process_payload_bytes le (take ?n (drop p buf)) else ret (0, NoError)) s = (Ret (0, NoError), s)"
      by (simp only: if_False ret_def)
    then show thesis by (rule that) (use assms in simp_all)
  qed
  show ?thesis
  proof (cases "has_error ec")
    case True
    then show ?thesis using t assms(3) by (simp add: consume_payload_def Let_def bindM_def step_ok_def)
  next
    case False
    then obtain ec' u where u: "finalize_message t = (Ret ec', u)" "\<not> has_error ec' \<longrightarrow> hybi13_inv u"
      using finalize_ok [of t] t(2) by blast
    have "p + k \<le> length buf" using t(3) assms(3) by linarith
    with t u False hybi13_inv_reset show ?thesis
      by (simp add: consume_payload_def Let_def bindM_def step_ok_def ret_def)
  qed
qed

lemma consume_step_ok:
  assumes "hybi13_inv s" and "consume_more buf p s" and "p \<le> length buf"
  shows "step_ok buf (consume_step le buf p s)"
proof (cases "m_hstate s")
  case EXTENSION
  then show ?thesis using assms(1) by (simp add: hybi13_inv_def)
next
  case HEADER_BASIC
  then show ?thesis using consume_basic_ok assms by (simp add: consume_step_def)
next
  case HEADER_EXTENDED
  then show ?thesis using consume_extended_ok assms by (simp add: consume_step_def)
next
  case APPLICATION
  then show ?thesis using consume_payload_ok assms by (simp add: consume_step_def)
qed (use assms(2) in \<open>simp_all add: consume_more_def\<close>)

lemma consume_loop_ok:
  "hybi13_inv s \<Longrightarrow> p \<le> length buf \<Longrightarrow>
   \<exists>n ec t. consume_loop le buf p s = (Ret (n, ec), t) \<and> n \<le> length buf \<and> (\<not> has_error ec \<longrightarrow> hybi13_inv t)"
proof (induction le buf p s rule: consume_loop.induct)
  case (1 le buf p s)
  show ?case
  proof (cases "consume_more buf p s")
    case True
    note ok = consume_step_ok [OF "1.prems"(1) True "1.prems"(2), of le]
    obtain r t where r: "consume_step le buf p s = (r, t)" by fastforce
    show ?thesis
    proof (cases r)
      case (Ret a)
      show ?thesis
      proof (cases a)
        case (Continue p')
        with r Ret ok have "hybi13_inv t" by (simp add: step_ok_def)
        moreover have "p' \<le> length buf"
          using consume_step_progress [of le buf p s p' t] r Ret Continue True "1.prems"(2) by simp
        ultimately show ?thesis
          using "1.IH" [of r t a p'] r Ret Continue True "1.prems"(2)
          by (subst consume_loop.simps) simp
      next
        case (Break p' ec)
        then show ?thesis using r Ret ok True "1.prems"(2) by (subst consume_loop.simps) (simp add: step_ok_def)
      qed
    qed (use r ok in \<open>simp_all add: step_ok_def\<close>)
  qed (use "1.prems" in \<open>simp add: consume_loop.simps\<close>)
qed

lemma consume_ok:
  "hybi13_inv s \<Longrightarrow> \<exists>n ec t. consume le buf s = (Ret (n, ec), t) \<and> n \<le> length buf \<and> (\<not> has_error ec \<longrightarrow> hybi13_inv t)"
  by (simp add: consume_def consume_loop_ok)

subsection \<open>Taking the message\<close>

definition get_message :: "(hybi13, ws_message option) prog" where
  "get_message = (\<lambda>s.
     if \<not> ready s then (Ret None, s)
     else
       (let md = current_metadata s;
            s = set_current_metadata (md\<lparr>msg_ptr := None\<rparr>) s
        in case msg_ptr md of
             None \<Rightarrow> (Undefined, s)
           | Some m \<Rightarrow>
               (let s = (if opcode_is_control (m_opcode m)
                         then s\<lparr>m_control_msg := (m_control_msg s)\<lparr>msg_ptr := None\<rparr>\<rparr>
                         else s\<lparr>m_data_msg := (m_data_msg s)\<lparr>msg_ptr := None\<rparr>\<rparr>)
                in (Ret (Some m), reset_headers s))))"

subsection \<open>Writing\<close>

definition masked_copy :: "bytes \<Rightarrow> bytes \<Rightarrow> bytes" where
  "masked_copy i key = byte_mask key 0 i"

text \<open>
  \<open>rng\<close> is the value that a call of \<open>m_rng()\<close> returns. The second component of the results is
  the message \<open>out\<close> points to.
\<close>

definition prepare_data_frame ::
  "bool \<Rightarrow> bool \<Rightarrow> u32 \<Rightarrow> ws_message option \<Rightarrow> ws_message option \<Rightarrow> error_code \<times> ws_message option" where
  "prepare_data_frame le server rng inp out =
     (case (inp, out) of
        (Some m_in, Some mout) \<Rightarrow>
          (let op = m_opcode m_in; i = m_payload m_in in
           if opcode_is_control op then (ProcessorError PE_invalid_opcode, out)
           else if op = op_text \<and> \<not> utf8_validate i then (ProcessorError PE_invalid_payload, out)
           else
             (let masked = (\<not> server);
                  compressed = (pmd_is_enabled \<and> m_compressed m_in);
                  fin = m_fin m_in;
                  key = (if masked then word_bytes le 4 rng else word_bytes le 4 (0 :: u32));
                  packed = snd (pmd_compress i (m_payload mout))
              in if compressed \<and> length packed < 4
                 then (ProcessorError PE_general, Some (mout\<lparr>m_payload := packed\<rparr>))
                 else
                   (let i = (if compressed then take (length packed - 4) packed else i);
                        mo = (if masked then masked_copy i key else i);
                        h = basic_header_of op (of_nat (length mo)) fin masked compressed False False;
                        e = (if masked then extended_header_masked le (of_nat (length mo)) key
                             else extended_header le (of_nat (length mo)))
                    in (NoError,
                        Some (mout\<lparr>m_payload := mo, m_header := prepare_header h e,
                              m_prepared := True, m_opcode := op\<rparr>)))))
      | _ \<Rightarrow> (ProcessorError PE_invalid_arguments, out))"

definition prepare_control ::
  "bool \<Rightarrow> bool \<Rightarrow> u32 \<Rightarrow> opcode \<Rightarrow> bytes \<Rightarrow> ws_message option \<Rightarrow> error_code \<times> ws_message option" where
  "prepare_control le server rng op payload out =
     (case out of
        None \<Rightarrow> (ProcessorError PE_invalid_arguments, out)
      | Some mout \<Rightarrow>
          if \<not> opcode_is_control op then (ProcessorError PE_invalid_opcode, out)
          else if length payload > unat payload_size_basic then (ProcessorError PE_control_too_big, out)
          else
            (let masked = (\<not> server);
                 sz = of_nat (length payload);
                 h = basic_header_of op sz True masked False False False
             in if masked then
                  (let key = word_bytes le 4 rng
                   in (NoError,
                       Some (mout\<lparr>m_header := prepare_header h (extended_header_masked le sz key),
                             m_payload := masked_copy payload key, m_opcode := op, m_prepared := True\<rparr>)))
                else
                  (NoError,
                   Some (mout\<lparr>m_header := prepare_header h (extended_header le sz),
                         m_payload := payload, m_opcode := op, m_prepared := True\<rparr>))))"

definition prepare_ping :: "bool \<Rightarrow> bool \<Rightarrow> u32 \<Rightarrow> bytes \<Rightarrow> ws_message option \<Rightarrow> error_code \<times> ws_message option" where
  "prepare_ping le server rng payload out = prepare_control le server rng op_ping payload out"

definition prepare_pong :: "bool \<Rightarrow> bool \<Rightarrow> u32 \<Rightarrow> bytes \<Rightarrow> ws_message option \<Rightarrow> error_code \<times> ws_message option" where
  "prepare_pong le server rng payload out = prepare_control le server rng op_pong payload out"

text \<open>\<open>htons\<close> swaps what \<open>ntohs\<close> swaps.\<close>

definition close_payload :: "bool \<Rightarrow> close_code \<Rightarrow> bytes \<Rightarrow> bytes" where
  "close_payload le code reason =
     (if code \<noteq> cs_no_status then word_bytes le 2 (ntohs le code) @ reason else [])"

definition prepare_close ::
  "bool \<Rightarrow> bool \<Rightarrow> u32 \<Rightarrow> close_code \<Rightarrow> bytes \<Rightarrow> ws_message option \<Rightarrow> error_code \<times> ws_message option" where
  "prepare_close le server rng code reason out =
     (if close_reserved code then (ProcessorError PE_reserved_close_code, out)
      else if close_invalid code \<and> code \<noteq> cs_no_status then (ProcessorError PE_invalid_close_code, out)
      else if code = cs_no_status \<and> length reason > 0 then (ProcessorError PE_reason_requires_code, out)
      else if length reason > unat payload_size_basic - 2 then (ProcessorError PE_control_too_big, out)
      else prepare_control le server rng op_close (close_payload le code reason) out)"

subsection \<open>A frame that is written is read\<close>

text \<open>A processor between two frames, with no message begun.\<close>

definition idle :: "hybi13 \<Rightarrow> bool" where
  "idle s \<longleftrightarrow> m_hstate s = HEADER_BASIC \<and> m_bytes_needed s = 2 \<and> length (m_extended_header s) = 12 \<and>
     msg_ptr (m_data_msg s) = None"

text \<open>The frames an endpoint writes in one piece, and those the other accepts.\<close>

definition frame_ok :: "opcode \<Rightarrow> bytes \<Rightarrow> u64 \<Rightarrow> bool" where
  "frame_ok op xs max_size \<longleftrightarrow>
     op \<in> {op_text, op_binary, op_close, op_ping, op_pong} \<and> length xs < 2 ^ 63 \<and>
     (op = op_text \<longrightarrow> utf8_validate xs) \<and>
     (if opcode_is_control op then length xs \<le> 125 else length xs \<le> unat max_size)"

lemma frame_ok_header:
  assumes "frame_ok op xs n" and "h = basic_header_of op (of_nat (length xs)) True masked False False False"
  shows "validate_incoming_basic_header h masked True = NoError" "get_opcode h = op" "get_fin h" "get_masked h = masked"
    "unat (of_nat (length xs) :: u64) = length xs" "op \<noteq> op_continuation"
proof -
  have op: "0 \<le> op" "op < 16" "\<not> opcode_reserved op" "\<not> opcode_invalid op" "op \<noteq> op_continuation"
    using assms(1) by (auto simp: frame_ok_def opcode_defs opcode_reserved_def opcode_invalid_def)
  have len: "unat (of_nat (length xs) :: u64) = length xs"
    using assms(1) by (simp add: frame_ok_def unat_of_nat take_bit_eq_mod)
  note fields = basic_header_of_fields
  have small: "opcode_is_control op \<longrightarrow> \<not> basic_size_code (of_nat (length xs)) > 125"
  proof
    assume "opcode_is_control op"
    then have "of_nat (length xs) \<le> (125 :: u64)" using assms(1) len by (simp add: frame_ok_def word_le_nat_alt)
    then show "\<not> basic_size_code (of_nat (length xs)) > 125"
      by (cases rule: payload_ranges [of "of_nat (length xs)"]) (simp_all add: word_less_nat_alt word_le_nat_alt)
  qed
  show "validate_incoming_basic_header h masked True = NoError"
    using op small
    by (simp add: validate_incoming_basic_header_def Let_def assms(2) fields frame_sizes)
  show "get_opcode h = op" "get_fin h" "get_masked h = masked" using op by (simp_all add: assms(2) fields)
  show "unat (of_nat (length xs) :: u64) = length xs" by (rule len)
  show "op \<noteq> op_continuation" by (rule op(5))
qed

lemma basic_header_fields: "(x :: basic_header)\<lparr>b0 := b0 h, b1 := b1 h\<rparr> = h"
  by simp

lemma consume_frame_basic:
  assumes "idle s" and "frame_ok op xs n" and h: "h = basic_header_of op (of_nat (length xs)) True (m_server s) False False False"
  shows "consume_step le (b0 h # b1 h # r) 0 s =
    (Ret (Continue 2), s\<lparr>m_basic_header := h, m_hstate := HEADER_EXTENDED, m_cursor := 0,
       m_bytes_needed := of_nat (get_header_len h - 2)\<rparr>)"
  using assms(1) frame_ok_header [OF assms(2) h]
  by (simp add: consume_step_def idle_def consume_basic_header_def copy_basic_header_bytes_def Let_def
    BASIC_HEADER_LENGTH_def basic_header_fields)

lemma minimal_encoding:
  assumes "get_basic_size h = basic_size_code sz" and "get_payload_size le h e = sz"
  shows "validate_incoming_extended_header le h e = NoError"
proof (cases rule: payload_ranges [of sz True "[]"])
  case basic
  then have "basic_size_code sz \<noteq> 126" "basic_size_code sz \<noteq> 127" by (auto simp: word_unat_eq_iff)
  then show ?thesis by (simp add: validate_incoming_extended_header_def Let_def assms frame_sizes)
qed (use assms in \<open>auto simp: validate_incoming_extended_header_def Let_def frame_sizes\<close>)

lemma consume_frame_extended:
  assumes "m_hstate s = HEADER_EXTENDED" and "m_cursor s = 0" and "length (m_extended_header s) = 12"
    and "m_bytes_needed s = of_nat (length x)" and "length x \<le> 12" and "m_basic_header s = h"
    and "get_basic_size h = basic_size_code sz"
    and "\<And>r. get_payload_size le h (x @ r) = sz" and "\<And>r. get_masking_key h (x @ r) = key"
  shows "consume_step le (y0 # y1 # x @ r) 2 s =
    bindM (start_payload le) (\<lambda>ec. if has_error ec then ret (Break (2 + length x) ec) else ret (Continue (2 + length x)))
      (s\<lparr>m_extended_header := x @ drop (length x) (m_extended_header s), m_cursor := length x, m_bytes_needed := 0\<rparr>)"
proof -
  have len: "unat (of_nat (length x) :: u64) = length x"
    using assms(5) by (simp add: unat_of_nat take_bit_eq_mod)
  then show ?thesis
    using assms(1-6) minimal_encoding [OF assms(7) assms(8)]
    by (simp add: consume_step_def consume_extended_header_def copy_extended_header_bytes_def Let_def bindM_def
      copy_at_def MAX_EXTENDED_HEADER_LENGTH_def min_absorb1)
qed

definition accepted_message :: "opcode \<Rightarrow> bytes \<Rightarrow> ws_message" where
  "accepted_message op xs = (message_init op)\<lparr>m_payload := xs\<rparr>"

lemma start_payload_new:
  assumes "msg_ptr (m_data_msg s) = None" and "get_opcode (m_basic_header s) = op"
    and "get_payload_size le (m_basic_header s) (m_extended_header s) = sz"
    and "get_masking_key (m_basic_header s) (m_extended_header s) = key"
    and "\<not> opcode_is_control op \<longrightarrow> sz \<le> m_max_message_size s"
  shows "\<exists>t. start_payload le s = (Ret NoError, t) \<and> m_hstate t = APPLICATION \<and> m_bytes_needed t = sz \<and>
    m_basic_header t = m_basic_header s \<and> m_server t = m_server s \<and> m_max_message_size t = m_max_message_size s \<and>
    m_current_msg t \<noteq> NoMsg \<and> length (m_extended_header t) = length (m_extended_header s) \<and>
    (opcode_is_control op \<longrightarrow> m_data_msg t = m_data_msg s \<and> m_current_msg t = ControlMsg) \<and>
    (\<not> opcode_is_control op \<longrightarrow> m_current_msg t = DataMsg) \<and>
    current_metadata t = msg_metadata_of (Some (message_init op)) (prepare_masking_key le key)"
  using assms
  by (auto simp: start_payload_def Let_def manager_get_message_def pmd_is_enabled_def current_metadata_def)

text \<open>The bytes of the payload as they are on the wire.\<close>

definition wire_payload :: "bool \<Rightarrow> bytes \<Rightarrow> bytes \<Rightarrow> bytes" where
  "wire_payload masked key xs = (if masked then masked_copy xs key else xs)"

lemma unmask_wire_payload:
  assumes "length key = 4"
  shows "(if masked then fst (byte_mask_circ le (prepare_masking_key le key) (length (wire_payload masked key xs)) (wire_payload masked key xs))
     else wire_payload masked key xs) = xs" "length (wire_payload masked key xs) = length xs"
proof -
  show len: "length (wire_payload masked key xs) = length xs"
    using assms by (simp add: wire_payload_def masked_copy_def byte_mask_eq)
  show "(if masked then fst (byte_mask_circ le (prepare_masking_key le key) (length (wire_payload masked key xs)) (wire_payload masked key xs))
     else wire_payload masked key xs) = xs"
    using byte_mask_circ_eq [OF assms order_refl, of le "wire_payload masked key xs"] assms len
    by (cases masked) (simp_all add: wire_payload_def masked_copy_def byte_mask_eq xor_from_involution)
qed

lemma process_payload_frame:
  assumes "m_current_msg s \<noteq> NoMsg" and "get_masked (m_basic_header s) = masked" and "length key = 4"
    and "current_metadata s = msg_metadata_of (Some (message_init op)) (prepare_masking_key le key)"
    and "op = op_text \<longrightarrow> utf8_validate xs"
  shows "\<exists>pk v. process_payload_bytes le (wire_payload masked key xs) s =
      (Ret (length xs, NoError),
       (set_current_metadata \<lparr>msg_ptr = Some (accepted_message op xs), prepared_key = pk, md_validator = v\<rparr> s)
         \<lparr>m_bytes_needed := m_bytes_needed s - of_nat (length xs)\<rparr>) \<and>
      (op = op_text \<longrightarrow> utf8_complete v)"
proof -
  note unmask = unmask_wire_payload [OF assms(3), where masked = masked and xs = xs]
  obtain v where v: "op = op_text \<longrightarrow> utf8_decode_range xs validator = (True, v) \<and> utf8_complete v"
    using assms(5) by (auto simp: utf8_validate_def split: prod.splits bool.splits)
  show ?thesis
  proof (cases masked)
    case True
    then obtain pk where "byte_mask_circ le (prepare_masking_key le key) (length xs) (wire_payload masked key xs) = (xs, pk)"
      using unmask by (metis prod.collapse)
    with True v assms(1,2,4) unmask(2) show ?thesis
      by (cases "op = op_text") (auto simp: process_payload_bytes_def Let_def msg_metadata_of_def pmd_is_enabled_def
        message_init_def accepted_message_def)
  next
    case False
    with v assms(1,2,4) unmask show ?thesis
      by (cases "op = op_text") (auto simp: process_payload_bytes_def Let_def msg_metadata_of_def pmd_is_enabled_def
        message_init_def accepted_message_def)
  qed
qed

text \<open>The header does not depend on the byte order of the host.\<close>

lemma frame_extended_header_order: "frame_extended_header le sz masked key = frame_extended_header le' sz masked key"
  by (simp add: frame_extended_header_def extended_header_masked_def extended_header_def copy_payload_def
    word_bytes_htonll)

lemma finalize_frame:
  assumes "m_current_msg s \<noteq> NoMsg" and "current_metadata s = \<lparr>msg_ptr = Some m, prepared_key = pk, md_validator = v\<rparr>"
    and "get_opcode (m_basic_header s) = op_text \<longrightarrow> utf8_complete v"
  shows "finalize_message s = (Ret NoError, (set_current_metadata (current_metadata s) s)\<lparr>m_hstate := READY\<rparr>)"
  using assms by (simp add: finalize_message_def Let_def pmd_is_enabled_def)

lemma consume_payload_frame:
  assumes "m_hstate s = APPLICATION" and "m_current_msg s \<noteq> NoMsg" and "get_masked (m_basic_header s) = masked"
    and "get_fin (m_basic_header s)" and "get_opcode (m_basic_header s) = op" and "length key = 4"
    and "current_metadata s = msg_metadata_of (Some (message_init op)) (prepare_masking_key le key)"
    and "op = op_text \<longrightarrow> utf8_validate xs" and "unat (m_bytes_needed s) = length xs"
    and "drop p buf = wire_payload masked key xs" and "p \<le> length buf"
  shows "\<exists>pk v. consume_step le buf p s =
      (Ret (Continue (p + length xs)),
       (set_current_metadata \<lparr>msg_ptr = Some (accepted_message op xs), prepared_key = pk, md_validator = v\<rparr> s)
         \<lparr>m_bytes_needed := 0, m_hstate := READY\<rparr>)"
proof -
  have len: "length buf - p = length xs"
    using unmask_wire_payload(2) [OF assms(6), of masked xs] assms(10) by (metis length_drop)
  have needed: "m_bytes_needed s = of_nat (length xs)" using assms(9) by (metis of_nat_unat ucast_id)
  show ?thesis
  proof (cases "xs = []")
    case True
    have "utf8_complete validator" by (simp add: utf8_complete_def validator_def)
    then have "finalize_message s = (Ret NoError, (set_current_metadata (current_metadata s) s)\<lparr>m_hstate := READY\<rparr>)"
      using assms(2,7) by (intro finalize_frame [of _ "message_init op" "prepare_masking_key le key" validator])
        (simp_all add: msg_metadata_of_def)
    then show ?thesis
      using True assms(1,4,7) needed len
      by (intro exI [of _ "prepare_masking_key le key"] exI [of _ validator])
        (simp add: consume_step_def consume_payload_def Let_def bindM_def ret_def msg_metadata_of_def
          accepted_message_def message_init_def)
  next
    case False
    obtain pk v where pp: "process_payload_bytes le (wire_payload masked key xs) s =
      (Ret (length xs, NoError),
       (set_current_metadata \<lparr>msg_ptr = Some (accepted_message op xs), prepared_key = pk, md_validator = v\<rparr> s)
         \<lparr>m_bytes_needed := m_bytes_needed s - of_nat (length xs)\<rparr>)" and v: "op = op_text \<longrightarrow> utf8_complete v"
      using process_payload_frame [OF assms(2,3,6,7,8)] by blast
    let ?t = "(set_current_metadata \<lparr>msg_ptr = Some (accepted_message op xs), prepared_key = pk, md_validator = v\<rparr> s)\<lparr>m_bytes_needed := 0\<rparr>"
    have "finalize_message ?t = (Ret NoError, (set_current_metadata (current_metadata ?t) ?t)\<lparr>m_hstate := READY\<rparr>)"
      using assms(2,5) v by (intro finalize_frame [of _ "accepted_message op xs" pk v]) simp_all
    moreover have "set_current_metadata (current_metadata ?t) ?t = ?t"
      using assms(2) by (cases "m_current_msg s") (simp_all add: set_current_metadata_def current_metadata_def)
    ultimately have "finalize_message ?t = (Ret NoError, ?t\<lparr>m_hstate := READY\<rparr>)" by simp
    moreover have "take (length xs) (wire_payload masked key xs) = wire_payload masked key xs"
      using unmask_wire_payload(2) [OF assms(6), of masked xs] by simp
    ultimately show ?thesis
      using False assms(1,4,9,10) len needed pp
      by (intro exI [of _ pk] exI [of _ v])
        (simp add: consume_step_def consume_payload_def Let_def bindM_def ret_def)
  qed
qed

lemma consume_frame:
  assumes idle: "idle s" and ok: "frame_ok op xs (m_max_message_size s)" and key: "length key = 4"
    and h: "h = basic_header_of op (of_nat (length xs)) True (m_server s) False False False"
    and w: "w = prepare_header h (frame_extended_header le (of_nat (length xs)) (m_server s) key)"
  shows "\<exists>t. consume le' (w @ wire_payload (m_server s) key xs) s = (Ret (length w + length xs, NoError), t) \<and>
    ready t \<and> msg_ptr (current_metadata t) = Some (accepted_message op xs) \<and>
    length (m_extended_header t) = 12 \<and> m_server t = m_server s \<and> m_max_message_size t = m_max_message_size s \<and>
    m_current_msg t = (if opcode_is_control op then ControlMsg else DataMsg) \<and>
    (opcode_is_control op \<longrightarrow> msg_ptr (m_data_msg t) = None)"
proof -
  let ?sz = "of_nat (length xs) :: u64" and ?p = "wire_payload (m_server s) key xs"
  note fh = frame_ok_header [OF ok h]
  have op: "0 \<le> op" "op < 16" using ok by (auto simp: frame_ok_def opcode_defs)
  define x where "x = drop 2 w"
  have w': "w = prepare_header h (frame_extended_header le' ?sz (m_server s) key)"
    using w frame_extended_header_order by metis
  note rt = header_roundtrip [OF op key h w', folded x_def]
  have buf: "w @ ?p = b0 h # b1 h # x @ ?p" using rt(2) by (metis append_Cons)
  have hl: "length w = 2 + length x" using rt(2) by (metis length_Cons add_2_eq_Suc)
  then have xlen: "get_header_len h - 2 = length x" using rt(1) by simp
  then have x12: "length x \<le> 12" using get_header_len_bound [of h] by (simp add: BASIC_HEADER_LENGTH_def)
  have code: "get_basic_size h = basic_size_code ?sz" by (simp add: h basic_header_of_fields)
  let ?s1 = "s\<lparr>m_basic_header := h, m_hstate := HEADER_EXTENDED, m_cursor := 0, m_bytes_needed := of_nat (length x)\<rparr>"
  let ?buf = "b0 h # b1 h # x @ ?p"
  have step1: "consume_step le' ?buf 0 s = (Ret (Continue 2), ?s1)"
    using consume_frame_basic [OF idle ok h] xlen by simp
  let ?s2 = "?s1\<lparr>m_extended_header := x @ drop (length x) (m_extended_header s), m_cursor := length x, m_bytes_needed := 0\<rparr>"
  have e12: "length (m_extended_header s) = 12" "msg_ptr (m_data_msg s) = None" using idle by (simp_all add: idle_def)
  have size_ok: "\<not> opcode_is_control op \<longrightarrow> ?sz \<le> m_max_message_size s"
    using ok fh(5) by (simp add: frame_ok_def word_le_nat_alt)
  define k where "k = (if m_server s then key else replicate 4 0)"
  have k4: "length k = 4" using key by (simp add: k_def)
  obtain t2 where t2: "start_payload le' ?s2 = (Ret NoError, t2)" "m_hstate t2 = APPLICATION" "m_bytes_needed t2 = ?sz"
      "m_basic_header t2 = h" "m_current_msg t2 \<noteq> NoMsg" "length (m_extended_header t2) = 12"
      "m_server t2 = m_server s" "m_max_message_size t2 = m_max_message_size s"
      "opcode_is_control op \<longrightarrow> m_data_msg t2 = m_data_msg s \<and> m_current_msg t2 = ControlMsg"
      "\<not> opcode_is_control op \<longrightarrow> m_current_msg t2 = DataMsg"
      "current_metadata t2 = msg_metadata_of (Some (message_init op)) (prepare_masking_key le' k)"
    using start_payload_new [of ?s2 op le' ?sz k] e12 x12 fh(2) rt(3,4) size_ok by (auto simp: k_def)
  have step2: "consume_step le' ?buf 2 ?s1 = (Ret (Continue (2 + length x)), t2)"
    using consume_frame_extended [of ?s1 x h ?sz le' k "b0 h" "b1 h" ?p] e12 x12 code rt(3,4) t2(1)
    by (simp add: bindM_def ret_def k_def)
  have payload: "?p = wire_payload (m_server s) k xs" by (simp add: wire_payload_def k_def)
  obtain pk v where step3: "consume_step le' ?buf (2 + length x) t2 = (Ret (Continue (2 + length x + length xs)),
       (set_current_metadata \<lparr>msg_ptr = Some (accepted_message op xs), prepared_key = pk, md_validator = v\<rparr> t2)
         \<lparr>m_bytes_needed := 0, m_hstate := READY\<rparr>)"
    using consume_payload_frame [OF t2(2,5), of "m_server s" op k le' xs "2 + length x" ?buf]
      t2 fh k4 ok payload by (auto simp: frame_ok_def)
  let ?t = "(set_current_metadata \<lparr>msg_ptr = Some (accepted_message op xs), prepared_key = pk, md_validator = v\<rparr> t2)
         \<lparr>m_bytes_needed := 0, m_hstate := READY\<rparr>"
  have "length ?p = length xs" by (rule unmask_wire_payload(2) [OF key])
  then have bl: "length ?buf = 2 + length x + length xs" by simp
  have more1: "consume_more ?buf 0 s" using idle by (simp add: consume_more_def idle_def)
  have more2: "consume_more ?buf 2 ?s1" by (cases x) (simp_all add: consume_more_def)
  have more3: "consume_more ?buf (2 + length x) t2"
    using t2(2,3) bl by (cases xs) (simp_all add: consume_more_def)
  have more4: "\<not> consume_more ?buf (2 + length x + length xs) ?t" by (simp add: consume_more_def)
  have "consume le' (w @ ?p) s = consume_loop le' ?buf 2 ?s1"
    unfolding consume_def buf by (subst consume_loop.simps) (use more1 step1 in simp)
  also have "\<dots> = consume_loop le' ?buf (2 + length x) t2"
    by (subst consume_loop.simps) (use more2 step2 bl in simp)
  also have "\<dots> = consume_loop le' ?buf (2 + length x + length xs) ?t"
    by (subst consume_loop.simps) (use more3 step3 bl in simp)
  also have "\<dots> = (Ret (2 + length x + length xs, NoError), ?t)"
    by (subst consume_loop.simps) (simp only: more4 simp_thms if_False)
  finally have "consume le' (w @ ?p) s = (Ret (length w + length xs, NoError), ?t)" by (simp add: hl)
  moreover have "opcode_is_control op \<longrightarrow> msg_ptr (m_data_msg ?t) = None"
    using t2(9) e12(2) by (simp add: set_current_metadata_def)
  ultimately show ?thesis using t2 by (intro exI [of _ ?t]) (simp add: ready_def)
qed

text \<open>The frames the writers produce are of this form.\<close>

lemma prepare_control_frame:
  assumes "opcode_is_control op" and "length payload \<le> 125"
  shows "\<exists>h. h = basic_header_of op (of_nat (length payload)) True (\<not> server) False False False \<and>
    prepare_control le server rng op payload (Some out) =
      (NoError, Some (out\<lparr>m_header := prepare_header h
          (frame_extended_header le (of_nat (length payload)) (\<not> server) (word_bytes le 4 rng)),
        m_payload := wire_payload (\<not> server) (word_bytes le 4 rng) payload, m_opcode := op, m_prepared := True\<rparr>))"
  using assms
  by (simp add: prepare_control_def Let_def frame_extended_header_def wire_payload_def frame_sizes)

lemma prepare_data_frame_frame:
  assumes "\<not> opcode_is_control (m_opcode m)" and "m_opcode m = op_text \<longrightarrow> utf8_validate (m_payload m)"
  shows "\<exists>h. h = basic_header_of (m_opcode m) (of_nat (length (m_payload m))) (m_fin m) (\<not> server) False False False \<and>
    prepare_data_frame le server rng (Some m) (Some out) =
      (NoError, Some (out\<lparr>m_payload := wire_payload (\<not> server) (word_bytes le 4 rng) (m_payload m),
        m_header := prepare_header h
          (frame_extended_header le (of_nat (length (m_payload m))) (\<not> server) (word_bytes le 4 rng)),
        m_prepared := True, m_opcode := m_opcode m\<rparr>))"
proof -
  have "length (masked_copy (m_payload m) (word_bytes le 4 rng)) = length (m_payload m)"
    by (simp add: masked_copy_def byte_mask_eq)
  with assms show ?thesis
    by (simp add: prepare_data_frame_def Let_def frame_extended_header_def wire_payload_def pmd_is_enabled_def)
qed

text \<open>The bytes that go out for a prepared message.\<close>

definition message_wire :: "ws_message \<Rightarrow> bytes" where
  "message_wire m = m_header m @ m_payload m"

lemma prepare_data_frame_consume:
  assumes "m_opcode m \<in> {op_text, op_binary}" and "m_fin m" and "m_opcode m = op_text \<longrightarrow> utf8_validate (m_payload m)"
    and "length (m_payload m) < 2 ^ 63" and "length (m_payload m) \<le> unat (m_max_message_size s)"
    and "idle s" and "m_server s = (\<not> server)"
  shows "\<exists>out' t. prepare_data_frame le server rng (Some m) (Some out) = (NoError, Some out') \<and>
    consume le' (message_wire out') s = (Ret (length (message_wire out'), NoError), t) \<and>
    fst (get_message t) = Ret (Some (accepted_message (m_opcode m) (m_payload m))) \<and> idle (snd (get_message t))"
proof -
  let ?xs = "m_payload m" and ?key = "word_bytes le 4 rng"
  have data: "\<not> opcode_is_control (m_opcode m)" using assms(1) by (auto simp: opcode_is_control_def opcode_defs)
  have ok: "frame_ok (m_opcode m) ?xs (m_max_message_size s)"
    using assms(1-5) data by (auto simp: frame_ok_def)
  obtain h where h: "h = basic_header_of (m_opcode m) (of_nat (length ?xs)) True (m_server s) False False False"
    and out: "prepare_data_frame le server rng (Some m) (Some out) =
      (NoError, Some (out\<lparr>m_payload := wire_payload (m_server s) ?key ?xs,
        m_header := prepare_header h (frame_extended_header le (of_nat (length ?xs)) (m_server s) ?key),
        m_prepared := True, m_opcode := m_opcode m\<rparr>))"
    using prepare_data_frame_frame [OF data assms(3), of server le rng out] assms(2,7) by auto
  from consume_frame [OF assms(6) ok _ h refl, where key = ?key and le = le and le' = le']
  obtain t where t: "consume le' (prepare_header h (frame_extended_header le (of_nat (length ?xs)) (m_server s) ?key) @
      wire_payload (m_server s) ?key ?xs) s = (Ret (length (prepare_header h (frame_extended_header le (of_nat (length ?xs)) (m_server s) ?key)) + length ?xs, NoError), t)"
    "ready t" "msg_ptr (current_metadata t) = Some (accepted_message (m_opcode m) ?xs)" "m_current_msg t = DataMsg"
    using data by auto
  have "length (wire_payload (m_server s) ?key ?xs) = length ?xs" by (rule unmask_wire_payload(2)) simp
  moreover have "fst (get_message t) = Ret (Some (accepted_message (m_opcode m) ?xs)) \<and> idle (snd (get_message t))"
    using t(2-4) data
    by (simp add: get_message_def Let_def accepted_message_def message_init_def idle_def)
  ultimately show ?thesis using out t(1) by (auto simp: message_wire_def)
qed

lemma prepare_control_consume:
  assumes "op \<in> {op_close, op_ping, op_pong}" and "length payload \<le> 125" and "idle s" and "m_server s = (\<not> server)"
  shows "\<exists>out' t. prepare_control le server rng op payload (Some out) = (NoError, Some out') \<and>
    consume le' (message_wire out') s = (Ret (length (message_wire out'), NoError), t) \<and>
    fst (get_message t) = Ret (Some (accepted_message op payload)) \<and> idle (snd (get_message t))"
proof -
  let ?key = "word_bytes le 4 rng"
  have control: "opcode_is_control op" using assms(1) by (auto simp: opcode_is_control_def opcode_defs)
  have ok: "frame_ok op payload (m_max_message_size s)"
    using assms(1,2) control by (auto simp: frame_ok_def opcode_defs)
  obtain h where h: "h = basic_header_of op (of_nat (length payload)) True (m_server s) False False False"
    and out: "prepare_control le server rng op payload (Some out) =
      (NoError, Some (out\<lparr>m_header := prepare_header h (frame_extended_header le (of_nat (length payload)) (m_server s) ?key),
        m_payload := wire_payload (m_server s) ?key payload, m_opcode := op, m_prepared := True\<rparr>))"
    using prepare_control_frame [OF control assms(2), of server le rng out] assms(4) by auto
  from consume_frame [OF assms(3) ok _ h refl, where key = ?key and le = le and le' = le']
  obtain t where t: "consume le' (prepare_header h (frame_extended_header le (of_nat (length payload)) (m_server s) ?key) @
      wire_payload (m_server s) ?key payload) s = (Ret (length (prepare_header h (frame_extended_header le (of_nat (length payload)) (m_server s) ?key)) + length payload, NoError), t)"
    "ready t" "msg_ptr (current_metadata t) = Some (accepted_message op payload)" "m_current_msg t = ControlMsg"
    "msg_ptr (m_data_msg t) = None"
    using control by auto
  have "length (wire_payload (m_server s) ?key payload) = length payload" by (rule unmask_wire_payload(2)) simp
  moreover have "fst (get_message t) = Ret (Some (accepted_message op payload)) \<and> idle (snd (get_message t))"
    using t(2-5) control
    by (simp add: get_message_def Let_def accepted_message_def message_init_def idle_def set_current_metadata_def)
  ultimately show ?thesis using out t(1) by (auto simp: message_wire_def)
qed

text \<open>A close frame carries its code and reason.\<close>

lemma reverse_2: "length c = 2 \<Longrightarrow> [c ! 1, c ! 0] = rev c" "length c = 2 \<Longrightarrow> [c ! 0, c ! 1] = c"
  by (auto simp: numeral_2_eq_2 length_Suc_conv)

lemma word_bytes_ntohs: "word_bytes le 2 (ntohs le code) = word_bytes False 2 code"
  by (cases le) (simp_all only: ntohs_def Let_def reverse_2(1) [OF length_word_bytes] word_bytes_bytes_word [OF LENGTH_16]
    length_rev length_word_bytes word_bytes_True simp_thms if_True if_False)

lemma extract_close_payload:
  assumes "\<not> close_reserved code" and "\<not> close_invalid code"
  shows "extract_code le' (close_payload le code reason) = (code, NoError)"
    and "fst (extract_reason (close_payload le code reason)) = reason"
    and "snd (extract_reason (close_payload le code reason)) = NoError \<longleftrightarrow> utf8_validate reason"
proof -
  have "code \<noteq> cs_no_status" using assms(2) by (auto simp: close_invalid_def)
  then have p: "close_payload le code reason = word_bytes False 2 code @ reason"
    by (simp add: close_payload_def word_bytes_ntohs)
  have "[(word_bytes False 2 code @ reason) ! 0, (word_bytes False 2 code @ reason) ! 1] = word_bytes False 2 code"
    using reverse_2(2) [OF length_word_bytes] by (simp add: nth_append)
  then show "extract_code le' (close_payload le code reason) = (code, NoError)"
    using assms by (simp add: extract_code_def p Let_def ntohs_network)
  show "fst (extract_reason (close_payload le code reason)) = reason"
    and "snd (extract_reason (close_payload le code reason)) = NoError \<longleftrightarrow> utf8_validate reason"
    by (simp_all add: extract_reason_def Let_def p)
qed

subsection \<open>What the limits do not catch\<close>

text \<open>The size check adds in 64 bits, so what it bounds is the sum modulo \<open>2 ^ 64\<close>.\<close>

definition payload_so_far :: "hybi13 \<Rightarrow> bytes" where
  "payload_so_far s = (case msg_ptr (m_data_msg s) of None \<Rightarrow> [] | Some m \<Rightarrow> m_payload m)"

lemma start_payload_limit:
  assumes "\<not> opcode_is_control (get_opcode (m_basic_header s))"
  shows "fst (start_payload le s) = Ret NoError \<longleftrightarrow>
    (length (payload_so_far s) + unat (get_payload_size le (m_basic_header s) (m_extended_header s))) mod 2 ^ 64
      \<le> unat (m_max_message_size s)"
proof -
  let ?sz = "get_payload_size le (m_basic_header s) (m_extended_header s)"
  have sum: "unat (of_nat n + ?sz) = (n + unat ?sz) mod 2 ^ 64" for n
    by (simp add: unat_word_ariths unat_of_nat take_bit_eq_mod mod_add_left_eq)
  show ?thesis
  proof (cases "msg_ptr (m_data_msg s)")
    case None
    then show ?thesis
      using assms unat_u64_bound [of ?sz]
      by (auto simp: start_payload_def Let_def payload_so_far_def word_less_nat_alt)
  next
    case (Some m)
    then show ?thesis
      using assms sum [of "length (m_payload m)"]
      by (auto simp: start_payload_def Let_def payload_so_far_def word_less_nat_alt)
  qed
qed

lemma fragmented_text_not_checked:
  "(case consume True
      [0x01, 0x81, 0, 0, 0, 0, 0xC3, 0x80, 0x80, 0, 0, 0, 0] (hybi13_init True 1000) of
      (Ret (n, ec), t) \<Rightarrow> n = 13 \<and> ec = NoError \<and> ready t \<and>
        map_option (\<lambda>m. (m_opcode m, m_payload m)) (msg_ptr (current_metadata t)) = Some (op_text, [0xC3])
    | _ \<Rightarrow> False)"
  "\<not> utf8_validate [0xC3]"
  by code_simp+

end
