(* ===== verification/Ws_Stream.thy ===== *)
theory Ws_Stream
  imports Ws_Hybi13
begin

text \<open>
  How a transport cuts the stream of bytes into reads does not matter to \<open>hybi13::consume\<close>:
  reading a buffer in two parts is reading it at once, and what follows a complete message in the
  buffer is not looked at.
\<close>

subsection \<open>Keys that repeat\<close>

text \<open>
  \<open>prepare_masking_key\<close> writes the four bytes of the key twice; rotations keep that. For such
  keys the two circular masking routines agree.
\<close>

definition key_periodic :: "bool \<Rightarrow> u64 \<Rightarrow> bool" where
  "key_periodic le pk \<longleftrightarrow> rotate 4 (word_bytes le 8 pk) = word_bytes le 8 pk"

lemma key_periodic_circshift: "off < 8 \<Longrightarrow> key_periodic le pk \<Longrightarrow> key_periodic le (circshift_prepared_key le pk off)"
  by (simp add: key_periodic_def word_bytes_circshift rotate_rotate add.commute)
    (metis add.commute rotate_rotate)

lemma key_periodic_prepared: "length key = 4 \<Longrightarrow> key_periodic le (prepare_masking_key le key)"
  using rotate_append [of key key] by (simp add: key_periodic_def word_bytes_prepared_key)

lemma rotate_halves:
  assumes "rotate n k = k" and "length k = 2 * n"
  shows "drop n k = take n k"
proof (cases n)
  case (Suc m)
  then have "rotate n k = drop n k @ take n k" using assms(2) by (simp add: rotate_drop_take)
  then have "drop n k @ take n k = take n k @ drop n k" using assms(1) append_take_drop_id [of n k] by argo
  moreover have "length (drop n k) = length (take n k)" using assms(2) by simp
  ultimately show ?thesis using append_eq_append_conv by blast
qed (use assms in simp)

lemma key_periodic_drop: "key_periodic le pk \<Longrightarrow> drop 4 (word_bytes le 8 pk) = take 4 (word_bytes le 8 pk)"
  by (rule rotate_halves) (simp_all add: key_periodic_def)

lemma word_bytes_low:
  "word_bytes le 4 (ucast (pk :: u64) :: u32) = (if le then take 4 (word_bytes le 8 pk) else drop 4 (word_bytes le 8 pk))"
proof -
  have byte: "(ucast (drop_bit (8 * i) (ucast pk :: u32)) :: u8) = ucast (drop_bit (8 * i) pk)" if "i < 4" for i
    using that by (intro bit_word_eqI) (auto simp: bit_simps)
  have "word_bytes True 4 (ucast pk :: u32) = take 4 (word_bytes True 8 pk)"
    by (rule nth_equalityI) (simp_all add: word_bytes_def byte)
  then show ?thesis by (simp add: word_bytes_False drop_rev)
qed

lemma xor_from_halves: "key_periodic le pk \<Longrightarrow> xor_from (word_bytes le 4 (ucast pk :: u32)) i xs = xor_from (word_bytes le 8 pk) i xs"
proof -
  assume per: "key_periodic le pk"
  let ?k = "word_bytes le 8 pk"
  have drop: "drop 4 ?k = take 4 ?k" by (rule key_periodic_drop [OF per])
  then have halves: "?k = take 4 ?k @ take 4 ?k" using append_take_drop_id [of 4 ?k] by simp
  have "word_bytes le 4 (ucast pk :: u32) = take 4 ?k" using drop by (cases le) (simp_all add: word_bytes_low)
  moreover have "xor_from (take 4 ?k @ take 4 ?k) i xs = xor_from (take 4 ?k) i xs" by (rule xor_from_twice) simp
  ultimately show ?thesis by (metis halves)
qed

lemma circshift_periodic: "key_periodic le pk \<Longrightarrow> circshift_prepared_key le pk (n mod 4) = circshift_prepared_key le pk (n mod 8)"
proof -
  assume per: "key_periodic le pk"
  let ?k = "word_bytes le 8 pk"
  have "rotate (n mod 8) ?k = rotate (n mod 4) ?k"
  proof (cases "n mod 8 < 4")
    case True
    then have "n mod 8 = n mod 4" by presburger
    then show ?thesis by simp
  next
    case False
    then have "n mod 8 = n mod 4 + 4" by presburger
    then show ?thesis using per by (simp add: key_periodic_def flip: rotate_rotate)
  qed
  then have "word_bytes le 8 (circshift_prepared_key le pk (n mod 8)) = word_bytes le 8 (circshift_prepared_key le pk (n mod 4))"
    by (simp add: word_bytes_circshift less_trans [of _ 4])
  then show ?thesis using bytes_word_word_bytes [of 8] by (metis LENGTH_64)
qed

lemma byte_mask_circ_word:
  assumes "key_periodic le pk" and "len \<le> length input"
  shows "byte_mask_circ le pk len input = word_mask_circ le pk len input"
  using map_xor_from [OF assms(2), of "word_bytes le 4 (ucast pk :: u32)" 0] assms
  by (simp add: byte_mask_circ_def word_mask_circ_eq xor_from_halves circshift_periodic)

lemma byte_mask_circ_append:
  assumes "key_periodic le pk" and "byte_mask_circ le pk (length xs) xs = (out1, pk1)"
    and "byte_mask_circ le pk1 (length ys) ys = (out2, pk2)"
  shows "byte_mask_circ le pk (length xs + length ys) (xs @ ys) = (out1 @ out2, pk2)" "key_periodic le pk1"
proof -
  have 1: "word_mask_circ le pk (length xs) xs = (out1, pk1)"
    using assms(2) byte_mask_circ_word [OF assms(1) order_refl] by simp
  then show pk1: "key_periodic le pk1"
    using key_periodic_circshift [OF _ assms(1), of "length xs mod 8"] by (simp add: word_mask_circ_eq)
  have "word_mask_circ le pk1 (length ys) ys = (out2, pk2)"
    using assms(3) byte_mask_circ_word [OF pk1 order_refl] by simp
  from word_mask_circ_append [OF 1 this]
  show "byte_mask_circ le pk (length xs + length ys) (xs @ ys) = (out1 @ out2, pk2)"
    using byte_mask_circ_word [OF assms(1), of "length xs + length ys" "xs @ ys"] by simp
qed

subsection \<open>One iteration on a longer buffer\<close>

text \<open>Behind the first buffer the second one is read as if it were alone.\<close>

fun shift_step :: "nat \<Rightarrow> consume_step \<Rightarrow> consume_step" where
  "shift_step n (Continue p) = Continue (n + p)"
| "shift_step n (Break p ec) = Break (n + p) ec"

fun shift_outcome :: "nat \<Rightarrow> consume_step outcome \<Rightarrow> consume_step outcome" where
  "shift_outcome n (Ret a) = Ret (shift_step n a)"
| "shift_outcome n (Throw e) = Throw e"
| "shift_outcome n Undefined = Undefined"

lemma apfst_bindM:
  "apfst (shift_outcome n) (bindM m f s) = bindM m (\<lambda>a t. apfst (shift_outcome n) (f a t)) s"
  by (simp add: bindM_def split: prod.split outcome.split)

lemma bindM_cong_fun: "(\<And>a t. f a t = g a t) \<Longrightarrow> bindM m f s = bindM m g s"
  by (simp add: bindM_def split: prod.split outcome.split)

lemma drop_behind: "drop (length xs + q) (xs @ ys) = drop q ys"
  by simp

lemma consume_basic_shift:
  "consume_basic_header (xs @ ys) (length xs + q) s = apfst (shift_outcome (length xs)) (consume_basic_header ys q s)"
  by (simp add: consume_basic_header_def Let_def split: prod.split)

lemma consume_extended_shift:
  "consume_extended_header le (xs @ ys) (length xs + q) s =
   apfst (shift_outcome (length xs)) (consume_extended_header le ys q s)"
  unfolding consume_extended_header_def drop_behind apfst_bindM
  by (rule bindM_cong_fun) (auto simp: Let_def apfst_bindM ret_def intro!: bindM_cong_fun)

lemma consume_payload_shift:
  "consume_payload le (xs @ ys) (length xs + q) s = apfst (shift_outcome (length xs)) (consume_payload le ys q s)"
proof -
  have "length (xs @ ys) - (length xs + q) = length ys - q" by simp
  then show ?thesis
    unfolding consume_payload_def Let_def drop_behind apfst_bindM
    by (simp only:) (rule bindM_cong_fun, auto simp: apfst_bindM ret_def split: prod.split intro!: bindM_cong_fun)
qed

lemma consume_step_shift:
  assumes "m_hstate s \<noteq> READY" and "m_hstate s \<noteq> FATAL_ERROR"
  shows "consume_step le (xs @ ys) (length xs + q) s = apfst (shift_outcome (length xs)) (consume_step le ys q s)"
  using assms
  by (cases "m_hstate s") (simp_all add: consume_step_def consume_basic_shift consume_extended_shift consume_payload_shift)

lemma consume_more_shift: "consume_more (xs @ ys) (length xs + q) s = consume_more ys q s"
  by (simp add: consume_more_def)

lemma consume_loop_shift:
  "q \<le> length ys \<Longrightarrow> consume_loop le (xs @ ys) (length xs + q) s =
   (case consume_loop le ys q s of (Ret (n, ec), t) \<Rightarrow> (Ret (length xs + n, ec), t) | r \<Rightarrow> r)"
proof (induction le ys q s rule: consume_loop.induct)
  case (1 le ys q s)
  show ?case
  proof (cases "consume_more ys q s")
    case True
    then have st: "m_hstate s \<noteq> READY" "m_hstate s \<noteq> FATAL_ERROR" by (simp_all add: consume_more_def)
    obtain r t where r: "consume_step le ys q s = (r, t)" by fastforce
    note l = consume_loop.simps [of le "xs @ ys" "length xs + q" s] consume_loop.simps [of le ys q s]
    show ?thesis
    proof (cases r)
      case (Ret a)
      show ?thesis
      proof (cases a)
        case (Continue p')
        have "p' \<le> length ys" using consume_step_progress [of le ys q s p' t] r Ret Continue True "1.prems" by simp
        then show ?thesis
          using "1.IH" [of r t a p'] r Ret Continue True "1.prems"
          by (simp add: l consume_more_shift consume_step_shift [OF st])
      qed (use r Ret True "1.prems" in \<open>simp add: l consume_more_shift consume_step_shift [OF st]\<close>)
    qed (use r True "1.prems" in \<open>simp_all add: l consume_more_shift consume_step_shift [OF st]\<close>)
  qed (use "1.prems" in \<open>simp add: consume_loop.simps [of le "xs @ ys" "length xs + q" s] consume_loop.simps [of le ys q s] consume_more_shift\<close>)
qed

text \<open>A field that ends in the first buffer is read from it.\<close>

lemma copy_basic_local:
  "m_bytes_needed s \<le> 2 \<Longrightarrow> unat (m_bytes_needed s) \<le> length xs \<Longrightarrow>
   copy_basic_header_bytes (xs @ ys) s = copy_basic_header_bytes xs s"
  by (cases xs; cases "tl xs") (auto simp: copy_basic_header_bytes_def Let_def word_le_nat_alt unat_eq_0 nth_append)

lemma copy_extended_local:
  "unat (m_bytes_needed s) \<le> length xs \<Longrightarrow> copy_extended_header_bytes (xs @ ys) s = copy_extended_header_bytes xs s"
  by (simp add: copy_extended_header_bytes_def Let_def min_absorb1 le_add1 trans_le_add1)

lemma consume_step_local:
  assumes "hybi13_inv s" and "p \<le> length xs" and "unat (m_bytes_needed s) \<le> length xs - p"
  shows "consume_step le (xs @ ys) p s = consume_step le xs p s"
proof (cases "m_hstate s")
  case HEADER_BASIC
  then show ?thesis
    using assms by (simp add: consume_step_def consume_basic_header_def hybi13_invs copy_basic_local)
next
  case HEADER_EXTENDED
  then show ?thesis
    using assms by (simp add: consume_step_def consume_extended_header_def bindM_def copy_extended_local)
next
  case APPLICATION
  have "min (unat (m_bytes_needed s)) (length (xs @ ys) - p) = unat (m_bytes_needed s)"
    "min (unat (m_bytes_needed s)) (length xs - p) = unat (m_bytes_needed s)"
    "take (unat (m_bytes_needed s)) (drop p (xs @ ys)) = take (unat (m_bytes_needed s)) (drop p xs)"
    using assms by simp_all
  with APPLICATION show ?thesis
    by (simp only: consume_step_def consume_payload_def hybi13_state.case Let_def)
qed (simp_all add: consume_step_def)

text \<open>A field that does not end in the first buffer is read from both.\<close>

definition unmask :: "bool \<Rightarrow> basic_header \<Rightarrow> u64 \<Rightarrow> bytes \<Rightarrow> bytes \<times> u64" where
  "unmask le h pk buf = (if get_masked h then byte_mask_circ le pk (length buf) buf else (buf, pk))"

lemma unmask_append:
  assumes "key_periodic le pk" and "unmask le h pk xs = (out1, pk1)" and "unmask le h pk1 ys = (out2, pk2)"
  shows "unmask le h pk (xs @ ys) = (out1 @ out2, pk2)" "key_periodic le pk1"
  using byte_mask_circ_append [OF assms(1), of xs out1 pk1 ys out2 pk2] assms
  by (auto simp: unmask_def split: if_splits)

definition check_text :: "ws_message \<Rightarrow> bytes \<Rightarrow> utf8_validator \<Rightarrow> bool \<times> utf8_validator" where
  "check_text m b v = (if m_opcode m = op_text then utf8_decode_range b v else (True, v))"

lemma check_text_append:
  assumes "check_text m xs v = (True, v1)" and "m_opcode m' = m_opcode m" and "check_text m' ys v1 = (True, v2)"
  shows "check_text m (xs @ ys) v = (True, v2)"
  using assms by (auto simp: check_text_def utf8_decode_range_append split: if_splits)

lemma set_current_metadata_needed:
  "set_current_metadata md (s\<lparr>m_bytes_needed := n\<rparr>) = (set_current_metadata md s)\<lparr>m_bytes_needed := n\<rparr>"
  by (cases "m_current_msg s") (simp_all add: set_current_metadata_def)

lemma process_payload_eq:
  assumes "m_current_msg s \<noteq> NoMsg" and "msg_ptr (current_metadata s) = Some m"
    and "unmask le (m_basic_header s) (prepared_key (current_metadata s)) buf = (b, pk)"
    and "check_text m b (md_validator (current_metadata s)) = (valid, v)"
  shows "process_payload_bytes le buf s =
    (if \<not> valid then
       (Ret (0, ProcessorError PE_invalid_utf8),
        set_current_metadata \<lparr>msg_ptr = Some (m\<lparr>m_payload := m_payload m @ b\<rparr>), prepared_key = pk, md_validator = v\<rparr> s)
     else
       (Ret (length buf, NoError),
        (set_current_metadata \<lparr>msg_ptr = Some (m\<lparr>m_payload := m_payload m @ b\<rparr>), prepared_key = pk, md_validator = v\<rparr> s)
          \<lparr>m_bytes_needed := m_bytes_needed s - of_nat (length buf)\<rparr>))"
proof -
  obtain p0 k0 v0 where md: "current_metadata s = \<lparr>msg_ptr = p0, prepared_key = k0, md_validator = v0\<rparr>"
    by (cases "current_metadata s")
  show ?thesis
    using assms unfolding md
    by (auto simp: process_payload_bytes_def Let_def pmd_is_enabled_def unmask_def check_text_def md
      split: if_splits)
qed

lemma process_payload_success:
  assumes cur: "m_current_msg s \<noteq> NoMsg" "msg_ptr (current_metadata s) \<noteq> None"
    and 1: "process_payload_bytes le xs s = (Ret (n1, NoError), s1)"
  obtains m b pk v where "msg_ptr (current_metadata s) = Some m"
    and "unmask le (m_basic_header s) (prepared_key (current_metadata s)) xs = (b, pk)"
    and "check_text m b (md_validator (current_metadata s)) = (True, v)" and "n1 = length xs"
    and "s1 = (set_current_metadata \<lparr>msg_ptr = Some (m\<lparr>m_payload := m_payload m @ b\<rparr>), prepared_key = pk, md_validator = v\<rparr> s)
      \<lparr>m_bytes_needed := m_bytes_needed s - of_nat (length xs)\<rparr>"
proof -
  obtain m where m: "msg_ptr (current_metadata s) = Some m" using cur(2) by blast
  obtain b pk where u: "unmask le (m_basic_header s) (prepared_key (current_metadata s)) xs = (b, pk)" by fastforce
  obtain ok v where c: "check_text m b (md_validator (current_metadata s)) = (ok, v)" by fastforce
  show thesis
    by (rule that [OF m u]) (use 1 process_payload_eq [OF cur(1) m u c] c in \<open>auto split: if_splits\<close>)
qed

lemma process_payload_keeps:
  assumes cur: "m_current_msg s \<noteq> NoMsg" "msg_ptr (current_metadata s) \<noteq> None"
    and per: "key_periodic le (prepared_key (current_metadata s))"
    and 1: "process_payload_bytes le xs s = (Ret (n1, NoError), s1)"
  shows "n1 = length xs" "m_bytes_needed s1 = m_bytes_needed s - of_nat (length xs)" "m_hstate s1 = m_hstate s"
    "m_basic_header s1 = m_basic_header s" "m_current_msg s1 = m_current_msg s"
    "msg_ptr (current_metadata s1) \<noteq> None" "key_periodic le (prepared_key (current_metadata s1))"
proof -
  obtain m b pk v where m: "unmask le (m_basic_header s) (prepared_key (current_metadata s)) xs = (b, pk)" "n1 = length xs"
    "s1 = (set_current_metadata \<lparr>msg_ptr = Some (m\<lparr>m_payload := m_payload m @ b\<rparr>), prepared_key = pk, md_validator = v\<rparr> s)
      \<lparr>m_bytes_needed := m_bytes_needed s - of_nat (length xs)\<rparr>"
    using process_payload_success [OF cur 1] by metis
  have "key_periodic le pk"
    using unmask_append(2) [OF per m(1), of "[]"] by (cases "unmask le (m_basic_header s) pk []") auto
  with m cur(1) show "n1 = length xs" "m_bytes_needed s1 = m_bytes_needed s - of_nat (length xs)" "m_hstate s1 = m_hstate s"
    "m_basic_header s1 = m_basic_header s" "m_current_msg s1 = m_current_msg s"
    "msg_ptr (current_metadata s1) \<noteq> None" "key_periodic le (prepared_key (current_metadata s1))"
    by simp_all
qed

lemma process_payload_append:
  assumes cur: "m_current_msg s \<noteq> NoMsg" "msg_ptr (current_metadata s) \<noteq> None"
    and per: "key_periodic le (prepared_key (current_metadata s))"
    and 1: "process_payload_bytes le xs s = (Ret (n1, NoError), s1)"
    and 2: "process_payload_bytes le ys s1 = (Ret (n2, NoError), s2)"
  shows "process_payload_bytes le (xs @ ys) s = (Ret (n1 + n2, NoError), s2)"
proof -
  note keep = process_payload_keeps [OF cur per 1]
  obtain m b1 pk1 v1 where m: "msg_ptr (current_metadata s) = Some m"
    and u1: "unmask le (m_basic_header s) (prepared_key (current_metadata s)) xs = (b1, pk1)"
    and c1: "check_text m b1 (md_validator (current_metadata s)) = (True, v1)"
    and s1: "s1 = (set_current_metadata \<lparr>msg_ptr = Some (m\<lparr>m_payload := m_payload m @ b1\<rparr>), prepared_key = pk1, md_validator = v1\<rparr> s)
      \<lparr>m_bytes_needed := m_bytes_needed s - of_nat (length xs)\<rparr>"
    using process_payload_success [OF cur 1] by metis
  let ?m1 = "m\<lparr>m_payload := m_payload m @ b1\<rparr>"
  have md1: "current_metadata s1 = \<lparr>msg_ptr = Some ?m1, prepared_key = pk1, md_validator = v1\<rparr>"
    using cur(1) by (simp add: s1)
  have "m_current_msg s1 \<noteq> NoMsg" using keep(5) cur(1) by simp
  then obtain b2 pk2 v2 where u2: "unmask le (m_basic_header s) pk1 ys = (b2, pk2)"
    and c2: "check_text ?m1 b2 v1 = (True, v2)" and n2: "n2 = length ys"
    and s2: "s2 = (set_current_metadata \<lparr>msg_ptr = Some (?m1\<lparr>m_payload := m_payload ?m1 @ b2\<rparr>), prepared_key = pk2, md_validator = v2\<rparr> s1)
      \<lparr>m_bytes_needed := m_bytes_needed s1 - of_nat (length ys)\<rparr>"
    using process_payload_success [OF _ keep(6) 2] md1 keep(4) by (metis msg_metadata.select_convs option.inject)
  have "unmask le (m_basic_header s) (prepared_key (current_metadata s)) (xs @ ys) = (b1 @ b2, pk2)"
    by (rule unmask_append(1) [OF per u1 u2])
  moreover have "check_text m (b1 @ b2) (md_validator (current_metadata s)) = (True, v2)"
    by (rule check_text_append [OF c1 _ c2]) simp
  ultimately show ?thesis
    using process_payload_eq [OF cur(1) m, of le "xs @ ys" "b1 @ b2" pk2 True v2]
    by (simp add: keep(1) n2 s2 s1 set_current_metadata_needed algebra_simps)
qed

definition stream_inv :: "bool \<Rightarrow> hybi13 \<Rightarrow> bool" where
  "stream_inv le s \<longleftrightarrow> hybi13_inv s \<and>
     (m_hstate s = APPLICATION \<longrightarrow> key_periodic le (prepared_key (current_metadata s)))"

lemma consume_basic_partial:
  assumes "m_hstate s = HEADER_BASIC" and "m_bytes_needed s \<le> 2" and "p < length xs"
    and "length xs - p < unat (m_bytes_needed s)" and "ys \<noteq> []"
    and s': "consume_step le xs p s = (Ret (Continue p'), s')"
  shows "p' = length xs" "m_hstate s' = HEADER_BASIC" "m_bytes_needed s' \<noteq> 0"
    "consume_step le (xs @ ys) p s = apfst (shift_outcome (length xs)) (consume_step le ys 0 s')"
proof -
  have "unat (m_bytes_needed s) \<le> 2" using assms(2) by (simp add: word_le_nat_alt)
  then have two: "unat (m_bytes_needed s) = 2" "length xs - p = 1" using assms(3,4) by linarith+
  then have needed: "m_bytes_needed s = 2" by (metis of_nat_numeral of_nat_unat ucast_id)
  have "length (drop p xs) = 1" using two(2) by simp
  then obtain x where x: "drop p xs = [x]" by (cases "drop p xs") auto
  obtain y zs where y: "ys = y # zs" using assms(5) by (cases ys) auto
  have s'': "s' = s\<lparr>m_basic_header := (m_basic_header s)\<lparr>b0 := x\<rparr>, m_bytes_needed := 1\<rparr>" and p': "p' = p + 1"
    using s' assms(1) needed x
    by (auto simp: consume_step_def consume_basic_header_def copy_basic_header_bytes_def Let_def split: if_splits)
  show "p' = length xs" using p' two(2) by simp
  show "m_hstate s' = HEADER_BASIC" "m_bytes_needed s' \<noteq> 0" by (simp_all add: s'' assms(1))
  have "drop p (xs @ ys) = x # y # zs" using x y assms(3) by simp
  moreover have "p + 2 = length xs + 1" using two(2) by simp
  ultimately show "consume_step le (xs @ ys) p s = apfst (shift_outcome (length xs)) (consume_step le ys 0 s')"
    using assms(1) needed
    by (simp add: consume_step_def consume_basic_header_def copy_basic_header_bytes_def Let_def s'' y)
qed

lemma copy_at_append:
  "off + length u + length v \<le> length e \<Longrightarrow> copy_at off (u @ v) e = copy_at (off + length u) v (copy_at off u e)"
  by (simp add: copy_at_def add_ac)

lemma unat_minus_of_nat:
  assumes "k \<le> unat (n :: u64)"
  shows "unat (n - of_nat k) = unat n - k"
proof -
  have "unat (of_nat k :: u64) = k"
    using assms unat_u64_bound [of n] by (simp add: unat_of_nat take_bit_eq_mod)
  then show ?thesis using assms by (simp add: unat_sub word_le_nat_alt)
qed

lemma copy_extended_eq:
  assumes "k = min (unat (m_bytes_needed s)) (length buf)" and "m_cursor s + k \<le> 12"
  shows "copy_extended_header_bytes buf s = (Ret k,
    s\<lparr>m_extended_header := copy_at (m_cursor s) (take k buf) (m_extended_header s),
      m_cursor := m_cursor s + k, m_bytes_needed := m_bytes_needed s - of_nat k\<rparr>)"
  using assms(2) unfolding assms(1) copy_extended_header_bytes_def MAX_EXTENDED_HEADER_LENGTH_def Let_def
  by (simp only: not_le [symmetric] simp_thms if_False)

lemma copy_extended_append:
  assumes "length (m_extended_header s) = 12" and "m_cursor s + unat (m_bytes_needed s) \<le> 12"
    and "length u < unat (m_bytes_needed s)"
  shows "copy_extended_header_bytes u s = (Ret (length u), s1) \<Longrightarrow>
    \<exists>k t. copy_extended_header_bytes (u @ v) s = (Ret (length u + k), t) \<and> copy_extended_header_bytes v s1 = (Ret k, t)"
    (is "?l \<Longrightarrow> ?r")
proof -
  assume ?l
  then have s1: "s1 = s\<lparr>m_extended_header := copy_at (m_cursor s) u (m_extended_header s),
      m_cursor := m_cursor s + length u, m_bytes_needed := m_bytes_needed s - of_nat (length u)\<rparr>"
    using copy_extended_eq [of "length u" s u] assms by simp
  then have rest: "unat (m_bytes_needed s1) = unat (m_bytes_needed s) - length u"
    using unat_minus_of_nat [of "length u" "m_bytes_needed s"] assms(3) by simp
  define k where "k = min (unat (m_bytes_needed s1)) (length v)"
  have k: "length u + k \<le> unat (m_bytes_needed s)" "k \<le> length v"
    "length u + k = min (unat (m_bytes_needed s)) (length (u @ v))"
    using assms(3) rest by (simp_all add: k_def)
  have 1: "copy_extended_header_bytes v s1 = (Ret k,
    s1\<lparr>m_extended_header := copy_at (m_cursor s1) (take k v) (m_extended_header s1),
      m_cursor := m_cursor s1 + k, m_bytes_needed := m_bytes_needed s1 - of_nat k\<rparr>)"
    by (rule copy_extended_eq [OF k_def]) (use k(1) assms(2) in \<open>simp add: s1\<close>)
  have 2: "copy_extended_header_bytes (u @ v) s = (Ret (length u + k),
    s\<lparr>m_extended_header := copy_at (m_cursor s) (take (length u + k) (u @ v)) (m_extended_header s),
      m_cursor := m_cursor s + (length u + k), m_bytes_needed := m_bytes_needed s - of_nat (length u + k)\<rparr>)"
    by (rule copy_extended_eq [OF k(3)]) (use k(1) assms(2) in linarith)
  have "copy_at (m_cursor s) (u @ take k v) (m_extended_header s) =
      copy_at (m_cursor s + length u) (take k v) (copy_at (m_cursor s) u (m_extended_header s))"
    by (rule copy_at_append) (use k assms(1,2) in simp)
  then show ?r using 1 2 by (simp add: s1 add.assoc diff_diff_eq)
qed

lemma consume_extended_partial:
  assumes "m_hstate s = HEADER_EXTENDED" and "hybi13_inv s" and "p < length xs"
    and "length xs - p < unat (m_bytes_needed s)"
    and s': "consume_step le xs p s = (Ret (Continue p'), s')"
  shows "p' = length xs" "m_hstate s' = HEADER_EXTENDED" "m_bytes_needed s' \<noteq> 0"
    "consume_step le (xs @ ys) p s = apfst (shift_outcome (length xs)) (consume_step le ys 0 s')"
proof -
  let ?u = "drop p xs"
  have inv: "length (m_extended_header s) = 12" "m_cursor s + unat (m_bytes_needed s) \<le> 12"
    using assms(1,2) by (simp_all add: hybi13_invs)
  have u: "length ?u < unat (m_bytes_needed s)" "p + length ?u = length xs" using assms(3,4) by simp_all
  obtain s1 where c: "copy_extended_header_bytes ?u s = (Ret (length ?u), s1)"
    and s1: "m_hstate s1 = HEADER_EXTENDED" "m_bytes_needed s1 = m_bytes_needed s - of_nat (length ?u)"
    using copy_extended_eq [of "length ?u" s ?u] u inv assms(1) by simp
  have "0 < unat (m_bytes_needed s1)"
    using unat_minus_of_nat [of "length ?u" "m_bytes_needed s"] u(1) unfolding s1(2) by linarith
  then have pos: "0 < m_bytes_needed s1" by (simp add: word_less_nat_alt)
  have "consume_step le xs p s = (Ret (Continue (p + length ?u)), s1)"
    using assms(1) pos by (simp only: consume_step_def consume_extended_header_def bindM_Ret [of "copy_extended_header_bytes ?u", OF c] hybi13_state.case if_True)
  then have s': "s' = s1" "p' = p + length ?u" using s' by simp_all
  then show "p' = length xs" "m_hstate s' = HEADER_EXTENDED" "m_bytes_needed s' \<noteq> 0"
    using u(2) s1(1) pos by auto
  obtain k t where whole: "copy_extended_header_bytes (drop p (xs @ ys)) s = (Ret (length ?u + k), t)"
    and part: "copy_extended_header_bytes (drop 0 ys) s1 = (Ret k, t)"
    using copy_extended_append [OF inv u(1) c, of ys] assms(3) by auto
  have pk: "p + (length ?u + k) = length xs + k" using u(2) by simp
  have "consume_extended_header le (xs @ ys) p s =
      apfst (shift_outcome (length xs)) (consume_extended_header le ys 0 s1)"
    unfolding consume_extended_header_def bindM_Ret [of "copy_extended_header_bytes (drop p (xs @ ys))", OF whole] bindM_Ret [of "copy_extended_header_bytes (drop 0 ys)", OF part]
    by (simp only: pk add_0) (auto simp: Let_def apfst_bindM ret_def simp del: length_drop intro!: bindM_cong_fun)
  then show "consume_step le (xs @ ys) p s = apfst (shift_outcome (length xs)) (consume_step le ys 0 s')"
    using assms(1) s1(1) by (simp add: consume_step_def s')
qed

lemma consume_payload_Ret:
  assumes "m_hstate s = APPLICATION" and "0 < min (unat (m_bytes_needed s)) (length buf - p)"
    and "consume_step le buf p s = (Ret (Continue p'), s')"
  obtains k t where "process_payload_bytes le (take (min (unat (m_bytes_needed s)) (length buf - p)) (drop p buf)) s =
      (Ret (k, NoError), t)"
proof -
  obtain r t where r: "process_payload_bytes le (take (min (unat (m_bytes_needed s)) (length buf - p)) (drop p buf)) s = (r, t)"
    by fastforce
  show thesis
  proof (cases r)
    case (Ret a)
    obtain k ec where a: "a = (k, ec)" by fastforce
    have "ec = NoError"
    proof (rule ccontr)
      assume "ec \<noteq> NoError"
      then have "has_error ec" by (simp add: has_error_def)
      then show False
        using assms r by (simp add: Ret a consume_step_def consume_payload_def Let_def bindM_def)
    qed
    then show thesis using r Ret a that by simp
  qed (use assms r in \<open>simp_all add: consume_step_def consume_payload_def Let_def bindM_def\<close>)
qed

lemma inv_application:
  assumes "hybi13_inv s" and "m_hstate s = APPLICATION"
  shows "m_current_msg s \<noteq> NoMsg" "msg_ptr (current_metadata s) \<noteq> None"
  using assms by (auto simp: hybi13_invs current_metadata_def msg_metadata_of_def split: current_msg.splits)

text \<open>The end of an iteration on payload, at the position reached.\<close>

definition payload_end :: "nat \<Rightarrow> (hybi13, consume_step) prog" where
  "payload_end p s =
     (if m_bytes_needed s > 0 then (Ret (Continue p), s)
      else if get_fin (m_basic_header s) then
        bindM finalize_message (\<lambda>ec. if has_error ec then ret (Break p ec) else ret (Continue p)) s
      else (Ret (Continue p), reset_headers s))"

lemma payload_end_shift: "payload_end (n + p) s = apfst (shift_outcome n) (payload_end p s)"
  by (auto simp: payload_end_def apfst_bindM ret_def intro!: bindM_cong_fun)

lemma consume_payload_eq:
  assumes "k = min (unat (m_bytes_needed s)) (length buf - p)" and "0 < k"
    and "process_payload_bytes le (take k (drop p buf)) s = (Ret (n, NoError), t)"
  shows "consume_payload le buf p s = payload_end (p + n) t"
  using assms(2,3) unfolding consume_payload_def Let_def assms(1) [symmetric] payload_end_def
  by (simp add: bindM_def)

lemma consume_payload_partial_end:
  assumes "m_hstate s = APPLICATION" and "stream_inv le s" and "p < length xs"
    and "length xs - p < unat (m_bytes_needed s)"
    and s': "consume_step le xs p s = (Ret (Continue p'), s')"
  shows "p' = length xs" "m_hstate s' = APPLICATION" "m_bytes_needed s' \<noteq> 0"
    "process_payload_bytes le (drop p xs) s = (Ret (length (drop p xs), NoError), s')"
    "unat (m_bytes_needed s') = unat (m_bytes_needed s) - length (drop p xs)"
proof -
  let ?u = "drop p xs" and ?n = "unat (m_bytes_needed s)"
  have inv: "hybi13_inv s" "key_periodic le (prepared_key (current_metadata s))"
    using assms(1,2) by (simp_all add: stream_inv_def)
  note cur = inv_application [OF inv(1) assms(1)]
  have u: "min ?n (length xs - p) = length ?u" "take (length ?u) ?u = ?u" "0 < length ?u" "p + length ?u = length xs"
    using assms(3,4) by simp_all
  obtain k s1 where c1: "process_payload_bytes le ?u s = (Ret (k, NoError), s1)"
    using consume_payload_Ret [OF assms(1) _ s'] u by (metis take_all_iff length_drop order_refl)
  note keep = process_payload_keeps [OF cur inv(2) c1]
  have left: "unat (m_bytes_needed s1) = ?n - length ?u"
    using unat_minus_of_nat [of "length ?u" "m_bytes_needed s"] u(1) assms(3,4) unfolding keep(2) by simp
  then have pos: "0 < m_bytes_needed s1" using assms(3,4) by (simp add: word_less_nat_alt)
  have "consume_payload le xs p s = payload_end (p + k) s1"
    by (rule consume_payload_eq [OF refl]) (use u c1 in simp_all)
  then have "consume_step le xs p s = (Ret (Continue (p + k)), s1)"
    using assms(1) pos by (simp add: consume_step_def payload_end_def)
  then have s1: "s' = s1" "p' = p + length ?u" using s' keep(1) by simp_all
  show "p' = length xs" "m_hstate s' = APPLICATION" "m_bytes_needed s' \<noteq> 0"
    using s1 u(4) keep(3) assms(1) pos by auto
  show "process_payload_bytes le (drop p xs) s = (Ret (length (drop p xs), NoError), s')"
    using c1 keep(1) s1 by simp
  show "unat (m_bytes_needed s') = ?n - length ?u" using left s1 by simp
qed

lemma consume_payload_partial:
  assumes "m_hstate s = APPLICATION" and "stream_inv le s" and "p < length xs"
    and "length xs - p < unat (m_bytes_needed s)" and "ys \<noteq> []"
    and s': "consume_step le xs p s = (Ret (Continue p'), s')"
    and t: "consume_step le ys 0 s' = (Ret (Continue n), t)"
  shows "consume_step le (xs @ ys) p s = (Ret (Continue (length xs + n)), t)"
proof -
  let ?u = "drop p xs" and ?n = "unat (m_bytes_needed s)"
  have inv: "hybi13_inv s" "key_periodic le (prepared_key (current_metadata s))"
    using assms(1,2) by (simp_all add: stream_inv_def)
  note cur = inv_application [OF inv(1) assms(1)]
  note first = consume_payload_partial_end [OF assms(1-4) s']
  let ?k = "min (unat (m_bytes_needed s')) (length ys - 0)"
  have k: "0 < ?k" using first(3) assms(5) by (simp add: unat_gt_0)
  obtain k2 s2 where c2: "process_payload_bytes le (take ?k (drop 0 ys)) s' = (Ret (k2, NoError), s2)"
    using consume_payload_Ret [OF first(2) k t] by metis
  have whole: "process_payload_bytes le (?u @ take ?k (drop 0 ys)) s = (Ret (length ?u + k2, NoError), s2)"
    by (rule process_payload_append [OF cur inv(2) first(4) c2])
  have chunk: "min ?n (length (xs @ ys) - p) = length ?u + ?k"
    using first(5) assms(3,4) by simp
  have "take (length ?u + ?k) (drop p (xs @ ys)) = ?u @ take ?k (drop 0 ys)" using assms(3) by simp
  then have "consume_payload le (xs @ ys) p s = payload_end (p + (length ?u + k2)) s2"
    using whole k by (intro consume_payload_eq [OF chunk [symmetric]]) (simp_all del: length_drop)
  moreover have "consume_payload le ys 0 s' = payload_end (0 + k2) s2" by (rule consume_payload_eq [OF refl k c2])
  moreover have "p + (length ?u + k2) = length xs + (0 + k2)" using assms(3) by simp
  ultimately have "consume_payload le (xs @ ys) p s = apfst (shift_outcome (length xs)) (consume_payload le ys 0 s')"
    by (simp only: payload_end_shift)
  then show ?thesis using t assms(1) first(2) by (simp add: consume_step_def)
qed

subsection \<open>The key of the payload being read\<close>

lemma length_masking_key: "length e = 12 \<Longrightarrow> length (get_masking_key h e) = 4"
  by (simp add: get_masking_key_def get_masking_key_offset_def)

lemma start_payload_periodic:
  assumes "length (m_extended_header s) = 12" and "start_payload le s = (Ret ec, t)" and "\<not> has_error ec"
  shows "key_periodic le (prepared_key (current_metadata t))"
  using assms key_periodic_prepared [OF length_masking_key [OF assms(1)], of le "m_basic_header s"]
  by (auto simp: start_payload_def Let_def current_metadata_def msg_metadata_of_def split: if_splits option.splits)

lemma finalize_ready: "finalize_message s = (Ret ec, t) \<Longrightarrow> \<not> has_error ec \<Longrightarrow> m_hstate t = READY"
  by (rule finalize_hstate)

lemma payload_end_stream:
  assumes "payload_end p s = (Ret (Continue p'), t)" and "m_hstate s = APPLICATION"
    and "key_periodic le (prepared_key (current_metadata s))"
  shows "m_hstate t = APPLICATION \<longrightarrow> key_periodic le (prepared_key (current_metadata t))"
  using assms
  by (auto simp: payload_end_def bindM_def ret_def split: if_splits prod.splits outcome.splits dest!: finalize_hstate)

lemma consume_payload_zero:
  assumes "min (unat (m_bytes_needed s)) (length buf - p) = 0"
  shows "consume_payload le buf p s = payload_end p s"
  using assms unfolding consume_payload_def Let_def payload_end_def
  by (simp add: bindM_def ret_def split: prod.split outcome.split)

lemma consume_step_stream:
  assumes inv: "stream_inv le s" and more: "consume_more buf p s" and p: "p \<le> length buf"
    and step: "consume_step le buf p s = (Ret (Continue p'), t)"
  shows "stream_inv le t"
proof -
  have i: "hybi13_inv s" using inv by (simp add: stream_inv_def)
  have t: "hybi13_inv t" using consume_step_ok [OF i more p, of le] step by (simp add: step_ok_def)
  have "m_hstate t = APPLICATION \<longrightarrow> key_periodic le (prepared_key (current_metadata t))"
  proof (cases "m_hstate s")
    case HEADER_BASIC
    then show ?thesis
      using step copy_basic_progress
      by (fastforce simp: consume_step_def consume_basic_header_def Let_def split: prod.splits if_splits)
  next
    case HEADER_EXTENDED
    obtain k u where u: "copy_extended_header_bytes (drop p buf) s = (Ret k, u)" "hybi13_inv u" "m_hstate u = HEADER_EXTENDED"
      using copy_extended_ok [OF i HEADER_EXTENDED] by blast
    obtain r v where v: "start_payload le u = (r, v)" by fastforce
    have "length (m_extended_header u) = 12" using u(2,3) by (simp add: hybi13_invs)
    then show ?thesis
      using step u v start_payload_periodic [of u le _ t]
      by (cases r) (auto simp: consume_step_def HEADER_EXTENDED consume_extended_header_def bindM_def Let_def ret_def split: if_splits)
  next
    case APPLICATION
    note cur = inv_application [OF i APPLICATION]
    have per: "key_periodic le (prepared_key (current_metadata s))" using inv APPLICATION by (simp add: stream_inv_def)
    show ?thesis
    proof (cases "min (unat (m_bytes_needed s)) (length buf - p) = 0")
      case True
      then show ?thesis
        using step payload_end_stream [OF _ APPLICATION per] consume_payload_zero [OF True]
        by (simp add: consume_step_def APPLICATION)
    next
      case False
      then obtain n u where u: "process_payload_bytes le (take (min (unat (m_bytes_needed s)) (length buf - p)) (drop p buf)) s =
          (Ret (n, NoError), u)"
        using consume_payload_Ret [OF APPLICATION _ step] by auto
      note keep = process_payload_keeps [OF cur per u]
      have "consume_payload le buf p s = payload_end (p + n) u"
        by (rule consume_payload_eq [OF refl _ u]) (use False in simp)
      then show ?thesis
        using step payload_end_stream [of "p + n" u p' t le] keep APPLICATION by (simp add: consume_step_def)
    qed
  qed (use step i more in \<open>simp_all add: consume_step_def consume_more_def hybi13_inv_def\<close>)
  with t show ?thesis by (simp add: stream_inv_def)
qed

subsection \<open>Reading in two parts\<close>

lemma consume_step_partial:
  assumes "stream_inv le s" and "consume_more xs p s" and "p < length xs"
    and "length xs - p < unat (m_bytes_needed s)" and "ys \<noteq> []"
    and "consume_step le xs p s = (Ret (Continue p'), s')"
    and "consume_step le ys 0 s' = (Ret (Continue n), t)"
  shows "consume_step le (xs @ ys) p s = (Ret (Continue (length xs + n)), t)"
proof (cases "m_hstate s")
  case HEADER_BASIC
  then show ?thesis
    using consume_basic_partial(4) [OF HEADER_BASIC _ assms(3-6)] assms(1,7) by (simp add: stream_inv_def hybi13_invs)
next
  case HEADER_EXTENDED
  then show ?thesis
    using consume_extended_partial(4) [OF HEADER_EXTENDED _ assms(3,4,6)] assms(1,7) by (simp add: stream_inv_def)
next
  case APPLICATION
  then show ?thesis by (rule consume_payload_partial [OF _ assms(1,3-7)])
qed (use assms(1,2) in \<open>simp_all add: stream_inv_def consume_more_def hybi13_inv_def\<close>)

lemma consume_step_partial_end:
  assumes "stream_inv le s" and "consume_more xs p s" and "p < length xs"
    and "length xs - p < unat (m_bytes_needed s)"
    and "consume_step le xs p s = (Ret (Continue p'), s')"
  shows "p' = length xs \<and> m_hstate s' \<noteq> READY \<and> m_bytes_needed s' \<noteq> 0"
proof (cases "m_hstate s")
  case HEADER_BASIC
  then show ?thesis
    using consume_basic_partial(1-3) [OF HEADER_BASIC _ assms(3,4) _ assms(5), of "[0]"] assms(1)
    by (simp add: stream_inv_def hybi13_invs)
next
  case HEADER_EXTENDED
  then show ?thesis
    using consume_extended_partial(1-3) [OF HEADER_EXTENDED _ assms(3-5)] assms(1) by (simp add: stream_inv_def)
next
  case APPLICATION
  then show ?thesis using consume_payload_partial_end(1-3) [OF APPLICATION assms(1,3-5)] by simp
qed (use assms(1,2) in \<open>simp_all add: stream_inv_def consume_more_def hybi13_inv_def\<close>)

lemma consume_loop_end: "\<not> consume_more buf p s \<Longrightarrow> consume_loop le buf p s = (Ret (p, NoError), s)"
  by (subst consume_loop.simps) simp

lemma consume_loop_step:
  "p \<le> length buf \<Longrightarrow> consume_more buf p s \<Longrightarrow> consume_step le buf p s = (Ret (Continue p'), s') \<Longrightarrow>
   consume_loop le buf p s = consume_loop le buf p' s'"
  by (subst consume_loop.simps) simp

lemma consume_loop_noerrorE:
  assumes "consume_loop le buf p s = (Ret (n, NoError), t)" and "stream_inv le s"
    and "p \<le> length buf" and "consume_more buf p s"
  obtains p' s' where "consume_step le buf p s = (Ret (Continue p'), s')" and "p' \<le> length buf" and "stream_inv le s'"
    and "consume_loop le buf p' s' = (Ret (n, NoError), t)"
proof -
  have i: "hybi13_inv s" using assms(2) by (simp add: stream_inv_def)
  note ok = consume_step_ok [OF i assms(4,3), of le]
  obtain r s' where r: "consume_step le buf p s = (r, s')" by fastforce
  obtain p' where p': "r = Ret (Continue p')"
    using ok r assms by (auto simp: step_ok_def consume_loop.simps [of le buf p s] split: outcome.splits consume_step.splits)
  have "p' \<le> length buf" using consume_step_progress [of le buf p s p' s'] r p' assms(3,4) by simp
  then show thesis
    using that [of p' s'] r p' consume_step_stream [OF assms(2,4,3), of p' s'] assms(1) consume_loop_step [OF assms(3,4)]
    by simp
qed

lemma consume_loop_split:
  "stream_inv le s \<Longrightarrow> p \<le> length xs \<Longrightarrow> consume_loop le xs p s = (Ret (n1, NoError), s1) \<Longrightarrow>
   stream_inv le s1 \<and>
   (if ready s1 then consume_loop le (xs @ ys) p s = (Ret (n1, NoError), s1)
    else n1 = length xs \<and>
      (\<forall>n t. consume_loop le ys 0 s1 = (Ret (n, NoError), t) \<longrightarrow>
         consume_loop le (xs @ ys) p s = (Ret (length xs + n, NoError), t)))"
proof (induction "5 * (length xs - p) + consume_rank s" arbitrary: p s rule: less_induct)
  case less
  show ?case
  proof (cases "consume_more xs p s")
    case False
    then have s1: "n1 = p" "s1 = s" using less.prems(3) consume_loop_end [OF False] by simp_all
    show ?thesis
    proof (cases "ready s")
      case True
      then have "\<not> consume_more (xs @ ys) p s" by (simp add: consume_more_def ready_def)
      then show ?thesis using True s1 less.prems(1) consume_loop_end by simp
    next
      case nr: False
      then have "p = length xs"
        using False less.prems(1,2) by (auto simp: consume_more_def ready_def stream_inv_def hybi13_inv_def)
      then show ?thesis
        using nr s1 less.prems(1) consume_loop_shift [of 0 ys le xs s] by simp
    qed
  next
    case True
    then have more: "consume_more (xs @ ys) p s" by (auto simp: consume_more_def)
    have i: "hybi13_inv s" using less.prems(1) by (simp add: stream_inv_def)
    obtain p' s' where st: "consume_step le xs p s = (Ret (Continue p'), s')" "p' \<le> length xs" "stream_inv le s'"
        "consume_loop le xs p' s' = (Ret (n1, NoError), s1)"
      using consume_loop_noerrorE [OF less.prems(3,1,2) True] .
    show ?thesis
    proof (cases "unat (m_bytes_needed s) \<le> length xs - p")
      case local: True
      have "5 * (length xs - p') + consume_rank s' < 5 * (length xs - p) + consume_rank s"
        using consume_step_progress [of le xs p s p' s'] st(1) True less.prems(2) by simp
      from less.hyps [OF this st(3,2,4)] show ?thesis
        using consume_loop_step [OF _ more] consume_step_local [OF i less.prems(2) local, of le ys] st(1) less.prems(2)
        by simp
    next
      case False
      then have p: "p < length xs" and rest: "length xs - p < unat (m_bytes_needed s)"
        using True by (auto simp: consume_more_def)
      have e: "p' = length xs" "m_hstate s' \<noteq> READY" "m_bytes_needed s' \<noteq> 0"
        using consume_step_partial_end [OF less.prems(1) True p rest st(1)] by simp_all
      then have "\<not> consume_more xs p' s'" by (simp add: consume_more_def)
      then have s1: "n1 = length xs" "s1 = s'" using st(4) consume_loop_end e(1) by simp_all
      have "consume_loop le (xs @ ys) p s = (Ret (length xs + n, NoError), t)"
        if ys: "consume_loop le ys 0 s' = (Ret (n, NoError), t)" for n t
      proof (cases "ys = []")
        case True
        have "\<not> consume_more [] 0 s'" using e by (simp add: consume_more_def)
        then show ?thesis using True ys less.prems(3) s1 consume_loop_end [of "[]" 0 s' le] by simp
      next
        case False
        have m: "consume_more ys 0 s'"
          using False e st(3) by (auto simp: consume_more_def stream_inv_def hybi13_inv_def)
        obtain q u where u: "consume_step le ys 0 s' = (Ret (Continue q), u)" "q \<le> length ys"
            "consume_loop le ys q u = (Ret (n, NoError), t)"
          using consume_loop_noerrorE [OF ys st(3) le0 m] .
        have "consume_loop le (xs @ ys) p s = consume_loop le (xs @ ys) (length xs + q) u"
          by (rule consume_loop_step [OF _ more consume_step_partial [OF less.prems(1) True p rest False st(1) u(1)]])
            (use less.prems(2) in simp)
        then show ?thesis using consume_loop_shift [OF u(2), of le xs u] u(3) by simp
      qed
      then show ?thesis using s1 e(2) st(3) by (simp add: ready_def)
    qed
  qed
qed

lemma consume_split:
  assumes "stream_inv le s" and "consume le xs s = (Ret (n1, NoError), s1)"
  shows "stream_inv le s1"
    and "ready s1 \<Longrightarrow> consume le (xs @ ys) s = (Ret (n1, NoError), s1)"
    and "\<not> ready s1 \<Longrightarrow> n1 = length xs"
    and "\<not> ready s1 \<Longrightarrow> consume le ys s1 = (Ret (n, NoError), t) \<Longrightarrow>
      consume le (xs @ ys) s = (Ret (length xs + n, NoError), t)"
  using consume_loop_split [OF assms(1) _ assms(2) [unfolded consume_def], of ys]
  by (auto simp: consume_def split: if_splits)

subsection \<open>Messages\<close>

lemma idle_stream: "idle s \<Longrightarrow> stream_inv le s"
  by (simp add: stream_inv_def idle_def hybi13_invs)

lemma stream_inv_init: "stream_inv le (hybi13_init server n)"
  using hybi13_inv_init [of server n] by (simp add: stream_inv_def hybi13_init_def)

lemma get_message_stream:
  assumes "hybi13_inv t" and "ready t"
  obtains m u where "get_message t = (Ret (Some m), u)" and "stream_inv le u"
    and "m_hstate u = HEADER_BASIC" and "m_bytes_needed u = 2" and "m_server u = m_server t"
    and "m_max_message_size u = m_max_message_size t"
proof -
  obtain m where m: "msg_ptr (current_metadata t) = Some m"
    using assms by (auto simp: ready_def hybi13_invs)
  show thesis
    by (rule that [of m "snd (get_message t)"])
      (use m assms in \<open>simp_all add: get_message_def Let_def stream_inv_def hybi13_invs set_current_metadata_def
        split: current_msg.split\<close>)
qed

lemma consume_step_ge: "consume_step le buf p s = (Ret (Continue p'), t) \<Longrightarrow> p \<le> p'"
  by (cases "m_hstate s")
    (auto simp: consume_step_def consume_basic_header_def consume_extended_header_def consume_payload_def bindM_def ret_def Let_def
      split: prod.splits if_splits outcome.splits)

lemma consume_loop_ge: "consume_loop le buf p s = (Ret (n, NoError), t) \<Longrightarrow> stream_inv le s \<Longrightarrow> p \<le> length buf \<Longrightarrow> p \<le> n"
proof (induction "5 * (length buf - p) + consume_rank s" arbitrary: p s rule: less_induct)
  case less
  show ?case
  proof (cases "consume_more buf p s")
    case True
    obtain p' s' where st: "consume_step le buf p s = (Ret (Continue p'), s')" "p' \<le> length buf" "stream_inv le s'"
        "consume_loop le buf p' s' = (Ret (n, NoError), t)"
      using consume_loop_noerrorE [OF less.prems True] .
    have "5 * (length buf - p') + consume_rank s' < 5 * (length buf - p) + consume_rank s"
      using consume_step_progress [of le buf p s p' s'] st(1) True less.prems(3) by simp
    from less.hyps [OF this st(4,3,2)] consume_step_ge [OF st(1)] show ?thesis by simp
  qed (use less.prems(1) consume_loop_end in simp)
qed

text \<open>A processor at the start of a frame takes at least one byte.\<close>

lemma consume_start_progress:
  assumes "stream_inv le s" and "m_hstate s = HEADER_BASIC" and "m_bytes_needed s \<noteq> 0" and "buf \<noteq> []"
    and "consume le buf s = (Ret (n, NoError), t)"
  shows "0 < n"
proof -
  have more: "consume_more buf 0 s" using assms(2,4) by (simp add: consume_more_def)
  obtain p' s' where st: "consume_step le buf 0 s = (Ret (Continue p'), s')" "p' \<le> length buf" "stream_inv le s'"
      "consume_loop le buf p' s' = (Ret (n, NoError), t)"
    using consume_loop_noerrorE [OF assms(5) [unfolded consume_def] assms(1) le0 more] .
  have "0 < p'"
    using st(1) assms(2-4) copy_basic_progress [of buf s]
    by (auto simp: consume_step_def consume_basic_header_def Let_def split: prod.splits if_splits)
  then show ?thesis using consume_loop_ge [OF st(4,3,2)] by simp
qed

definition settings :: "hybi13 \<Rightarrow> bool \<times> u64" where
  "settings s = (m_server s, m_max_message_size s)"

lemma settings_updates [simp]:
  "settings (set_current_metadata md s) = settings s" "settings (reset_headers s) = settings s"
  "settings (s\<lparr>m_bytes_needed := n\<rparr>) = settings s" "settings (s\<lparr>m_hstate := h\<rparr>) = settings s"
  by (simp_all add: settings_def)

lemma consume_settings_keeps [keeps_intros]:
  "keepsM settings (copy_extended_header_bytes buf)" "keepsM settings (process_payload_bytes le buf)"
  "keepsM settings finalize_message" "keepsM settings (start_payload le)"
  by (auto simp: keepsM_def copy_extended_header_bytes_def process_payload_bytes_def finalize_message_def
      start_payload_def Let_def settings_def split: prod.splits option.splits)

lemma copy_basic_settings: "copy_basic_header_bytes buf s = (k, t) \<Longrightarrow> settings t = settings s"
  by (auto simp: copy_basic_header_bytes_def Let_def settings_def split: if_splits)

lemma keepsM_fun: "(\<And>s. view (snd (m s)) = view s) \<Longrightarrow> keepsM view m"
  by (simp add: keepsM_def)

lemma keepsM_snd: "keepsM view m \<Longrightarrow> view (snd (m s)) = view s"
  by (simp add: keepsM_def)

lemma consume_parts_keeps:
  "keepsM settings (consume_basic_header buf p)" "keepsM settings (consume_extended_header le buf p)"
  "keepsM settings (consume_payload le buf p)"
proof -
  show "keepsM settings (consume_basic_header buf p)"
    by (auto simp: keepsM_def consume_basic_header_def Let_def copy_basic_settings settings_def split: prod.splits
      dest!: copy_basic_settings)
  have "keepsM settings (bindM (start_payload le) (\<lambda>ec. if has_error ec then ret (Break q ec) else ret (Continue q)))" for q
    by (intro keeps_intros)
  then show "keepsM settings (consume_extended_header le buf p)"
    unfolding consume_extended_header_def
    by (intro keeps_intros keepsM_fun) (simp add: Let_def keepsM_snd)
  have "keepsM settings (bindM finalize_message (\<lambda>ec. if has_error ec then ret (Break q ec) else ret (Continue q)))" for q
    by (intro keeps_intros)
  then have part: "keepsM settings (\<lambda>s. bindM (if 0 < k then process_payload_bytes le c else ret (0, NoError))
       (\<lambda>(k, ec) s.
          if has_error ec then (Ret (Break (p + k) ec), s)
          else if m_bytes_needed s > 0 then (Ret (Continue (p + k)), s)
          else if get_fin (m_basic_header s) then
            bindM finalize_message (\<lambda>ec.
              if has_error ec then ret (Break (p + k) ec) else ret (Continue (p + k))) s
          else (Ret (Continue (p + k)), reset_headers s)) s)" for k c
    by (intro keeps_intros keepsM_fun) (auto simp: keepsM_snd split: prod.split)
  show "keepsM settings (consume_payload le buf p)"
    unfolding keepsM_def consume_payload_def Let_def by (intro allI, rule part [unfolded keepsM_def, rule_format])
qed

lemma consume_loop_settings: "settings (snd (consume_loop le buf p s)) = settings s"
proof (induction le buf p s rule: consume_loop.induct)
  case (1 le buf p s)
  have step: "settings (snd (consume_step le buf p s)) = settings s"
    using keepsM_snd [OF consume_parts_keeps(1), of buf p s] keepsM_snd [OF consume_parts_keeps(2), of le buf p s]
      keepsM_snd [OF consume_parts_keeps(3), of le buf p s]
    by (simp add: consume_step_def settings_def split: hybi13_state.split)
  obtain r t where r: "consume_step le buf p s = (r, t)" by fastforce
  with step 1 [OF _ r [symmetric]] show ?case
    by (subst consume_loop.simps) (auto split: outcome.split consume_step.split)
qed

lemma consume_settings:
  "consume le buf s = (r, t) \<Longrightarrow> m_server t = m_server s \<and> m_max_message_size t = m_max_message_size s"
  using consume_loop_settings [of le buf 0 s] by (simp add: consume_def settings_def)

end
