(* ===== verification/Ws_Http_Constants.thy ===== *)
theory Ws_Http_Constants
  imports R2CP_Prelude
begin

text \<open>
  \<open>WebSocketPP/websocketpp/http/constants.hpp\<close>: the character classes of HTTP headers, the
  limits of the HTTP parsers, and the status codes with their names. A status code is an
  integer, since the parser casts any number it reads to the enumeration.
\<close>

subsection \<open>Limits\<close>

definition header_delimiter :: bytes where "header_delimiter = [13, 10]"
definition header_separator :: bytes where "header_separator = [58]"
definition max_header_size :: nat where "max_header_size = 16000"
definition max_body_size :: nat where "max_body_size = 32000000"

subsection \<open>Character classes\<close>

definition header_token :: bytes where
  "header_token = [
    0,0,0,0,0,0,0,0,0,0,0,0,0,0,0,0,
    0,0,0,0,0,0,0,0,0,0,0,0,0,0,0,0,
    0,1,0,1,1,1,1,1,0,0,1,1,0,1,1,0,
    1,1,1,1,1,1,1,1,1,1,0,0,0,0,0,0,
    0,1,1,1,1,1,1,1,1,1,1,1,1,1,1,1,
    1,1,1,1,1,1,1,1,1,1,1,0,0,0,1,1,
    1,1,1,1,1,1,1,1,1,1,1,1,1,1,1,1,
    1,1,1,1,1,1,1,1,1,1,1,0,1,0,1,0,
    0,0,0,0,0,0,0,0,0,0,0,0,0,0,0,0,
    0,0,0,0,0,0,0,0,0,0,0,0,0,0,0,0,
    0,0,0,0,0,0,0,0,0,0,0,0,0,0,0,0,
    0,0,0,0,0,0,0,0,0,0,0,0,0,0,0,0,
    0,0,0,0,0,0,0,0,0,0,0,0,0,0,0,0,
    0,0,0,0,0,0,0,0,0,0,0,0,0,0,0,0,
    0,0,0,0,0,0,0,0,0,0,0,0,0,0,0,0,
    0,0,0,0,0,0,0,0,0,0,0,0,0,0,0,0]"

definition is_token_char :: "u8 \<Rightarrow> bool" where
  "is_token_char c \<longleftrightarrow> header_token ! unat c = 1"

definition is_not_token_char :: "u8 \<Rightarrow> bool" where
  "is_not_token_char c \<longleftrightarrow> header_token ! unat c = 0"

definition is_whitespace_char :: "u8 \<Rightarrow> bool" where
  "is_whitespace_char c \<longleftrightarrow> c = 9 \<or> c = 32"

definition is_not_whitespace_char :: "u8 \<Rightarrow> bool" where
  "is_not_whitespace_char c \<longleftrightarrow> c \<noteq> 9 \<and> c \<noteq> 32"

subsection \<open>Status codes\<close>

type_synonym status_code = int

definition sc_uninitialized :: status_code where "sc_uninitialized = 0"
definition sc_continue_code :: status_code where "sc_continue_code = 100"
definition sc_switching_protocols :: status_code where "sc_switching_protocols = 101"
definition sc_ok :: status_code where "sc_ok = 200"
definition sc_created :: status_code where "sc_created = 201"
definition sc_accepted :: status_code where "sc_accepted = 202"
definition sc_non_authoritative_information :: status_code where "sc_non_authoritative_information = 203"
definition sc_no_content :: status_code where "sc_no_content = 204"
definition sc_reset_content :: status_code where "sc_reset_content = 205"
definition sc_partial_content :: status_code where "sc_partial_content = 206"
definition sc_multiple_choices :: status_code where "sc_multiple_choices = 300"
definition sc_moved_permanently :: status_code where "sc_moved_permanently = 301"
definition sc_found :: status_code where "sc_found = 302"
definition sc_see_other :: status_code where "sc_see_other = 303"
definition sc_not_modified :: status_code where "sc_not_modified = 304"
definition sc_use_proxy :: status_code where "sc_use_proxy = 305"
definition sc_temporary_redirect :: status_code where "sc_temporary_redirect = 307"
definition sc_bad_request :: status_code where "sc_bad_request = 400"
definition sc_unauthorized :: status_code where "sc_unauthorized = 401"
definition sc_payment_required :: status_code where "sc_payment_required = 402"
definition sc_forbidden :: status_code where "sc_forbidden = 403"
definition sc_not_found :: status_code where "sc_not_found = 404"
definition sc_method_not_allowed :: status_code where "sc_method_not_allowed = 405"
definition sc_not_acceptable :: status_code where "sc_not_acceptable = 406"
definition sc_proxy_authentication_required :: status_code where "sc_proxy_authentication_required = 407"
definition sc_request_timeout :: status_code where "sc_request_timeout = 408"
definition sc_conflict :: status_code where "sc_conflict = 409"
definition sc_gone :: status_code where "sc_gone = 410"
definition sc_length_required :: status_code where "sc_length_required = 411"
definition sc_precondition_failed :: status_code where "sc_precondition_failed = 412"
definition sc_request_entity_too_large :: status_code where "sc_request_entity_too_large = 413"
definition sc_request_uri_too_long :: status_code where "sc_request_uri_too_long = 414"
definition sc_unsupported_media_type :: status_code where "sc_unsupported_media_type = 415"
definition sc_request_range_not_satisfiable :: status_code where "sc_request_range_not_satisfiable = 416"
definition sc_expectation_failed :: status_code where "sc_expectation_failed = 417"
definition sc_im_a_teapot :: status_code where "sc_im_a_teapot = 418"
definition sc_upgrade_required :: status_code where "sc_upgrade_required = 426"
definition sc_precondition_required :: status_code where "sc_precondition_required = 428"
definition sc_too_many_requests :: status_code where "sc_too_many_requests = 429"
definition sc_request_header_fields_too_large :: status_code where "sc_request_header_fields_too_large = 431"
definition sc_internal_server_error :: status_code where "sc_internal_server_error = 500"
definition sc_not_implemented :: status_code where "sc_not_implemented = 501"
definition sc_bad_gateway :: status_code where "sc_bad_gateway = 502"
definition sc_service_unavailable :: status_code where "sc_service_unavailable = 503"
definition sc_gateway_timeout :: status_code where "sc_gateway_timeout = 504"
definition sc_http_version_not_supported :: status_code where "sc_http_version_not_supported = 505"
definition sc_not_extended :: status_code where "sc_not_extended = 510"
definition sc_network_authentication_required :: status_code where "sc_network_authentication_required = 511"

definition status_code_strings :: "(status_code \<times> string) list" where
  "status_code_strings =
    [(sc_uninitialized, ''Uninitialized''),
     (sc_continue_code, ''Continue''),
     (sc_switching_protocols, ''Switching Protocols''),
     (sc_ok, ''OK''),
     (sc_created, ''Created''),
     (sc_accepted, ''Accepted''),
     (sc_non_authoritative_information, ''Non Authoritative Information''),
     (sc_no_content, ''No Content''),
     (sc_reset_content, ''Reset Content''),
     (sc_partial_content, ''Partial Content''),
     (sc_multiple_choices, ''Multiple Choices''),
     (sc_moved_permanently, ''Moved Permanently''),
     (sc_found, ''Found''),
     (sc_see_other, ''See Other''),
     (sc_not_modified, ''Not Modified''),
     (sc_use_proxy, ''Use Proxy''),
     (sc_temporary_redirect, ''Temporary Redirect''),
     (sc_bad_request, ''Bad Request''),
     (sc_unauthorized, ''Unauthorized''),
     (sc_payment_required, ''Payment Required''),
     (sc_forbidden, ''Forbidden''),
     (sc_not_found, ''Not Found''),
     (sc_method_not_allowed, ''Method Not Allowed''),
     (sc_not_acceptable, ''Not Acceptable''),
     (sc_proxy_authentication_required, ''Proxy Authentication Required''),
     (sc_request_timeout, ''Request Timeout''),
     (sc_conflict, ''Conflict''),
     (sc_gone, ''Gone''),
     (sc_length_required, ''Length Required''),
     (sc_precondition_failed, ''Precondition Failed''),
     (sc_request_entity_too_large, ''Request Entity Too Large''),
     (sc_request_uri_too_long, ''Request-URI Too Long''),
     (sc_unsupported_media_type, ''Unsupported Media Type''),
     (sc_request_range_not_satisfiable, ''Requested Range Not Satisfiable''),
     (sc_expectation_failed, ''Expectation Failed''),
     (sc_im_a_teapot, ''I'm a teapot''),
     (sc_upgrade_required, ''Upgrade Required''),
     (sc_precondition_required, ''Precondition Required''),
     (sc_too_many_requests, ''Too Many Requests''),
     (sc_request_header_fields_too_large, ''Request Header Fields Too Large''),
     (sc_internal_server_error, ''Internal Server Error''),
     (sc_not_implemented, ''Not Implemented''),
     (sc_bad_gateway, ''Bad Gateway''),
     (sc_service_unavailable, ''Service Unavailable''),
     (sc_gateway_timeout, ''Gateway Timeout''),
     (sc_http_version_not_supported, ''HTTP Version Not Supported''),
     (sc_not_extended, ''Not Extended''),
     (sc_network_authentication_required, ''Network Authentication Required'')]"

definition status_code_string :: "status_code \<Rightarrow> string" where
  "status_code_string c =
     (case map_of status_code_strings c of Some s \<Rightarrow> s | None \<Rightarrow> ''Unknown'')"

text \<open>Messages of this class carry a response for the client.\<close>

record http_exception =
  m_msg :: string
  m_error_msg :: string
  m_error_body :: string
  m_error_code :: status_code

end
