(* ===== verification/Ws_Base64.thy ===== *)
theory Ws_Base64
  imports Base64
begin

text \<open>
  \<open>WebSocketPP/websocketpp/base64/base64.hpp\<close>, a second copy of the Base64 code. Its counters
  are \<open>size_t\<close>, its alphabet test lists the ranges of codes; the groups and loops are those
  of \<open>Base64\<close>.
\<close>

definition ws_is_base64 :: "u8 \<Rightarrow> bool" where
  "ws_is_base64 c \<longleftrightarrow> c = 43 \<or> (c \<ge> 47 \<and> c \<le> 57) \<or> (c \<ge> 65 \<and> c \<le> 90) \<or> (c \<ge> 97 \<and> c \<le> 122)"

definition ws_base64_encode :: "bytes \<Rightarrow> string" where
  "ws_base64_encode input =
     (case base64_encode_loop (length input) input [] [] of
        (char_array_3, out) \<Rightarrow> out @ base64_encode_tail char_array_3)"

definition ws_base64_decode :: "string \<Rightarrow> bytes" where
  "ws_base64_decode input =
     (case base64_decode_loop ws_is_base64 (length input) input [] [] of
        (char_array_4, out) \<Rightarrow> out @ base64_decode_tail char_array_4)"

lemma ws_is_base64_eq: "ws_is_base64 = is_base64"
proof
  fix c :: u8
  have "47 \<le> c \<longleftrightarrow> c = 47 \<or> 48 \<le> c" by (auto simp: word_le_nat_alt word_unat_eq_iff)
  then show "ws_is_base64 c = is_base64 c"
    unfolding ws_is_base64_def is_base64_def isalnum_def by (auto simp: word_le_nat_alt)
qed

lemma ws_base64_encode_eq: "ws_base64_encode bs = rfc4648 bs"
  using base64_encode_loop_eq [of bs "length bs" "[]"] by (simp add: ws_base64_encode_def)

lemma ws_base64_decode_encode: "ws_base64_decode (ws_base64_encode bs) = bs"
  using base64_decode_loop_eq [of bs "length (rfc4648 bs)" "[]"]
  by (simp add: ws_base64_decode_def ws_base64_encode_eq ws_is_base64_eq)

interpretation ws_base64: codec "\<lambda>bs. True" ws_base64_encode "\<lambda>s. Ret (ws_base64_decode s)"
  by unfold_locales (simp add: ws_base64_decode_encode)

text \<open>The two copies agree wherever the sizes fit the 32-bit counters of the first.\<close>

lemma base64_copies_agree:
  "length bs < 2 ^ 32 \<Longrightarrow> base64_encode bs = ws_base64_encode bs"
  "length s < 2 ^ 32 \<Longrightarrow> base64_decode s = ws_base64_decode s"
  by (simp_all add: base64_encode_eq ws_base64_encode_eq base64_decode_def ws_base64_decode_def
    ws_is_base64_eq unat_size32)

end
