(* ===== verification/Ws_Http_Parser.thy ===== *)
theory Ws_Http_Parser
  imports Ws_Http_Constants Ws_Base64
begin

text \<open>
  \<open>WebSocketPP/websocketpp/http/parser.hpp\<close> and \<open>http/impl/parser.hpp\<close>, with the functions of
  \<open>utilities.hpp\<close> they use: tokens, quoted strings, white space, attribute and parameter
  lists, and the headers and body of a message.

  An iterator into a string is the suffix of the string from it on, so that the iterator at
  the end is the empty list and two iterators into the same string are equal exactly if the
  suffixes are. A function that throws \<open>http::exception\<close> returns a sum; the state it leaves
  then is not used by its callers and is not represented.
\<close>

subsection \<open>Text\<close>

definition str :: "string \<Rightarrow> bytes" where
  "str s = map byte_of_char s"

text \<open>\<open>tolower\<close> of the C locale.\<close>

definition tolower :: "u8 \<Rightarrow> u8" where
  "tolower c = (if 65 \<le> c \<and> c \<le> 90 then c + 32 else c)"

definition to_lower :: "bytes \<Rightarrow> bytes" where
  "to_lower s = map tolower s"

text \<open>\<open>std::lexicographical_compare\<close> with \<open>ci_less::nocase_compare\<close>.\<close>

fun ci_less :: "bytes \<Rightarrow> bytes \<Rightarrow> bool" where
  "ci_less s [] \<longleftrightarrow> False"
| "ci_less [] (b # s2) \<longleftrightarrow> True"
| "ci_less (a # s1) (b # s2) \<longleftrightarrow>
     (if tolower a < tolower b then True else if tolower b < tolower a then False else ci_less s1 s2)"

text \<open>\<open>std::search\<close>: the suffix from the first occurrence on, or the end.\<close>

fun search_from :: "(u8 \<Rightarrow> u8 \<Rightarrow> bool) \<Rightarrow> bytes \<Rightarrow> bytes \<Rightarrow> bytes" where
  "search_from eq needle [] = []"
| "search_from eq needle (c # r) =
     (if length needle \<le> length (c # r) \<and> list_all2 eq (take (length needle) (c # r)) needle
      then c # r else search_from eq needle r)"

text \<open>\<open>my_equal\<close> compares after \<open>std::toupper\<close>, which agrees with comparing after \<open>tolower\<close>.\<close>

definition ci_find_substr :: "bytes \<Rightarrow> bytes \<Rightarrow> bytes" where
  "ci_find_substr haystack needle = search_from (\<lambda>a b. tolower a = tolower b) needle haystack"

subsection \<open>Lexical elements\<close>

definition extract_token :: "bytes \<Rightarrow> bytes \<times> bytes" where
  "extract_token it = (takeWhile (\<lambda>c. \<not> is_not_token_char c) it, dropWhile (\<lambda>c. \<not> is_not_token_char c) it)"

text \<open>
  The scan of a quoted string after its opening quote: \<open>s\<close> is what was appended so far, \<open>seg\<close>
  the characters since \<open>marker\<close>.
\<close>

fun quoted_loop :: "bytes \<Rightarrow> bytes \<Rightarrow> bytes \<Rightarrow> (bytes \<times> bytes) option" where
  "quoted_loop s seg [] = None"
| "quoted_loop s seg (c # r) =
     (if c = 34 then
        (if seg \<noteq> [] \<and> last seg = 92 then quoted_loop (s @ butlast seg @ [34]) [] r
         else Some (s @ seg, r))
      else quoted_loop s (seg @ [c]) r)"

definition extract_quoted_string :: "bytes \<Rightarrow> bytes \<times> bytes" where
  "extract_quoted_string it =
     (case it of
        [] \<Rightarrow> ([], it)
      | c # cursor \<Rightarrow>
          if c \<noteq> 34 then ([], it)
          else (case quoted_loop [] [] cursor of None \<Rightarrow> ([], it) | Some r \<Rightarrow> r))"

definition extract_lws :: "bytes \<Rightarrow> bytes" where
  "extract_lws it =
     (let it = (if length it > 2 \<and> it ! 0 = 13 \<and> it ! 1 = 10 \<and> is_whitespace_char (it ! 2)
                then drop 3 it else it)
      in dropWhile (\<lambda>c. \<not> is_not_whitespace_char c) it)"

lemma length_extract_lws: "length (extract_lws it) \<le> length it"
  by (auto simp: extract_lws_def Let_def intro: order_trans [OF length_dropWhile_le])

lemma extract_lws_shorter: "extract_lws it \<noteq> it \<Longrightarrow> length (extract_lws it) < length it"
proof -
  assume ne: "extract_lws it \<noteq> it"
  have "length (dropWhile P xs) < length xs \<or> dropWhile P xs = xs" for P and xs :: bytes
    by (cases xs) (auto simp: less_Suc_eq_le length_dropWhile_le)
  note shorter = this
  have "length (dropWhile P (drop 3 it)) < length it" if "2 < length it" for P
    using that length_dropWhile_le [of P "drop 3 it"] by (simp add: le_less_trans)
  with ne shorter show ?thesis
    by (auto simp: extract_lws_def Let_def split: if_splits)
qed

function extract_all_lws :: "bytes \<Rightarrow> bytes" where
  "extract_all_lws old_it =
     (let new_it = extract_lws old_it in
      if new_it \<noteq> [] \<and> old_it \<noteq> new_it then extract_all_lws new_it else new_it)"
  by auto
termination
  by (relation "measure length") (auto intro: extract_lws_shorter)

declare extract_all_lws.simps [simp del]

subsection \<open>Attribute and parameter lists\<close>

type_synonym attribute_list = "bytes \<rightharpoonup> bytes"
type_synonym parameter_list = "(bytes \<times> attribute_list) list"

text \<open>Every extraction returns a suffix that is no longer, and a token read makes it shorter.\<close>

lemma length_extract_all_lws: "length (extract_all_lws it) \<le> length it"
proof (induction it rule: extract_all_lws.induct)
  case (1 it)
  then show ?case
    using length_extract_lws [of it] by (subst extract_all_lws.simps) (auto simp: Let_def)
qed

lemma length_extract_token: "length (fst (extract_token it)) + length (snd (extract_token it)) = length it"
  by (simp add: extract_token_def flip: length_append)

lemma quoted_loop_shorter: "quoted_loop s seg r = Some (v, r') \<Longrightarrow> length r' < length r"
  by (induction s seg r rule: quoted_loop.induct) (fastforce split: if_splits)+

lemma length_extract_quoted_string: "length (snd (extract_quoted_string it)) \<le> length it"
  by (auto simp: extract_quoted_string_def split: list.splits option.splits
    dest!: quoted_loop_shorter)

lemma extract_token_shorter: "(name, r) = extract_token it \<Longrightarrow> name \<noteq> [] \<Longrightarrow> length r < length it"
  using length_extract_token [of it] by (cases "extract_token it"; cases name) auto

lemma extract_token_le: "(name, r) = extract_token it \<Longrightarrow> length r \<le> length it"
  using length_extract_token [of it] by (cases "extract_token it") auto

lemma extract_quoted_string_le: "(v, r) = extract_quoted_string it \<Longrightarrow> length r \<le> length it"
  using length_extract_quoted_string [of it] by (cases "extract_quoted_string it") auto

lemma attribute_name_shorter:
  assumes "(name, r) = extract_token (extract_all_lws (if first then extract_all_lws it else tl (extract_all_lws it)))"
    and "name \<noteq> []"
  shows "length r < length it"
proof -
  have "length (if first then extract_all_lws it else tl (extract_all_lws it)) \<le> length it"
    using length_extract_all_lws [of it] by (simp add: le_diff_conv le_SucI)
  then show ?thesis
    using extract_token_shorter [OF assms] length_extract_all_lws le_less_trans less_le_trans by (metis (no_types))
qed

lemma lws_tl_lws_le: "length (extract_all_lws (tl (extract_all_lws it))) \<le> length it"
  using length_extract_all_lws [of "tl (extract_all_lws it)"] length_extract_all_lws [of it] by simp

function attributes_loop :: "bytes \<Rightarrow> bool \<Rightarrow> bytes \<Rightarrow> attribute_list \<Rightarrow> bytes \<times> attribute_list" where
  "attributes_loop begin' first cursor attributes =
     (if cursor = [] then (cursor, attributes)
      else
        (let cursor = extract_all_lws cursor in
         if cursor = [] then (cursor, attributes)
         else if \<not> first \<and> hd cursor \<noteq> 59 then (cursor, attributes)
         else
           (let cursor = (if first then cursor else tl cursor);
                cursor = extract_all_lws cursor;
                (name, cursor) = extract_token cursor
            in if name = [] then (begin', attributes)
               else
                 (let cursor = extract_all_lws cursor in
                  if cursor = [] \<or> hd cursor \<noteq> 61
                  then attributes_loop begin' False cursor (attributes(name \<mapsto> []))
                  else
                    (let cursor = extract_all_lws (tl cursor) in
                     if cursor = [] then (begin', attributes)
                     else
                       (let (v, after) = extract_quoted_string cursor in
                        if after \<noteq> cursor
                        then attributes_loop begin' False after (attributes(name \<mapsto> v))
                        else
                          (let (v, after) = extract_token cursor in
                           if v = [] then (begin', attributes)
                           else attributes_loop begin' False after (attributes(name \<mapsto> v)))))))))"
  by auto
termination
proof (relation "measure (\<lambda>(b, f, cursor, a). length cursor)", goal_cases)
  case 1
  show ?case by simp
next
  case (2 b f c)
  then show ?case
    using attribute_name_shorter [of _ _ f c] length_extract_all_lws
    by simp (meson le_less_trans)
next
  case (3 b f c)
  then show ?case
    using attribute_name_shorter [of _ _ f c] lws_tl_lws_le extract_quoted_string_le
    by simp (meson le_less_trans le_trans)
next
  case (4 b f c)
  then show ?case
    using attribute_name_shorter [of _ _ f c] lws_tl_lws_le extract_token_le
    by simp (meson le_less_trans le_trans)
qed

declare attributes_loop.simps [simp del]

definition extract_attributes :: "bytes \<Rightarrow> attribute_list \<Rightarrow> bytes \<times> attribute_list" where
  "extract_attributes begin' attributes =
     (if begin' = [] then (begin', attributes) else attributes_loop begin' True begin' attributes)"

lemma attributes_loop_le:
  "length cursor \<le> length b \<Longrightarrow> length (fst (attributes_loop b first cursor a)) \<le> length b"
proof (induction cursor arbitrary: first a rule: measure_induct_rule [of length])
  case (less cursor)
  let ?c = "extract_all_lws cursor"
  let ?c1 = "extract_all_lws (if first then ?c else tl ?c)"
  obtain name y where tok: "extract_token ?c1 = (name, y)" by fastforce
  obtain v q where quo: "extract_quoted_string (extract_all_lws (tl (extract_all_lws y))) = (v, q)" by fastforce
  obtain v' t where tok': "extract_token (extract_all_lws (tl (extract_all_lws y))) = (v', t)" by fastforce
  have y: "name \<noteq> [] \<Longrightarrow> length y < length cursor"
    using attribute_name_shorter [of name y first cursor] tok by simp
  have "length (extract_all_lws y) \<le> length y" "length q \<le> length y" "length t \<le> length y" "length ?c \<le> length cursor"
    using length_extract_all_lws [of y] lws_tl_lws_le [of y] extract_quoted_string_le [OF quo [symmetric]]
      extract_token_le [OF tok' [symmetric]] length_extract_all_lws [of cursor] by simp_all
  with y less.prems
  have "name \<noteq> [] \<Longrightarrow> length (fst (attributes_loop b False (extract_all_lws y) a')) \<le> length b"
    "name \<noteq> [] \<Longrightarrow> length (fst (attributes_loop b False q a')) \<le> length b"
    "name \<noteq> [] \<Longrightarrow> length (fst (attributes_loop b False t a')) \<le> length b" for a'
    by (auto intro!: less.IH)
  then show ?case
    using less.prems \<open>length ?c \<le> length cursor\<close>
    by (subst attributes_loop.simps) (simp add: Let_def tok quo tok')
qed

lemma extract_attributes_le: "length (fst (extract_attributes c a)) \<le> length c"
  by (simp add: extract_attributes_def attributes_loop_le)

function parameters_loop :: "bytes \<Rightarrow> bytes \<Rightarrow> parameter_list \<Rightarrow> bytes \<times> parameter_list" where
  "parameters_loop begin' cursor parameters =
     (if cursor = [] then (cursor, parameters)
      else
        (let cursor = extract_all_lws cursor in
         if cursor = [] then (cursor, parameters)
         else
           (let (name, cursor) = extract_token cursor in
            if name = [] then (begin', parameters)
            else
              (let cursor = extract_all_lws cursor in
               if cursor = [] then (cursor, parameters @ [(name, Map.empty)])
               else
                 (case (if hd cursor = 59
                        then (case extract_attributes (tl cursor) Map.empty of
                                (acursor, attributes) \<Rightarrow>
                                  if acursor = tl cursor then None else Some (acursor, attributes))
                        else Some (cursor, Map.empty)) of
                    None \<Rightarrow> (begin', parameters)
                  | Some (cursor, attributes) \<Rightarrow>
                      (let parameters = parameters @ [(name, attributes)];
                           cursor = extract_all_lws cursor
                       in if cursor = [] then (cursor, parameters)
                          else if hd cursor \<noteq> 44 then (cursor, parameters)
                          else if tl cursor = [] then (begin', parameters)
                          else parameters_loop begin' (tl cursor) parameters))))))"
  by auto
termination
proof (relation "measure (\<lambda>(b, cursor, p). length cursor)", goal_cases)
  case 1
  show ?case by simp
next
  case (2 b c p x xa xb y)
  then have "length y < length c"
    using extract_token_shorter length_extract_all_lws less_le_trans by blast
  moreover have le: "length xd \<le> length (extract_all_lws y)"
    if "(if hd (extract_all_lws y) = 59
       then case extract_attributes (tl (extract_all_lws y)) Map.empty of
            (acursor, attributes) \<Rightarrow>
              if acursor = tl (extract_all_lws y) then None else Some (acursor, attributes)
       else Some (extract_all_lws y, Map.empty)) = Some (xd, ya)" for xd ya
    using that extract_attributes_le [of "tl (extract_all_lws y)" Map.empty]
    by (auto split: if_splits prod.splits)
  ultimately have "length (tl (extract_all_lws xd)) < length c"
    if "length xd \<le> length (extract_all_lws y)" "extract_all_lws xd \<noteq> []" for xd
    using that length_extract_all_lws [of xd] length_extract_all_lws [of y] by (cases "extract_all_lws xd") auto
  note this [of "fst q" for q]
  then show ?case
    using 2 le by (auto dest!: le)
qed

end
