(* ===== verification/Ws_Connection.thy ===== *)
theory Ws_Connection
  imports Ws_Stream Ws_Http_Parser
begin

text \<open>
  The connection of the WebSocket library after its handshake: \<open>connection.hpp\<close> and
  \<open>impl/connection_impl.hpp\<close>, with the settings of \<open>config/core.hpp\<close>: sending, control frames,
  the closing handshake, reading, the write queue and the end of the connection.

  The transport is what the connection asks of it: calls of \<open>async_write\<close>, \<open>async_read_at_least\<close>
  and \<open>async_shutdown\<close>, and functions posted by \<open>dispatch\<close>, are recorded in the state and completed
  by the steps of the next theory. Logging is left out. A timer pointer is represented by whether it is set.

  The handlers of the application are parameters: a handler is a program that calls operations of
  the connection and goes on with their results. It returns; exceptions out of handlers are not
  modelled.
\<close>

subsection \<open>State\<close>

datatype session_status = SS_connecting | SS_open | SS_closing | SS_closed

datatype internal_state = USER_INIT | TRANSPORT_INIT | READ_HTTP_REQUEST | WRITE_HTTP_REQUEST
  | READ_HTTP_RESPONSE | WRITE_HTTP_RESPONSE | PROCESS_HTTP_REQUEST | PROCESS_CONNECTION

datatype http_state = HS_init | HS_deferred | HS_headers_written | HS_body_written | HS_closed

datatype terminate_status = TS_failed | TS_closed | TS_unknown

datatype posted_task = PostedWriteFrame | PostedInterrupt

datatype handler_event = OpenHandler | CloseHandler | FailHandler | TerminationHandler
  | MessageHandler ws_message | PingHandler bytes | PongHandler bytes | PongTimeoutHandler bytes
  | InterruptHandler

record 'u connection =
  m_con_state :: session_status
  m_internal_state :: internal_state
  m_is_server :: bool
  m_processor :: hybi13
  m_send_queue :: "ws_message list"
  m_send_buffer_size :: u64
  m_write_flag :: bool
  m_current_msgs :: "ws_message list"
  m_read_flag :: bool
  m_handshake_timer :: bool
  m_ping_timer :: bool
  m_local_close_code :: close_code
  m_local_close_reason :: bytes
  m_remote_close_code :: close_code
  m_remote_close_reason :: bytes
  m_ec :: error_code
  m_is_http :: bool
  m_http_state :: http_state
  m_was_clean :: bool
  posted :: "posted_task list"
  written :: "ws_message list"
  writes_pending :: nat
  reads_pending :: nat
  shutdowns :: "terminate_status list"
  shutdowns_pending :: "terminate_status list"
  frames_prepared :: nat
  handler_calls :: "handler_event list"
  application :: 'u

text \<open>
  Calls an application makes; messages it has prepared itself are not among them. The functions \<open>\<lambda>ec. \<dots>\<close> are what it
  does with the result.
\<close>

datatype api_call =
    Api_send bytes opcode
  | Api_send_raw bytes opcode
  | Api_ping bytes
  | Api_pong bytes
  | Api_close close_code bytes
  | Api_interrupt

datatype 'a user_prog = Return 'a | Call api_call "error_code \<Rightarrow> 'a user_prog"

record 'u environment =
  little_endian :: bool
  m_rng :: "nat \<Rightarrow> u32"
  m_close_handshake_timeout_dur :: int
  m_pong_timeout_dur :: int
  m_open_handler :: "('u \<Rightarrow> 'u user_prog) option"
  m_close_handler :: "('u \<Rightarrow> 'u user_prog) option"
  m_fail_handler :: "('u \<Rightarrow> 'u user_prog) option"
  m_message_handler :: "('u \<Rightarrow> ws_message \<Rightarrow> 'u user_prog) option"
  m_ping_handler :: "('u \<Rightarrow> bytes \<Rightarrow> ('u \<times> bool) user_prog) option"
  m_pong_handler :: "('u \<Rightarrow> bytes \<Rightarrow> 'u user_prog) option"
  m_pong_timeout_handler :: "('u \<Rightarrow> bytes \<Rightarrow> 'u user_prog) option"
  m_interrupt_handler :: "('u \<Rightarrow> 'u user_prog) option"
  m_termination_handler :: bool

text \<open>\<open>config/core.hpp\<close>.\<close>

definition drop_on_protocol_error :: bool where "drop_on_protocol_error \<longleftrightarrow> False"
definition silent_close :: bool where "silent_close \<longleftrightarrow> False"
definition max_message_size :: u64 where "max_message_size = 32000000"
definition connection_read_buffer_size :: nat where "connection_read_buffer_size = 16384"

text \<open>The opcode of a message without one is indeterminate until it is prepared.\<close>

definition manager_get_blank_message :: "ws_message option" where
  "manager_get_blank_message = Some (message_init 0)"

subsection \<open>The write queue\<close>

definition write_push :: "ws_message option \<Rightarrow> 'u connection \<Rightarrow> 'u connection" where
  "write_push msg c =
     (case msg of
        None \<Rightarrow> c
      | Some m \<Rightarrow> c\<lparr>m_send_buffer_size := m_send_buffer_size c + of_nat (length (m_payload m)),
          m_send_queue := m_send_queue c @ [m]\<rparr>)"

definition write_pop :: "'u connection \<Rightarrow> ws_message option \<times> 'u connection" where
  "write_pop c =
     (case m_send_queue c of
        [] \<Rightarrow> (None, c)
      | m # q \<Rightarrow> (Some m, c\<lparr>m_send_buffer_size := m_send_buffer_size c - of_nat (length (m_payload m)),
          m_send_queue := q\<rparr>))"

definition get_buffered_amount :: "'u connection \<Rightarrow> u64" where
  "get_buffered_amount c = m_send_buffer_size c"

text \<open>
  The end of every operation that queues a message: if no write is outstanding, \<open>write_frame\<close> is
  dispatched.
\<close>

definition dispatch_write :: "'u connection \<Rightarrow> 'u connection" where
  "dispatch_write c =
     (if \<not> m_write_flag c \<and> m_send_queue c \<noteq> [] then c\<lparr>posted := posted c @ [PostedWriteFrame]\<rparr> else c)"

definition next_rng :: "'u environment \<Rightarrow> 'u connection \<Rightarrow> u32" where
  "next_rng env c = m_rng env (frames_prepared c)"

definition count_frame :: "'u connection \<Rightarrow> 'u connection" where
  "count_frame c = c\<lparr>frames_prepared := Suc (frames_prepared c)\<rparr>"

subsection \<open>Sending\<close>

text \<open>\<open>send\<close> looks at the state under one lock and queues the message under another.\<close>

definition send_state_check :: "'u connection \<Rightarrow> error_code" where
  "send_state_check c = (if m_con_state c \<noteq> SS_open then WsError WE_invalid_state else NoError)"

definition send_enqueue :: "'u environment \<Rightarrow> ws_message \<Rightarrow> 'u connection \<Rightarrow> error_code \<times> 'u connection" where
  "send_enqueue env msg c =
     (if m_prepared msg then (NoError, dispatch_write (write_push (Some msg) c))
      else
        (case manager_get_blank_message of
           None \<Rightarrow> (WsError WE_no_outgoing_buffers, c)
         | Some out \<Rightarrow>
             (case prepare_data_frame (little_endian env) (m_server (m_processor c)) (next_rng env c) (Some msg) (Some out) of
                (ec, out') \<Rightarrow>
                  if has_error ec then (ec, c)
                  else (NoError, dispatch_write (write_push out' (count_frame c))))))"

definition send_message :: "'u environment \<Rightarrow> ws_message \<Rightarrow> 'u connection \<Rightarrow> error_code \<times> 'u connection" where
  "send_message env msg c =
     (if has_error (send_state_check c) then (send_state_check c, c) else send_enqueue env msg c)"

definition con_send :: "'u environment \<Rightarrow> bytes \<Rightarrow> opcode \<Rightarrow> 'u connection \<Rightarrow> error_code \<times> 'u connection" where
  "con_send env payload op c =
     send_message env (set_compressed True (append_payload payload (message_init op))) c"

definition con_send_raw :: "'u environment \<Rightarrow> bytes \<Rightarrow> opcode \<Rightarrow> 'u connection \<Rightarrow> error_code \<times> 'u connection" where
  "con_send_raw env payload op c = send_message env (append_payload payload (message_init op)) c"

text \<open>\<open>set_timer\<close> of the asio transport always returns a timer.\<close>

definition con_ping :: "'u environment \<Rightarrow> bytes \<Rightarrow> 'u connection \<Rightarrow> error_code \<times> 'u connection" where
  "con_ping env payload c =
     (if m_con_state c \<noteq> SS_open then (WsError WE_invalid_state, c)
      else
        (case prepare_ping (little_endian env) (m_server (m_processor c)) (next_rng env c) payload manager_get_blank_message of
           (ec, msg) \<Rightarrow>
             if has_error ec then (ec, c)
             else
               (let c = (if m_pong_timeout_handler env \<noteq> None \<and> m_pong_timeout_dur env > 0
                         then c\<lparr>m_ping_timer := True\<rparr> else c)
                in (NoError, dispatch_write (write_push msg (count_frame c))))))"

definition con_pong :: "'u environment \<Rightarrow> bytes \<Rightarrow> 'u connection \<Rightarrow> error_code \<times> 'u connection" where
  "con_pong env payload c =
     (if m_con_state c \<noteq> SS_open then (WsError WE_invalid_state, c)
      else
        (case prepare_pong (little_endian env) (m_server (m_processor c)) (next_rng env c) payload manager_get_blank_message of
           (ec, msg) \<Rightarrow>
             if has_error ec then (ec, c)
             else (NoError, dispatch_write (write_push msg (count_frame c)))))"

subsection \<open>Closing\<close>

definition local_close :: "close_code \<Rightarrow> bytes \<Rightarrow> bool \<Rightarrow> 'u connection \<Rightarrow> close_code \<times> bytes" where
  "local_close code reason ack c =
     (if silent_close then (cs_no_status, [])
      else if code \<noteq> cs_blank then (code, reason)
      else if \<not> ack then (cs_no_status, [])
      else if m_remote_close_code c = cs_no_status then (cs_normal, [])
      else (m_remote_close_code c, m_remote_close_reason c))"

definition send_close_frame ::
  "'u environment \<Rightarrow> close_code \<Rightarrow> bytes \<Rightarrow> bool \<Rightarrow> bool \<Rightarrow> 'u connection \<Rightarrow> error_code \<times> 'u connection" where
  "send_close_frame env code reason ack terminal c =
     (let (lcode, lreason) = local_close code reason ack c;
          c = c\<lparr>m_local_close_code := lcode, m_local_close_reason := lreason\<rparr>
      in case prepare_close (little_endian env) (m_server (m_processor c)) (next_rng env c) lcode lreason
            manager_get_blank_message of
           (ec, msg) \<Rightarrow>
             if has_error ec then (ec, c)
             else
               (let msg = (if terminal then map_option (set_terminal True) msg else msg);
                    c = c\<lparr>m_con_state := SS_closing\<rparr>;
                    c = (if ack then c\<lparr>m_was_clean := True\<rparr> else c);
                    c = (if m_close_handshake_timeout_dur env > 0 then c\<lparr>m_handshake_timer := True\<rparr> else c)
                in (NoError, dispatch_write (write_push msg (count_frame c)))))"

definition send_close_ack ::
  "'u environment \<Rightarrow> close_code \<Rightarrow> bytes \<Rightarrow> 'u connection \<Rightarrow> error_code \<times> 'u connection" where
  "send_close_ack env code reason c = send_close_frame env code reason True (m_is_server c) c"

definition connection_close ::
  "'u environment \<Rightarrow> close_code \<Rightarrow> bytes \<Rightarrow> 'u connection \<Rightarrow> error_code \<times> 'u connection" where
  "connection_close env code reason c =
     (let tr = take (min (length reason) (unat close_reason_size)) reason in
      if m_con_state c \<noteq> SS_open then (WsError WE_invalid_state, c)
      else send_close_frame env code tr False (close_terminal code) c)"

definition con_interrupt :: "'u connection \<Rightarrow> error_code \<times> 'u connection" where
  "con_interrupt c = (NoError, c\<lparr>posted := posted c @ [PostedInterrupt]\<rparr>)"

definition async_shutdown :: "terminate_status \<Rightarrow> 'u connection \<Rightarrow> 'u connection" where
  "async_shutdown tstat c = c\<lparr>shutdowns := shutdowns c @ [tstat], shutdowns_pending := shutdowns_pending c @ [tstat]\<rparr>"

definition terminate :: "error_code \<Rightarrow> 'u connection \<Rightarrow> 'u connection" where
  "terminate ec c =
     (let c = c\<lparr>m_handshake_timer := False\<rparr>;
          c = (if has_error ec
               then c\<lparr>m_ec := ec, m_local_close_code := cs_abnormal_close,
                 m_local_close_reason := str (error_message ec)\<rparr>
               else c);
          c = (if m_is_http c then c\<lparr>m_http_state := HS_closed\<rparr> else c)
      in case m_con_state c of
           SS_connecting \<Rightarrow> async_shutdown TS_failed (c\<lparr>m_con_state := SS_closed\<rparr>)
         | SS_closed \<Rightarrow> c
         | _ \<Rightarrow> async_shutdown TS_closed (c\<lparr>m_con_state := SS_closed\<rparr>))"

subsection \<open>The application\<close>

definition api_call :: "'u environment \<Rightarrow> api_call \<Rightarrow> 'u connection \<Rightarrow> error_code \<times> 'u connection" where
  "api_call env call c =
     (case call of
        Api_send payload op \<Rightarrow> con_send env payload op c
      | Api_send_raw payload op \<Rightarrow> con_send_raw env payload op c
      | Api_ping payload \<Rightarrow> con_ping env payload c
      | Api_pong payload \<Rightarrow> con_pong env payload c
      | Api_close code reason \<Rightarrow> connection_close env code reason c
      | Api_interrupt \<Rightarrow> con_interrupt c)"

primrec run_user :: "'u environment \<Rightarrow> 'a user_prog \<Rightarrow> 'u connection \<Rightarrow> 'a \<times> 'u connection" where
  "run_user env (Return a) c = (a, c)"
| "run_user env (Call call k) c = (case api_call env call c of (ec, c') \<Rightarrow> run_user env (k ec) c')"

definition log_handler :: "handler_event \<Rightarrow> 'u connection \<Rightarrow> 'u connection" where
  "log_handler e c = c\<lparr>handler_calls := handler_calls c @ [e]\<rparr>"

definition call_handler ::
  "'u environment \<Rightarrow> ('u \<Rightarrow> 'u user_prog) option \<Rightarrow> handler_event \<Rightarrow> 'u connection \<Rightarrow> 'u connection" where
  "call_handler env h e c =
     (case h of
        None \<Rightarrow> c
      | Some f \<Rightarrow> (case run_user env (f (application c)) (log_handler e c) of (u, c) \<Rightarrow> c\<lparr>application := u\<rparr>))"

text \<open>The ping handler also decides whether a pong is sent.\<close>

definition call_ping_handler :: "'u environment \<Rightarrow> bytes \<Rightarrow> 'u connection \<Rightarrow> bool \<times> 'u connection" where
  "call_ping_handler env payload c =
     (case m_ping_handler env of
        None \<Rightarrow> (True, c)
      | Some f \<Rightarrow> (case run_user env (f (application c) payload) (log_handler (PingHandler payload) c) of
          ((u, reply), c) \<Rightarrow> (reply, c\<lparr>application := u\<rparr>)))"

definition handle_terminate :: "'u environment \<Rightarrow> terminate_status \<Rightarrow> error_code \<Rightarrow> 'u connection \<Rightarrow> 'u connection" where
  "handle_terminate env tstat ec c =
     (let c = (case tstat of
                 TS_failed \<Rightarrow>
                   if m_ec c \<noteq> WsError WE_http_connection_ended then call_handler env (m_fail_handler env) FailHandler c
                   else c
               | TS_closed \<Rightarrow> call_handler env (m_close_handler env) CloseHandler c
               | TS_unknown \<Rightarrow> c)
      in if m_termination_handler env then log_handler TerminationHandler c else c)"

definition handle_interrupt :: "'u environment \<Rightarrow> 'u connection \<Rightarrow> 'u connection" where
  "handle_interrupt env c = call_handler env (m_interrupt_handler env) InterruptHandler c"

definition handle_pong_timeout :: "'u environment \<Rightarrow> bytes \<Rightarrow> error_code \<Rightarrow> 'u connection \<Rightarrow> 'u connection" where
  "handle_pong_timeout env payload ec c =
     (if has_error ec then c
      else call_handler env (map_option (\<lambda>f u. f u payload) (m_pong_timeout_handler env)) (PongTimeoutHandler payload) c)"

definition handle_close_handshake_timeout :: "error_code \<Rightarrow> 'u connection \<Rightarrow> 'u connection" where
  "handle_close_handshake_timeout ec c =
     (if ec = TransportError TE_operation_aborted then c
      else if has_error ec then c
      else terminate (WsError WE_close_handshake_timeout) c)"

subsection \<open>Writing\<close>

text \<open>The loop that takes messages off the queue until one is marked terminal.\<close>

function pop_messages :: "'u connection \<Rightarrow> 'u connection" where
  "pop_messages c =
     (case write_pop c of
        (None, c) \<Rightarrow> c
      | (Some m, c) \<Rightarrow>
          (let c = c\<lparr>m_current_msgs := m_current_msgs c @ [m]\<rparr>
           in if m_terminal m then c else pop_messages c))"
  by auto
termination
  by (relation "measure (\<lambda>c. length (m_send_queue c))") (auto simp: write_pop_def split: list.splits)

declare pop_messages.simps [simp del]

text \<open>
  \<open>m_send_buffer\<close> refers to the header and the payload of every message in \<open>m_current_msgs\<close>, in
  order; \<open>wire\<close> are the bytes of all that was written so far.
\<close>

definition wire :: "'u connection \<Rightarrow> bytes" where
  "wire c = concat (map message_wire (written c))"

definition write_frame :: "'u connection \<Rightarrow> 'u connection" where
  "write_frame c =
     (if m_write_flag c then c
      else
        (let c = pop_messages c in
         if m_current_msgs c = [] then c
         else
           (let c = c\<lparr>m_write_flag := True\<rparr>
            in c\<lparr>written := written c @ m_current_msgs c, writes_pending := Suc (writes_pending c)\<rparr>)))"

definition handle_write_frame :: "error_code \<Rightarrow> ('u connection, unit) prog" where
  "handle_write_frame ec = (\<lambda>c.
     if m_current_msgs c = [] then (Undefined, c)
     else
       (let terminal = m_terminal (last (m_current_msgs c));
            c = c\<lparr>m_current_msgs := []\<rparr>
        in (Ret (),
            if has_error ec then terminate ec c
            else if terminal then terminate NoError c
            else
              (let c = c\<lparr>m_write_flag := False\<rparr>
               in if m_send_queue c \<noteq> [] then c\<lparr>posted := posted c @ [PostedWriteFrame]\<rparr> else c))))"

subsection \<open>Reading\<close>

definition read_frame :: "'u connection \<Rightarrow> 'u connection" where
  "read_frame c = (if \<not> m_read_flag c then c else c\<lparr>reads_pending := Suc (reads_pending c)\<rparr>)"

definition handle_pause_reading :: "'u connection \<Rightarrow> 'u connection" where
  "handle_pause_reading c = c\<lparr>m_read_flag := False\<rparr>"

definition handle_resume_reading :: "'u connection \<Rightarrow> 'u connection" where
  "handle_resume_reading c = read_frame (c\<lparr>m_read_flag := True\<rparr>)"

definition process_close_frame :: "'u environment \<Rightarrow> bytes \<Rightarrow> 'u connection \<Rightarrow> 'u connection" where
  "process_close_frame env payload c =
     (let (code, ec) = extract_code (little_endian env) payload;
          c = c\<lparr>m_remote_close_code := code\<rparr>
      in if has_error ec then
           (if drop_on_protocol_error then terminate ec c
            else snd (send_close_ack env cs_protocol_error (str ''Invalid close code'') c))
         else
           (let (reason, ec) = extract_reason payload;
                c = c\<lparr>m_remote_close_reason := reason\<rparr>
            in if has_error ec then
                 (if drop_on_protocol_error then terminate ec c
                  else snd (send_close_ack env cs_protocol_error (str ''Invalid close reason'') c))
               else if m_con_state c = SS_open then snd (send_close_ack env cs_blank [] c)
               else if m_con_state c = SS_closing \<and> \<not> m_was_clean c then
                 (let c = c\<lparr>m_was_clean := True\<rparr>
                  in if m_is_server c then terminate NoError c else c)
               else c))"

definition process_control_frame :: "'u environment \<Rightarrow> ws_message \<Rightarrow> 'u connection \<Rightarrow> 'u connection" where
  "process_control_frame env msg c =
     (let op = m_opcode msg in
      if m_con_state c = SS_closed then c
      else if op \<noteq> op_close \<and> m_con_state c \<noteq> SS_open then c
      else if op = op_ping then
        (case call_ping_handler env (m_payload msg) c of
           (should_reply, c) \<Rightarrow> if should_reply then snd (con_pong env (m_payload msg) c) else c)
      else if op = op_pong then
        (let c = call_handler env (map_option (\<lambda>f u. f u (m_payload msg)) (m_pong_handler env))
                   (PongHandler (m_payload msg)) c
         in c)
      else if op = op_close then process_close_frame env (m_payload msg) c
      else c)"

text \<open>What is done with a complete message; a null message is ignored.\<close>

definition dispatch_message :: "'u environment \<Rightarrow> ws_message option \<Rightarrow> 'u connection \<Rightarrow> 'u connection" where
  "dispatch_message env msg c =
     (case msg of
        None \<Rightarrow> c
      | Some m \<Rightarrow>
          if \<not> opcode_is_control (m_opcode m) then
            (if m_con_state c \<noteq> SS_open then c
             else call_handler env (map_option (\<lambda>f u. f u m) (m_message_handler env)) (MessageHandler m) c)
          else process_control_frame env m c)"

definition handle_consume_error :: "'u environment \<Rightarrow> error_code \<Rightarrow> 'u connection \<Rightarrow> 'u connection" where
  "handle_consume_error env ec c =
     (if drop_on_protocol_error then terminate ec c
      else
        (case connection_close env (to_ws ec) (str (error_message ec)) c of
           (close_ec, c) \<Rightarrow> if has_error close_ec then terminate close_ec c else c))"

text \<open>The \<open>while\<close> loop over the bytes read; \<open>None\<close> if it does not end.\<close>

partial_function (option) handle_read_loop ::
  "'u environment \<Rightarrow> bytes \<Rightarrow> nat \<Rightarrow> 'u connection \<Rightarrow> (unit outcome \<times> 'u connection) option" where
  "handle_read_loop env buf p c =
     (if p < length buf then
        (case consume (little_endian env) (drop p buf) (m_processor c) of
           (Ret (n, ec), pr) \<Rightarrow>
             (let p = p + n; c = c\<lparr>m_processor := pr\<rparr>
              in if has_error ec then Some (Ret (), handle_consume_error env ec c)
                 else if ready pr then
                   (case get_message pr of
                      (Ret msg, pr) \<Rightarrow> handle_read_loop env buf p (dispatch_message env msg (c\<lparr>m_processor := pr\<rparr>))
                    | (Throw e, pr) \<Rightarrow> Some (Throw e, c\<lparr>m_processor := pr\<rparr>)
                    | (Undefined, pr) \<Rightarrow> Some (Undefined, c\<lparr>m_processor := pr\<rparr>))
                 else handle_read_loop env buf p c)
         | (Throw e, pr) \<Rightarrow> Some (Throw e, c\<lparr>m_processor := pr\<rparr>)
         | (Undefined, pr) \<Rightarrow> Some (Undefined, c\<lparr>m_processor := pr\<rparr>))
      else Some (Ret (), read_frame c))"

text \<open>\<open>buf\<close> are the bytes transferred.\<close>

definition handle_read_frame ::
  "'u environment \<Rightarrow> error_code \<Rightarrow> bytes \<Rightarrow> 'u connection \<Rightarrow> (unit outcome \<times> 'u connection) option" where
  "handle_read_frame env ec buf c =
     (let ecm = (if \<not> has_error ec \<and> m_internal_state c \<noteq> PROCESS_CONNECTION then WsError WE_invalid_state else ec)
      in if has_error ecm then
           (if ecm = TransportError TE_eof \<and> m_con_state c = SS_closed then Some (Ret (), c)
            else if ecm = TransportError TE_eof \<and> m_con_state c = SS_closing \<and> \<not> m_is_server c
              then Some (Ret (), terminate NoError c)
            else if ecm = WsError WE_invalid_state \<and> m_con_state c = SS_closed then Some (Ret (), c)
            else Some (Ret (), terminate ecm c))
         else handle_read_loop env buf 0 c)"

end
