(* ===== verification/Ws_Connection_States.thy ===== *)
theory Ws_Connection_States
  imports Ws_Connection
begin

text \<open>
  The states a connection can reach: the constructor, the end of the handshake, and a step
  relation in which threads of the application call operations and the transport runs posted
  functions and completes reads, writes, timers and the shutdown, in any order and with any
  result. A call or a completion handler is one step. In the code \<open>send\<close>, \<open>ping\<close> and \<open>pong\<close> release the lock on
  the state before they queue their message; what that allows is shown in \<open>Ws_Connection_Closing\<close>. \<open>pause_reading\<close> and
  \<open>resume_reading\<close> are not among the calls: a resumed connection that was not paused reads twice at once.
\<close>

subsection \<open>Steps\<close>

definition connection_init :: "bool \<Rightarrow> 'u \<Rightarrow> 'u connection" where
  "connection_init p_is_server u =
     \<lparr>m_con_state = SS_connecting, m_internal_state = USER_INIT, m_is_server = p_is_server,
      m_processor = hybi13_init p_is_server max_message_size,
      m_send_queue = [], m_send_buffer_size = 0, m_write_flag = False, m_current_msgs = [],
      m_read_flag = True, m_handshake_timer = False, m_ping_timer = False,
      m_local_close_code = cs_abnormal_close, m_local_close_reason = [],
      m_remote_close_code = cs_abnormal_close, m_remote_close_reason = [],
      m_ec = NoError, m_is_http = False, m_http_state = HS_init, m_was_clean = False,
      posted = [], written = [], writes_pending = 0, reads_pending = 0, shutdowns = [],
      shutdowns_pending = [], frames_prepared = 0, handler_calls = [], application = u\<rparr>"

text \<open>
  The end of \<open>handle_write_http_response\<close> after a successful handshake; \<open>rest\<close> are the bytes that
  were read behind it.
\<close>

definition connection_opened :: "'u environment \<Rightarrow> bytes \<Rightarrow> 'u connection \<Rightarrow> (unit outcome \<times> 'u connection) option" where
  "connection_opened env rest c =
     (let c = c\<lparr>m_internal_state := PROCESS_CONNECTION, m_con_state := SS_open\<rparr>;
          c = call_handler env (m_open_handler env) OpenHandler c
      in handle_read_frame env NoError rest c)"

definition handle_open_handshake_timeout :: "error_code \<Rightarrow> 'u connection \<Rightarrow> 'u connection" where
  "handle_open_handshake_timeout ec c =
     (if ec = TransportError TE_operation_aborted then c
      else if has_error ec then c
      else terminate (WsError WE_open_handshake_timeout) c)"

fun run_posted :: "'u environment \<Rightarrow> posted_task \<Rightarrow> 'u connection \<Rightarrow> 'u connection" where
  "run_posted env PostedWriteFrame c = write_frame c"
| "run_posted env PostedInterrupt c = handle_interrupt env c"

inductive con_step :: "'u environment \<Rightarrow> 'u connection \<Rightarrow> 'u connection \<Rightarrow> bool" for env where
  opened: "m_con_state c = SS_connecting \<Longrightarrow> connection_opened env rest c = Some (Ret (), c') \<Longrightarrow> con_step env c c'"
| handshake_failed: "m_con_state c = SS_connecting \<Longrightarrow> con_step env c (terminate ec c)"
| handshake_timeout: "con_step env c (handle_open_handshake_timeout ec c)"
| api: "con_step env c (snd (api_call env call c))"
| post: "posted c = t # ts \<Longrightarrow> con_step env c (run_posted env t (c\<lparr>posted := ts\<rparr>))"
| write_done: "writes_pending c = Suc n \<Longrightarrow>
    handle_write_frame ec (c\<lparr>writes_pending := n\<rparr>) = (Ret (), c') \<Longrightarrow> con_step env c c'"
| read_done: "reads_pending c = Suc n \<Longrightarrow>
    handle_read_frame env ec buf (c\<lparr>reads_pending := n\<rparr>) = Some (Ret (), c') \<Longrightarrow> con_step env c c'"
| shutdown_done: "shutdowns_pending c = st # sts \<Longrightarrow>
    con_step env c (handle_terminate env st ec (c\<lparr>shutdowns_pending := sts\<rparr>))"
| close_timeout: "con_step env c (handle_close_handshake_timeout ec c)"
| pong_timeout: "con_step env c (handle_pong_timeout env payload ec c)"

definition connection_start :: "'u connection \<Rightarrow> bool" where
  "connection_start c \<longleftrightarrow> (\<exists>server u. c = connection_init server u)"

abbreviation con_reachable :: "'u environment \<Rightarrow> 'u connection \<Rightarrow> bool" where
  "con_reachable env \<equiv> reachable connection_start (con_step env)"

subsection \<open>Queueing a message\<close>

definition enqueue :: "ws_message \<Rightarrow> 'u connection \<Rightarrow> 'u connection" where
  "enqueue m c = dispatch_write (write_push (Some m) (count_frame c))"

lemma prepare_data_frame_result:
  assumes "prepare_data_frame le sv r (Some m) (Some out) = (ec, out')"
  shows "has_error ec \<or> (\<exists>o'. out' = Some o' \<and> m_opcode o' = m_opcode m \<and>
    \<not> opcode_is_control (m_opcode m) \<and> m_terminal o' = m_terminal out)"
  using assms by (auto simp: prepare_data_frame_def Let_def pmd_is_enabled_def split: if_splits)

lemma prepare_control_result:
  assumes "prepare_control le sv r op payload (Some out) = (ec, out')"
  shows "has_error ec \<or> (\<exists>o'. out' = Some o' \<and> m_opcode o' = op \<and> m_terminal o' = m_terminal out)"
  using assms by (auto simp: prepare_control_def Let_def split: if_splits)

lemma opcode_close_control: "opcode_is_control op_close"
  by (simp add: opcode_is_control_def opcode_defs)

lemma opcode_ping_pong: "op_ping \<noteq> op_close" "op_pong \<noteq> op_close" "op_close \<noteq> op_ping" "op_close \<noteq> op_pong"
  by (simp_all add: opcode_defs)

text \<open>
  What the operations do to a connection, in small effects: fields change that no invariant
  speaks about, a function is posted, a message is queued (a close frame only by leaving the open
  state), a handler is called, the connection is terminated.
\<close>

definition side_fields :: "'u connection \<Rightarrow> 'u connection \<Rightarrow> bool" where
  "side_fields c c' \<longleftrightarrow> (\<exists>ht pt lc lr rc rr wc u. c' = c\<lparr>m_handshake_timer := ht, m_ping_timer := pt,
     m_local_close_code := lc, m_local_close_reason := lr, m_remote_close_code := rc,
     m_remote_close_reason := rr, m_was_clean := wc, application := u\<rparr>)"

lemma side_fields_updates [simp]:
  "side_fields c c" "side_fields c (c\<lparr>m_ping_timer := b\<rparr>)" "side_fields c (c\<lparr>application := u\<rparr>)"
  "side_fields c (c\<lparr>m_remote_close_code := rc\<rparr>)" "side_fields c (c\<lparr>m_remote_close_reason := rr\<rparr>)"
  "side_fields c (c\<lparr>m_was_clean := b\<rparr>)" "side_fields c (c\<lparr>m_local_close_code := lc, m_local_close_reason := lr\<rparr>)"
  "side_fields c (c\<lparr>m_local_close_code := lc, m_local_close_reason := lr, m_was_clean := b, m_handshake_timer := b'\<rparr>)"
  by (cases c; simp add: side_fields_def)+

fun is_end :: "handler_event \<Rightarrow> bool" where
  "is_end CloseHandler \<longleftrightarrow> True"
| "is_end FailHandler \<longleftrightarrow> True"
| "is_end _ \<longleftrightarrow> False"

inductive con_effect :: "'u connection \<Rightarrow> 'u connection \<Rightarrow> bool" where
  side: "side_fields c c' \<Longrightarrow> con_effect c c'"
| interrupt: "con_effect c (c\<lparr>posted := posted c @ [PostedInterrupt]\<rparr>)"
| message: "m_con_state c = SS_open \<Longrightarrow> m_opcode m \<noteq> op_close \<Longrightarrow> \<not> m_terminal m \<Longrightarrow> side_fields c c' \<Longrightarrow>
    con_effect c (enqueue m c')"
| close: "m_con_state c \<in> {SS_open, SS_closing} \<Longrightarrow> m_opcode m = op_close \<Longrightarrow> side_fields c c' \<Longrightarrow>
    con_effect c (enqueue m (c'\<lparr>m_con_state := SS_closing\<rparr>))"
| handler: "\<not> is_end e \<Longrightarrow> con_effect c (log_handler e c)"
| terminated: "con_effect c (terminate ec c)"

abbreviation con_effects :: "'u connection \<Rightarrow> 'u connection \<Rightarrow> bool" where
  "con_effects \<equiv> con_effect\<^sup>*\<^sup>*"

lemma send_enqueue_effect:
  "m_con_state c = SS_open \<Longrightarrow> \<not> m_prepared msg \<Longrightarrow> con_effect c (snd (send_enqueue env msg c))"
  using prepare_data_frame_result [of "little_endian env" "m_server (m_processor c)" "next_rng env c" msg "message_init 0"]
  by (auto simp: send_enqueue_def manager_get_blank_message_def enqueue_def [symmetric] message_init_def
      opcode_close_control split: prod.split intro!: con_effect.message intro: con_effect.side)

lemma con_send_effect: "con_effect c (snd (con_send env payload op c))" "con_effect c (snd (con_send_raw env payload op c))"
  using send_enqueue_effect [of c "set_compressed True (append_payload payload (message_init op))" env]
    send_enqueue_effect [of c "append_payload payload (message_init op)" env]
  by (auto simp: con_send_def con_send_raw_def send_message_def send_state_check_def message_setters message_init_def
      intro: con_effect.side)

lemma con_ping_effect: "con_effect c (snd (con_ping env payload c))"
  using prepare_control_result [of "little_endian env" "m_server (m_processor c)" "next_rng env c" op_ping payload "message_init 0"]
  by (auto simp: con_ping_def prepare_ping_def manager_get_blank_message_def enqueue_def [symmetric]
      message_init_def opcode_ping_pong split: prod.split intro!: con_effect.message intro: con_effect.side)

lemma con_pong_effect: "con_effect c (snd (con_pong env payload c))"
  using prepare_control_result [of "little_endian env" "m_server (m_processor c)" "next_rng env c" op_pong payload "message_init 0"]
  by (auto simp: con_pong_def prepare_pong_def manager_get_blank_message_def enqueue_def [symmetric]
      message_init_def opcode_ping_pong split: prod.split intro!: con_effect.message intro: con_effect.side)

lemma send_close_frame_effect:
  assumes "m_con_state c \<in> {SS_open, SS_closing}"
  shows "con_effect c (snd (send_close_frame env code reason ack terminal c))"
proof -
  obtain lc lr where l: "local_close code reason ack c = (lc, lr)" by fastforce
  let ?c = "c\<lparr>m_local_close_code := lc, m_local_close_reason := lr\<rparr>"
  obtain ec msg where p: "prepare_close (little_endian env) (m_server (m_processor ?c)) (next_rng env ?c) lc lr
      (Some (message_init 0)) = (ec, msg)" by fastforce
  define ht where "ht = (m_close_handshake_timeout_dur env > 0 \<or> m_handshake_timer c)"
  let ?c' = "?c\<lparr>m_was_clean := ack \<or> m_was_clean c, m_handshake_timer := ht\<rparr>"
  have side: "side_fields c ?c" "side_fields c ?c'" by simp_all
  show ?thesis
  proof (cases "has_error ec")
    case True
    then show ?thesis
      using l p side(1) by (simp add: send_close_frame_def manager_get_blank_message_def con_effect.side)
  next
    case False
    then obtain m where m: "msg = Some m" "m_opcode m = op_close"
      using p prepare_control_result by (fastforce simp: prepare_close_def split: if_splits)
    let ?m = "if terminal then set_terminal True m else m"
    have "snd (send_close_frame env code reason ack terminal c) = enqueue ?m (?c'\<lparr>m_con_state := SS_closing\<rparr>)"
      using False l p m
      by (cases c) (simp add: send_close_frame_def manager_get_blank_message_def enqueue_def ht_def Let_def)
    then show ?thesis
      using con_effect.close [OF assms _ side(2), of ?m] m(2) by (auto simp: message_setters)
  qed
qed

lemma api_call_effect: "con_effect c (snd (api_call env call c))"
  by (auto simp: api_call_def con_send_effect con_ping_effect con_pong_effect connection_close_def con_interrupt_def Let_def
      intro: con_effect.interrupt send_close_frame_effect con_effect.side split: api_call.split)

lemma run_user_effects: "con_effects c (snd (run_user env p c))"
proof (induction p arbitrary: c)
  case (Call call k)
  obtain ec c' where c': "api_call env call c = (ec, c')" by fastforce
  then have "con_effect c c'" using api_call_effect [of c env call] by simp
  then show ?case using Call [of "k ec" c'] c' by (simp add: converse_rtranclp_into_rtranclp)
qed simp

lemma con_effectsI: "con_effect c c' \<Longrightarrow> con_effects c c'"
  by (rule r_into_rtranclp)

lemma call_handler_rest:
  "con_effects (log_handler e c) (call_handler env (Some f) e c)"
proof -
  obtain u c' where u: "run_user env (f (application c)) (log_handler e c) = (u, c')" by fastforce
  have "con_effects (log_handler e c) c'" using run_user_effects [of "log_handler e c" env "f (application c)"] u by simp
  moreover have "con_effect c' (c'\<lparr>application := u\<rparr>)" by (rule con_effect.side) simp
  ultimately show ?thesis by (simp add: call_handler_def u)
qed

lemma call_handler_effects: "\<not> is_end e \<Longrightarrow> con_effects c (call_handler env h e c)"
  using call_handler_rest [of e c env] con_effect.handler [of e c]
  by (cases h) (auto simp: call_handler_def [of env None] intro: converse_rtranclp_into_rtranclp)

lemma call_ping_handler_effects: "con_effects c (snd (call_ping_handler env payload c))"
proof (cases "m_ping_handler env")
  case (Some f)
  let ?c = "log_handler (PingHandler payload) c"
  obtain u r c' where u: "run_user env (f (application c) payload) ?c = ((u, r), c')" by (metis prod.collapse)
  have "con_effect c ?c" by (rule con_effect.handler) simp
  moreover have "con_effects ?c c'" using run_user_effects [of ?c env "f (application c) payload"] u by simp
  moreover have "con_effect c' (c'\<lparr>application := u\<rparr>)" by (rule con_effect.side) simp
  ultimately show ?thesis
    using Some u by (auto simp: call_ping_handler_def intro: rtranclp.rtrancl_into_rtrancl converse_rtranclp_into_rtranclp)
qed (simp add: call_ping_handler_def)

lemma terminate_effects: "con_effects c (terminate ec c)"
  by (rule con_effectsI, rule con_effect.terminated)

lemma send_close_ack_effects:
  "m_con_state c \<in> {SS_open, SS_closing} \<Longrightarrow> con_effects c (snd (send_close_ack env code reason c))"
  unfolding send_close_ack_def by (rule con_effectsI, rule send_close_frame_effect)

lemma process_close_frame_effects:
  assumes "m_con_state c \<in> {SS_open, SS_closing}"
  shows "con_effects c (process_close_frame env payload c)"
proof -
  obtain code ec where code: "extract_code (little_endian env) payload = (code, ec)" by fastforce
  obtain reason ec' where reason: "extract_reason payload = (reason, ec')" by fastforce
  let ?c1 = "c\<lparr>m_remote_close_code := code\<rparr>"
  let ?c2 = "?c1\<lparr>m_remote_close_reason := reason\<rparr>"
  have 1: "con_effects c ?c1" by (rule con_effectsI, rule con_effect.side) simp
  have "con_effect ?c1 ?c2" by (rule con_effect.side) simp
  with 1 have 2: "con_effects c ?c2" by simp
  have "con_effect ?c2 (?c2\<lparr>m_was_clean := True\<rparr>)" by (rule con_effect.side) simp
  with 2 have 3: "con_effects c (?c2\<lparr>m_was_clean := True\<rparr>)" by (rule rtranclp.rtrancl_into_rtrancl)
  note ack = send_close_ack_effects [where env = env]
  show ?thesis
    using 1 2 3 rtranclp_trans [OF 1 ack] rtranclp_trans [OF 2 ack] rtranclp_trans [OF 3 terminate_effects] assms
    by (simp add: process_close_frame_def code reason drop_on_protocol_error_def Let_def)
qed

lemma process_control_frame_effects:
  assumes "m_con_state c \<noteq> SS_connecting"
  shows "con_effects c (process_control_frame env msg c)"
proof -
  obtain r c' where r: "call_ping_handler env (m_payload msg) c = (r, c')" by fastforce
  then have "con_effects c c'" using call_ping_handler_effects [of c env "m_payload msg"] by simp
  moreover have "con_effect c' (snd (con_pong env (m_payload msg) c'))" by (rule con_pong_effect)
  moreover have "m_con_state c \<in> {SS_open, SS_closing, SS_closed}" using assms by (cases "m_con_state c") simp_all
  ultimately show ?thesis
    using r process_close_frame_effects [of c env "m_payload msg"] call_handler_effects [of "PongHandler (m_payload msg)" c env]
    by (auto simp: process_control_frame_def Let_def intro: rtranclp.rtrancl_into_rtrancl)
qed

lemma dispatch_message_effects:
  "m_con_state c \<noteq> SS_connecting \<Longrightarrow> con_effects c (dispatch_message env msg c)"
  by (auto simp: dispatch_message_def process_control_frame_effects call_handler_effects split: option.split)

lemma handle_consume_error_effects: "con_effects c (handle_consume_error env ec c)"
proof -
  let ?r = "connection_close env (to_ws ec) (str (error_message ec)) c"
  have "con_effect c (snd ?r)"
    by (auto simp: connection_close_def Let_def intro: send_close_frame_effect con_effect.side)
  then have "con_effects c (snd ?r)" by (rule con_effectsI)
  then show ?thesis
    using rtranclp_trans [OF _ terminate_effects, of c "snd ?r" "fst ?r"]
    by (cases ?r) (simp add: handle_consume_error_def drop_on_protocol_error_def)
qed

subsection \<open>Invariants\<close>

definition queued_bytes :: "ws_message list \<Rightarrow> u64" where
  "queued_bytes q = of_nat (sum_list (map (length \<circ> m_payload) q))"

text \<open>
  The size of the buffer; no queued message is forgotten; at most one write is outstanding, and
  the write flag is held exactly until it completes, or for good when the connection is closed;
  the connection is shut down once, when it is closed, and the close or the fail handler is called
  at most once, after that; in what goes out, nothing but close frames follows a close frame, and
  there is one only when the connection is closing.
\<close>

definition buffer_inv :: "'u connection \<Rightarrow> bool" where
  "buffer_inv c \<longleftrightarrow> m_send_buffer_size c = queued_bytes (m_send_queue c)"

definition wakeup_inv :: "'u connection \<Rightarrow> bool" where
  "wakeup_inv c \<longleftrightarrow> (m_send_queue c \<noteq> [] \<longrightarrow> m_write_flag c \<or> PostedWriteFrame \<in> set (posted c))"

definition write_inv :: "'u connection \<Rightarrow> bool" where
  "write_inv c \<longleftrightarrow>
     writes_pending c = (if m_current_msgs c = [] then 0 else 1) \<and>
     (m_current_msgs c \<noteq> [] \<longrightarrow> m_write_flag c) \<and>
     (m_write_flag c \<and> m_current_msgs c = [] \<longrightarrow> m_con_state c = SS_closed) \<and>
     (\<forall>m\<in>set (butlast (m_current_msgs c)). \<not> m_terminal m)"

definition end_inv :: "'u connection \<Rightarrow> bool" where
  "end_inv c \<longleftrightarrow>
     length (shutdowns c) = (if m_con_state c = SS_closed then 1 else 0) \<and>
     length (filter is_end (handler_calls c)) + length (shutdowns_pending c) \<le> length (shutdowns c)"

definition outgoing :: "'u connection \<Rightarrow> ws_message list" where
  "outgoing c = written c @ m_send_queue c"

definition order_inv :: "'u connection \<Rightarrow> bool" where
  "order_inv c \<longleftrightarrow> (\<exists>xs ys. outgoing c = xs @ ys \<and> (\<forall>m\<in>set xs. m_opcode m \<noteq> op_close) \<and>
     (\<forall>m\<in>set ys. m_opcode m = op_close) \<and> (m_con_state c \<in> {SS_connecting, SS_open} \<longrightarrow> ys = []))"

definition base_inv :: "'u connection \<Rightarrow> bool" where
  "base_inv c \<longleftrightarrow> buffer_inv c \<and> wakeup_inv c \<and> write_inv c \<and> end_inv c \<and> order_inv c"

lemmas base_invs = base_inv_def buffer_inv_def wakeup_inv_def write_inv_def end_inv_def outgoing_def

lemma enqueue_sel [simp]:
  "m_send_queue (enqueue m c) = m_send_queue c @ [m]"
  "m_send_buffer_size (enqueue m c) = m_send_buffer_size c + of_nat (length (m_payload m))"
  "m_write_flag (enqueue m c) = m_write_flag c" "m_current_msgs (enqueue m c) = m_current_msgs c"
  "writes_pending (enqueue m c) = writes_pending c" "written (enqueue m c) = written c"
  "m_con_state (enqueue m c) = m_con_state c" "shutdowns (enqueue m c) = shutdowns c"
  "shutdowns_pending (enqueue m c) = shutdowns_pending c" "handler_calls (enqueue m c) = handler_calls c"
  "m_processor (enqueue m c) = m_processor c" "reads_pending (enqueue m c) = reads_pending c"
  "m_read_flag (enqueue m c) = m_read_flag c" "m_internal_state (enqueue m c) = m_internal_state c"
  "m_is_server (enqueue m c) = m_is_server c"
  "posted (enqueue m c) = posted c @ (if m_write_flag c then [] else [PostedWriteFrame])"
  by (simp_all add: enqueue_def dispatch_write_def write_push_def count_frame_def)

lemma side_fields_sel:
  assumes "side_fields c c'"
  shows "m_send_queue c' = m_send_queue c" "m_send_buffer_size c' = m_send_buffer_size c"
    "m_write_flag c' = m_write_flag c" "m_current_msgs c' = m_current_msgs c"
    "writes_pending c' = writes_pending c" "written c' = written c" "m_con_state c' = m_con_state c"
    "shutdowns c' = shutdowns c" "shutdowns_pending c' = shutdowns_pending c"
    "handler_calls c' = handler_calls c" "posted c' = posted c" "m_processor c' = m_processor c"
    "reads_pending c' = reads_pending c" "m_read_flag c' = m_read_flag c" "m_internal_state c' = m_internal_state c"
    "m_is_server c' = m_is_server c"
  using assms by (auto simp: side_fields_def)

lemma terminate_sel [simp]:
  "m_send_queue (terminate ec c) = m_send_queue c" "m_send_buffer_size (terminate ec c) = m_send_buffer_size c"
  "m_write_flag (terminate ec c) = m_write_flag c" "m_current_msgs (terminate ec c) = m_current_msgs c"
  "writes_pending (terminate ec c) = writes_pending c" "written (terminate ec c) = written c"
  "m_con_state (terminate ec c) = SS_closed" "handler_calls (terminate ec c) = handler_calls c"
  "posted (terminate ec c) = posted c" "m_processor (terminate ec c) = m_processor c"
  "reads_pending (terminate ec c) = reads_pending c" "m_read_flag (terminate ec c) = m_read_flag c"
  "m_internal_state (terminate ec c) = m_internal_state c" "m_is_server (terminate ec c) = m_is_server c"
  by (auto simp: terminate_def Let_def async_shutdown_def split: session_status.split)

lemma terminate_shutdowns:
  "m_con_state c = SS_closed \<Longrightarrow> shutdowns (terminate ec c) = shutdowns c \<and> shutdowns_pending (terminate ec c) = shutdowns_pending c"
  "m_con_state c \<noteq> SS_closed \<Longrightarrow> \<exists>st. shutdowns (terminate ec c) = shutdowns c @ [st] \<and>
     shutdowns_pending (terminate ec c) = shutdowns_pending c @ [st]"
  by (auto simp: terminate_def Let_def async_shutdown_def split: session_status.split)

lemma order_inv_keep:
  assumes "order_inv c" and "outgoing c' = outgoing c"
    and "m_con_state c' \<in> {SS_connecting, SS_open} \<Longrightarrow> m_con_state c \<in> {SS_connecting, SS_open}"
  shows "order_inv c'"
  using assms unfolding order_inv_def by (metis (no_types, lifting))

lemma order_inv_message:
  assumes "order_inv c" and "outgoing c' = outgoing c @ [m]" and "m_con_state c = SS_open" and "m_opcode m \<noteq> op_close"
  shows "order_inv c'"
proof -
  obtain xs where xs: "outgoing c = xs" "\<forall>m\<in>set xs. m_opcode m \<noteq> op_close"
    using assms(1,3) unfolding order_inv_def by auto
  then show ?thesis
    using assms(2,4) unfolding order_inv_def by (intro exI [of _ "xs @ [m]"] exI [of _ "[]"]) auto
qed

lemma order_inv_close:
  assumes "order_inv c" and "outgoing c' = outgoing c @ [m]" and "m_con_state c' = SS_closing" and "m_opcode m = op_close"
  shows "order_inv c'"
proof -
  obtain xs ys where xs: "outgoing c = xs @ ys" "\<forall>m\<in>set xs. m_opcode m \<noteq> op_close" "\<forall>m\<in>set ys. m_opcode m = op_close"
    using assms(1) unfolding order_inv_def by auto
  then show ?thesis
    using assms(2-4) unfolding order_inv_def by (intro exI [of _ xs] exI [of _ "ys @ [m]"]) auto
qed

lemma queued_bytes_append: "queued_bytes (q @ [m]) = queued_bytes q + of_nat (length (m_payload m))"
  by (simp add: queued_bytes_def)

lemma base_inv_effect: "con_effect c c' \<Longrightarrow> base_inv c \<Longrightarrow> base_inv c'"
proof (induction rule: con_effect.induct)
  case (side c c')
  then have "order_inv c'" using order_inv_keep [of c c'] by (simp add: side_fields_sel base_invs)
  with side show ?case by (simp add: base_invs side_fields_sel)
next
  case (interrupt c)
  then have "order_inv (c\<lparr>posted := posted c @ [PostedInterrupt]\<rparr>)"
    using order_inv_keep [of c "c\<lparr>posted := posted c @ [PostedInterrupt]\<rparr>"] by (simp add: base_invs)
  with interrupt show ?case by (auto simp: base_invs)
next
  case (message c m c')
  note sel = side_fields_sel [OF message(4)]
  have "order_inv (enqueue m c')"
    using message order_inv_message [of c "enqueue m c'" m] by (simp add: base_invs sel)
  with message show ?case by (auto simp: base_invs sel queued_bytes_append)
next
  case (close c m c')
  note sel = side_fields_sel [OF close(3)]
  have "order_inv (enqueue m (c'\<lparr>m_con_state := SS_closing\<rparr>))"
    using close order_inv_close [of c "enqueue m (c'\<lparr>m_con_state := SS_closing\<rparr>)" m] by (simp add: base_invs sel)
  with close show ?case by (auto simp: base_invs sel queued_bytes_append)
next
  case (handler e c)
  then have "order_inv (log_handler e c)"
    using order_inv_keep [of c "log_handler e c"] by (simp add: base_invs log_handler_def)
  with handler show ?case by (auto simp: base_invs log_handler_def)
next
  case (terminated c ec)
  then have "order_inv (terminate ec c)" using order_inv_keep [of c "terminate ec c"] by (simp add: base_invs)
  with terminated terminate_shutdowns [of c ec] show ?case
    by (cases "m_con_state c = SS_closed") (auto simp: base_invs)
qed

lemma base_inv_effects: "con_effects c c' \<Longrightarrow> base_inv c \<Longrightarrow> base_inv c'"
  by (induction rule: rtranclp_induct) (auto intro: base_inv_effect)

text \<open>What no operation changes.\<close>

definition fixed_fields :: "'u connection \<Rightarrow> hybi13 \<times> nat \<times> bool \<times> internal_state \<times> bool \<times> nat \<times> ws_message list \<times> ws_message list" where
  "fixed_fields c = (m_processor c, reads_pending c, m_read_flag c, m_internal_state c, m_is_server c,
     writes_pending c, m_current_msgs c, written c)"

lemma fixed_fields_effect:
  "con_effect c c' \<Longrightarrow> fixed_fields c' = fixed_fields c \<and> (m_con_state c' = SS_connecting \<longrightarrow> m_con_state c = SS_connecting)"
  by (induction rule: con_effect.induct) (auto simp: fixed_fields_def side_fields_sel log_handler_def)

lemma fixed_fields_effects:
  "con_effects c c' \<Longrightarrow> fixed_fields c' = fixed_fields c \<and> (m_con_state c' = SS_connecting \<longrightarrow> m_con_state c = SS_connecting)"
  by (induction rule: rtranclp_induct) (auto dest: fixed_fields_effect)

subsection \<open>Reading\<close>

text \<open>
  Between two reads the processor is well-formed and has no complete message, so that every read
  is processed to its end.
\<close>

definition reading_inv :: "bool \<Rightarrow> 'u connection \<Rightarrow> bool" where
  "reading_inv le c \<longleftrightarrow> stream_inv le (m_processor c) \<and> \<not> ready (m_processor c)"

definition read_inv :: "bool \<Rightarrow> 'u connection \<Rightarrow> bool" where
  "read_inv le c \<longleftrightarrow>
     m_read_flag c \<and> reads_pending c \<le> 1 \<and>
     (m_con_state c = SS_connecting \<longrightarrow> reads_pending c = 0 \<and> reading_inv le c \<and> m_internal_state c \<noteq> PROCESS_CONNECTION) \<and>
     (0 < reads_pending c \<longrightarrow> reading_inv le c)"

text \<open>One round of the loop: the processor takes bytes and the operations run.\<close>

inductive read_effect :: "'u connection \<Rightarrow> 'u connection \<Rightarrow> bool" where
  operation: "con_effect c c' \<Longrightarrow> read_effect c c'"
| processor: "read_effect c (c\<lparr>m_processor := pr\<rparr>)"

lemma read_effects_operations: "con_effects c c' \<Longrightarrow> read_effect\<^sup>*\<^sup>* c c'"
  by (induction rule: rtranclp_induct) (auto intro: rtranclp.rtrancl_into_rtrancl read_effect.operation)

lemma base_inv_processor [simp]: "base_inv (c\<lparr>m_processor := pr\<rparr>) = base_inv c"
  by (simp add: base_invs order_inv_def)

lemma base_inv_read: "read_effect\<^sup>*\<^sup>* c c' \<Longrightarrow> base_inv c \<Longrightarrow> base_inv c'"
  by (induction rule: rtranclp_induct) (auto elim!: read_effect.cases intro: base_inv_effect)

lemma read_effects_fixed:
  "read_effect\<^sup>*\<^sup>* c c' \<Longrightarrow> snd (fixed_fields c') = snd (fixed_fields c) \<and> (m_con_state c' = SS_connecting \<longrightarrow> m_con_state c = SS_connecting)"
  by (induction rule: rtranclp_induct) (auto elim!: read_effect.cases dest!: fixed_fields_effect simp: fixed_fields_def)

definition fresh :: "hybi13 \<Rightarrow> bool" where
  "fresh s \<longleftrightarrow> m_hstate s = HEADER_BASIC \<and> m_bytes_needed s \<noteq> 0"

lemma read_loop_end: "handle_read_loop env buf (length buf) c = Some (Ret (), read_frame c)"
  by (subst handle_read_loop.simps) simp

lemma read_loop_error:
  assumes "p < length buf" and "consume (little_endian env) (drop p buf) (m_processor c) = (Ret (n, ec), pr)" and "has_error ec"
  shows "handle_read_loop env buf p c = Some (Ret (), handle_consume_error env ec (c\<lparr>m_processor := pr\<rparr>))"
  using assms by (subst handle_read_loop.simps) simp

lemma read_loop_message:
  assumes "p < length buf" and "consume (little_endian env) (drop p buf) (m_processor c) = (Ret (n, NoError), pr)"
    and "ready pr" and "get_message pr = (Ret msg, u)"
  shows "handle_read_loop env buf p c = handle_read_loop env buf (p + n) (dispatch_message env msg (c\<lparr>m_processor := u\<rparr>))"
  using assms by (subst handle_read_loop.simps) simp

lemma read_loop_more:
  assumes "p < length buf" and "consume (little_endian env) (drop p buf) (m_processor c) = (Ret (n, NoError), pr)"
    and "\<not> ready pr"
  shows "handle_read_loop env buf p c = handle_read_loop env buf (p + n) (c\<lparr>m_processor := pr\<rparr>)"
  using assms by (subst handle_read_loop.simps) simp

text \<open>
  The rounds of the loop on the bytes that are left: none, an error, bytes that do not complete a
  message, a message and what follows it.
\<close>

definition loop_inv :: "bool \<Rightarrow> 'u connection \<Rightarrow> bool" where
  "loop_inv le c \<longleftrightarrow> reading_inv le c \<and> m_con_state c \<noteq> SS_connecting"

lemma loop_inv_dispatch:
  assumes "loop_inv le c" and "stream_inv le u" and "\<not> ready u"
  shows "loop_inv le (dispatch_message env msg (c\<lparr>m_processor := u\<rparr>))"
    and "m_processor (dispatch_message env msg (c\<lparr>m_processor := u\<rparr>)) = u"
proof -
  have "con_effects (c\<lparr>m_processor := u\<rparr>) (dispatch_message env msg (c\<lparr>m_processor := u\<rparr>))"
    by (rule dispatch_message_effects) (use assms(1) in \<open>simp add: loop_inv_def\<close>)
  from fixed_fields_effects [OF this] show "m_processor (dispatch_message env msg (c\<lparr>m_processor := u\<rparr>)) = u"
    and "loop_inv le (dispatch_message env msg (c\<lparr>m_processor := u\<rparr>))"
    using assms by (auto simp: fixed_fields_def loop_inv_def reading_inv_def)
qed

lemma read_loop_induct [consumes 1, case_names finish error more message]:
  fixes c :: "'u connection"
  assumes inv: "loop_inv (little_endian env) c"
    and finish: "\<And>c. loop_inv (little_endian env) c \<Longrightarrow> P [] c"
    and error: "\<And>b c n ec pr. loop_inv (little_endian env) c \<Longrightarrow> b \<noteq> [] \<Longrightarrow>
      consume (little_endian env) b (m_processor c) = (Ret (n, ec), pr) \<Longrightarrow> has_error ec \<Longrightarrow> P b c"
    and more: "\<And>b c pr. loop_inv (little_endian env) c \<Longrightarrow> b \<noteq> [] \<Longrightarrow>
      consume (little_endian env) b (m_processor c) = (Ret (length b, NoError), pr) \<Longrightarrow> \<not> ready pr \<Longrightarrow>
      loop_inv (little_endian env) (c\<lparr>m_processor := pr\<rparr>) \<Longrightarrow> P b c"
    and message: "\<And>b c n pr m u. loop_inv (little_endian env) c \<Longrightarrow> b \<noteq> [] \<Longrightarrow>
      consume (little_endian env) b (m_processor c) = (Ret (n, NoError), pr) \<Longrightarrow> n \<le> length b \<Longrightarrow> ready pr \<Longrightarrow>
      get_message pr = (Ret (Some m), u) \<Longrightarrow>
      loop_inv (little_endian env) (dispatch_message env (Some m) (c\<lparr>m_processor := u\<rparr>)) \<Longrightarrow>
      P (drop n b) (dispatch_message env (Some m) (c\<lparr>m_processor := u\<rparr>)) \<Longrightarrow> P b c"
  shows "P b c"
  using inv
proof (induction "2 * length b + (if fresh (m_processor c) then 0 else 1)" arbitrary: b c rule: less_induct)
  case less
  let ?le = "little_endian env"
  have s: "stream_inv ?le (m_processor c)" using less.prems by (simp add: loop_inv_def reading_inv_def)
  obtain n ec pr where pr: "consume ?le b (m_processor c) = (Ret (n, ec), pr)" "n \<le> length b"
    using consume_ok s by (metis stream_inv_def)
  note split = consume_split [OF s]
  consider "b = []" | "b \<noteq> []" "has_error ec" | "b \<noteq> []" "ec = NoError" "\<not> ready pr" | "b \<noteq> []" "ec = NoError" "ready pr"
    by (auto simp: has_error_def)
  then show ?case
  proof cases
    case 3
    then have "n = length b" "stream_inv ?le pr" using split [of b n pr] pr(1) by simp_all
    then show ?thesis
      using more [OF less.prems 3(1) _ 3(3)] pr 3 less.prems by (simp add: loop_inv_def reading_inv_def)
  next
    case 4
    have "hybi13_inv pr" using split(1) [of b n pr] pr(1) 4 by (simp add: stream_inv_def)
    from get_message_stream [OF this 4(3)] obtain m u where u: "get_message pr = (Ret (Some m), u)"
      "stream_inv ?le u" "m_hstate u = HEADER_BASIC" "m_bytes_needed u = 2" by metis
    have fr: "fresh u" "\<not> ready u" using u(3,4) by (simp_all add: fresh_def ready_def)
    let ?c = "dispatch_message env (Some m) (c\<lparr>m_processor := u\<rparr>)"
    note c = loop_inv_dispatch [OF less.prems u(2) fr(2), of env "Some m"]
    have "2 * length (drop n b) + (if fresh (m_processor ?c) then 0 else 1) < 2 * length b + (if fresh (m_processor c) then 0 else 1)"
    proof (cases "fresh (m_processor c)")
      case True
      then have "0 < n" using consume_start_progress [OF s _ _ 4(1)] pr(1) 4(2) by (simp add: fresh_def)
      then show ?thesis using fr(1) c(2) True 4(1) by simp
    qed (use fr(1) c(2) pr(2) in simp)
    from less.hyps [OF this c(1)] show ?thesis
      using message [OF less.prems 4(1) _ pr(2) 4(3) u(1) c(1)] pr(1) 4(2) by simp
  qed (use finish error less.prems pr(1) in blast)+
qed

text \<open>The loop depends on the bytes from the position on only.\<close>

lemma handle_read_loop_drop:
  "loop_inv (little_endian env) c \<Longrightarrow> drop p buf = b \<Longrightarrow> p \<le> length buf \<Longrightarrow>
   handle_read_loop env buf p c = handle_read_loop env b 0 c"
proof (induction b c arbitrary: p buf rule: read_loop_induct)
  case (finish c)
  then show ?case using read_loop_end [of env buf c] read_loop_end [of env "[]" c] by simp
next
  case (error b c n ec pr)
  then have "p < length buf" by auto
  with error show ?case using read_loop_error [of p buf env c n ec pr] read_loop_error [of 0 b env c n ec pr] by simp
next
  case (more b c pr)
  then have "p + length b = length buf" "p < length buf" by auto
  with more show ?case
    using read_loop_more [of p buf env c "length b" pr] read_loop_more [of 0 b env c "length b" pr]
      read_loop_end [of env b] read_loop_end [of env buf] by simp
next
  case (message b c n pr m u)
  let ?c = "dispatch_message env (Some m) (c\<lparr>m_processor := u\<rparr>)"
  have p: "p < length buf" "drop (p + n) buf = drop n b" "p + n \<le> length buf"
    using message(2,4,9,10) by (auto simp: add.commute)
  have "handle_read_loop env buf p c = handle_read_loop env buf (p + n) ?c"
    by (rule read_loop_message) (use p(1) message(3,5,6,9) in simp_all)
  also have "\<dots> = handle_read_loop env (drop n b) 0 ?c" by (rule message(8)) (use p in simp_all)
  also have "\<dots> = handle_read_loop env b (0 + n) ?c" by (rule message(8) [symmetric]) (use message(4) in simp_all)
  also have "\<dots> = handle_read_loop env b 0 c"
    by (rule read_loop_message [symmetric]) (use message(2,3,5,6) in simp_all)
  finally show ?case .
qed

text \<open>The rounds as equations.\<close>

lemma read_loop_rounds:
  assumes "loop_inv (little_endian env) c"
  shows "handle_read_loop env [] 0 c = Some (Ret (), read_frame c)"
    and "b \<noteq> [] \<Longrightarrow> consume (little_endian env) b (m_processor c) = (Ret (n, ec), pr) \<Longrightarrow> has_error ec \<Longrightarrow>
      handle_read_loop env b 0 c = Some (Ret (), handle_consume_error env ec (c\<lparr>m_processor := pr\<rparr>))"
    and "b \<noteq> [] \<Longrightarrow> consume (little_endian env) b (m_processor c) = (Ret (length b, NoError), pr) \<Longrightarrow> \<not> ready pr \<Longrightarrow>
      handle_read_loop env b 0 c = Some (Ret (), read_frame (c\<lparr>m_processor := pr\<rparr>))"
    and "b \<noteq> [] \<Longrightarrow> consume (little_endian env) b (m_processor c) = (Ret (n, NoError), pr) \<Longrightarrow> n \<le> length b \<Longrightarrow> ready pr \<Longrightarrow>
      get_message pr = (Ret (Some m), u) \<Longrightarrow> loop_inv (little_endian env) (dispatch_message env (Some m) (c\<lparr>m_processor := u\<rparr>)) \<Longrightarrow>
      handle_read_loop env b 0 c = handle_read_loop env (drop n b) 0 (dispatch_message env (Some m) (c\<lparr>m_processor := u\<rparr>))"
  using read_loop_end [of env "[]" c] read_loop_error [of 0 b env c n ec pr]
    read_loop_more [of 0 b env c "length b" pr] read_loop_end [of env b]
    read_loop_message [of 0 b env c n pr "Some m" u]
    handle_read_loop_drop [of env "dispatch_message env (Some m) (c\<lparr>m_processor := u\<rparr>)" n b "drop n b"]
  by simp_all

lemma handle_read_loop_returns:
  assumes "loop_inv (little_endian env) c"
  shows "\<exists>c1 c'. handle_read_loop env b 0 c = Some (Ret (), c') \<and> read_effect\<^sup>*\<^sup>* c c1 \<and>
    (c' = c1 \<or> c' = read_frame c1 \<and> reading_inv (little_endian env) c1)"
  using assms
proof (induction b c rule: read_loop_induct)
  case (finish c)
  then show ?case using read_loop_rounds(1) [OF finish] by (auto simp: loop_inv_def)
next
  case (error b c n ec pr)
  have "read_effect\<^sup>*\<^sup>* (c\<lparr>m_processor := pr\<rparr>) (handle_consume_error env ec (c\<lparr>m_processor := pr\<rparr>))"
    by (rule read_effects_operations [OF handle_consume_error_effects])
  then show ?case
    using read_loop_rounds(2) [OF error(1-4)] converse_rtranclp_into_rtranclp [of read_effect, OF read_effect.processor] by blast
next
  case (more b c pr)
  then show ?case using read_loop_rounds(3) [OF more(1-4)] by (auto simp: loop_inv_def intro: read_effect.processor)
next
  case (message b c n pr m u)
  have "con_effects (c\<lparr>m_processor := u\<rparr>) (dispatch_message env (Some m) (c\<lparr>m_processor := u\<rparr>))"
    by (rule dispatch_message_effects) (use message(1) in \<open>simp add: loop_inv_def\<close>)
  then have "read_effect\<^sup>*\<^sup>* c (dispatch_message env (Some m) (c\<lparr>m_processor := u\<rparr>))"
    using converse_rtranclp_into_rtranclp [of read_effect, OF read_effect.processor read_effects_operations] by blast
  then show ?case using read_loop_rounds(4) [OF message(1-7)] message(8) by (auto intro: rtranclp_trans)
qed

subsection \<open>Every reachable state satisfies the invariants\<close>

definition con_inv :: "bool \<Rightarrow> 'u connection \<Rightarrow> bool" where
  "con_inv le c \<longleftrightarrow> base_inv c \<and> read_inv le c"

lemma read_inv_effects:
  "con_effects c c' \<Longrightarrow> read_inv le c \<Longrightarrow> read_inv le c'"
  using fixed_fields_effects [of c c'] by (auto simp: read_inv_def reading_inv_def fixed_fields_def)

lemma con_inv_effects: "con_effects c c' \<Longrightarrow> con_inv le c \<Longrightarrow> con_inv le c'"
  by (simp add: con_inv_def base_inv_effects read_inv_effects)

text \<open>The messages one write takes from the queue.\<close>

fun until_terminal :: "ws_message list \<Rightarrow> ws_message list \<times> ws_message list" where
  "until_terminal [] = ([], [])"
| "until_terminal (m # q) =
     (if m_terminal m then ([m], q) else (m # fst (until_terminal q), snd (until_terminal q)))"

lemma until_terminal_append: "fst (until_terminal q) @ snd (until_terminal q) = q"
  by (induction q) simp_all

lemma until_terminal_butlast: "\<forall>m\<in>set (butlast (fst (until_terminal q))). \<not> m_terminal m"
  by (induction q) auto

lemma until_terminal_Nil [simp]: "fst (until_terminal q) = [] \<longleftrightarrow> q = []"
  by (cases q) simp_all

lemma queued_bytes_simps: "queued_bytes [] = 0" "queued_bytes (m # q) = of_nat (length (m_payload m)) + queued_bytes q"
  by (simp_all add: queued_bytes_def)

lemma queued_bytes_diff: "queued_bytes q - queued_bytes (fst (until_terminal q)) = queued_bytes (snd (until_terminal q))"
  by (induction q) (auto simp: queued_bytes_simps)

lemma pop_messages_eq:
  "pop_messages c = c\<lparr>m_send_buffer_size := m_send_buffer_size c - queued_bytes (fst (until_terminal (m_send_queue c))),
     m_send_queue := snd (until_terminal (m_send_queue c)),
     m_current_msgs := m_current_msgs c @ fst (until_terminal (m_send_queue c))\<rparr>"
proof (induction "m_send_queue c" arbitrary: c)
  case Nil
  then show ?case
    by (subst pop_messages.simps) (simp add: write_pop_def queued_bytes_simps)
next
  case (Cons m q)
  let ?c = "c\<lparr>m_send_buffer_size := m_send_buffer_size c - of_nat (length (m_payload m)), m_send_queue := q,
     m_current_msgs := m_current_msgs c @ [m]\<rparr>"
  show ?case
    using Cons(1) [of ?c] Cons(2) [symmetric]
    by (subst pop_messages.simps) (simp add: write_pop_def queued_bytes_simps diff_diff_eq)
qed

lemma write_frame_cases:
  "write_frame c =
     (if m_write_flag c then c
      else if m_current_msgs c = [] \<and> m_send_queue c = [] then c
      else c\<lparr>m_send_buffer_size := m_send_buffer_size c - queued_bytes (fst (until_terminal (m_send_queue c))),
        m_send_queue := snd (until_terminal (m_send_queue c)),
        m_current_msgs := m_current_msgs c @ fst (until_terminal (m_send_queue c)), m_write_flag := True,
        written := written c @ m_current_msgs c @ fst (until_terminal (m_send_queue c)),
        writes_pending := Suc (writes_pending c)\<rparr>)"
  by (simp add: write_frame_def pop_messages_eq Let_def queued_bytes_simps)

lemma base_inv_write_frame:
  assumes "base_inv c"
  shows "base_inv (write_frame (c\<lparr>posted := ts\<rparr>))"
proof (cases "m_write_flag c \<or> m_send_queue c = []")
  case True
  have "order_inv (c\<lparr>posted := ts\<rparr>)" using assms order_inv_keep [of c "c\<lparr>posted := ts\<rparr>"] by (simp add: base_invs)
  then show ?thesis using True assms by (auto simp: write_frame_cases base_invs)
next
  case False
  then have cur: "m_current_msgs c = []" using assms by (auto simp: base_invs)
  have app: "fst (until_terminal (m_send_queue c)) @ snd (until_terminal (m_send_queue c)) = m_send_queue c"
    by (rule until_terminal_append)
  let ?c = "write_frame (c\<lparr>posted := ts\<rparr>)"
  have "order_inv ?c"
    using assms order_inv_keep [of c ?c] False cur app by (simp add: base_invs write_frame_cases)
  then show ?thesis
    using assms False cur queued_bytes_diff [of "m_send_queue c"] until_terminal_butlast [of "m_send_queue c"]
    by (simp add: base_invs write_frame_cases)
qed

lemma write_frame_sel [simp]:
  "m_processor (write_frame c) = m_processor c" "reads_pending (write_frame c) = reads_pending c"
  "m_read_flag (write_frame c) = m_read_flag c" "m_internal_state (write_frame c) = m_internal_state c"
  "m_con_state (write_frame c) = m_con_state c"
  by (simp_all add: write_frame_cases)

lemma con_inv_posted:
  assumes "con_inv le c" and "posted c = t # ts"
  shows "con_inv le (run_posted env t (c\<lparr>posted := ts\<rparr>))"
proof (cases t)
  case PostedWriteFrame
  have "read_inv le (write_frame (c\<lparr>posted := ts\<rparr>))"
    using assms(1) by (simp add: con_inv_def read_inv_def reading_inv_def)
  then show ?thesis using PostedWriteFrame assms(1) by (simp add: con_inv_def base_inv_write_frame)
next
  case PostedInterrupt
  let ?c = "c\<lparr>posted := ts\<rparr>"
  have "order_inv ?c" using assms order_inv_keep [of c ?c] by (simp add: base_invs con_inv_def)
  then have "con_inv le ?c"
    using assms PostedInterrupt by (auto simp: con_inv_def base_invs read_inv_def reading_inv_def)
  then show ?thesis
    using PostedInterrupt con_inv_effects [OF call_handler_effects [of InterruptHandler ?c env]]
    by (simp add: handle_interrupt_def)
qed

text \<open>A completed write finds its messages.\<close>

lemma con_inv_write_done:
  assumes "con_inv le c" and "writes_pending c = Suc n"
  shows "\<exists>c'. handle_write_frame ec (c\<lparr>writes_pending := n\<rparr>) = (Ret (), c') \<and> con_inv le c'"
proof -
  have cur: "m_current_msgs c \<noteq> []" "n = 0" using assms by (auto simp: con_inv_def base_invs split: if_splits)
  let ?c = "c\<lparr>writes_pending := n, m_current_msgs := []\<rparr>"
  obtain c' where c': "handle_write_frame ec (c\<lparr>writes_pending := n\<rparr>) = (Ret (), c')" using cur by (simp add: handle_write_frame_def Let_def)
  have order: "order_inv c" using assms(1) by (simp add: con_inv_def base_inv_def)
  have closed: "con_inv le (terminate e ?c)" for e
    using assms cur order_inv_keep [OF order, of "terminate e ?c"] terminate_shutdowns [of ?c e]
    by (cases "m_con_state c = SS_closed") (auto simp: con_inv_def base_invs read_inv_def reading_inv_def)
  let ?c1 = "?c\<lparr>m_write_flag := False\<rparr>"
  let ?c2 = "if m_send_queue c \<noteq> [] then ?c1\<lparr>posted := posted c @ [PostedWriteFrame]\<rparr> else ?c1"
  have "con_inv le ?c2"
    using assms cur order_inv_keep [OF order, of ?c2] by (auto simp: con_inv_def base_invs read_inv_def reading_inv_def)
  then show ?thesis
    using closed cur by (cases "m_send_queue c = []") (simp_all add: handle_write_frame_def Let_def)
qed

lemma read_frame_inv:
  assumes "base_inv c" and "m_read_flag c" and "reads_pending c = 0" and "reading_inv le c" and "m_con_state c \<noteq> SS_connecting"
  shows "con_inv le (read_frame c)"
proof -
  have "order_inv (read_frame c)"
    using assms(1,2) order_inv_keep [of c "read_frame c"] by (simp add: base_invs read_frame_def)
  then show ?thesis using assms by (auto simp: con_inv_def base_invs read_inv_def reading_inv_def read_frame_def)
qed

lemma handle_read_frame_returns:
  assumes "base_inv c" and "m_read_flag c" and "reads_pending c = 0" and "reading_inv (little_endian env) c"
    and "m_con_state c \<noteq> SS_connecting"
  shows "\<exists>c'. handle_read_frame env ec buf c = Some (Ret (), c') \<and> con_inv (little_endian env) c'"
proof -
  have inv: "con_inv (little_endian env) c" using assms by (auto simp: con_inv_def read_inv_def)
  note tinv = con_inv_effects [OF terminate_effects inv]
  obtain c1 c' where c': "handle_read_loop env buf 0 c = Some (Ret (), c')" "read_effect\<^sup>*\<^sup>* c c1"
    "c' = c1 \<or> c' = read_frame c1 \<and> reading_inv (little_endian env) c1"
    using handle_read_loop_returns [of env c buf] assms(4,5) by (auto simp: loop_inv_def)
  have c1: "base_inv c1" "m_read_flag c1" "reads_pending c1 = 0" "m_con_state c1 \<noteq> SS_connecting"
    using base_inv_read [OF c'(2) assms(1)] read_effects_fixed [OF c'(2)] assms by (auto simp: fixed_fields_def)
  then have "con_inv (little_endian env) c1" by (simp add: con_inv_def read_inv_def)
  with c' c1 have "con_inv (little_endian env) c'" using read_frame_inv by blast
  then show ?thesis using c'(1) tinv inv by (simp add: handle_read_frame_def Let_def)
qed

lemma connection_opened_returns:
  assumes "con_inv (little_endian env) c" and "m_con_state c = SS_connecting"
  shows "\<exists>c'. connection_opened env rest c = Some (Ret (), c') \<and> con_inv (little_endian env) c'"
proof -
  let ?le = "little_endian env"
  let ?c1 = "c\<lparr>m_internal_state := PROCESS_CONNECTION, m_con_state := SS_open\<rparr>"
  let ?c2 = "call_handler env (m_open_handler env) OpenHandler ?c1"
  have "order_inv ?c1"
    using assms order_inv_keep [of c ?c1] by (simp add: con_inv_def base_invs)
  then have c1: "base_inv ?c1" using assms by (auto simp: con_inv_def base_invs)
  have r: "reads_pending c = 0" "reading_inv ?le c" "m_read_flag c"
    using assms by (simp_all add: con_inv_def read_inv_def)
  have eff: "con_effects ?c1 ?c2" by (rule call_handler_effects) simp
  note fx = fixed_fields_effects [OF eff]
  have "\<exists>c'. handle_read_frame env NoError rest ?c2 = Some (Ret (), c') \<and> con_inv ?le c'"
    by (rule handle_read_frame_returns)
      (use base_inv_effects [OF eff c1] fx r in \<open>auto simp: fixed_fields_def reading_inv_def\<close>)
  then show ?thesis by (simp add: connection_opened_def Let_def)
qed

lemma con_inv_read_done:
  assumes "con_inv (little_endian env) c" and "reads_pending c = Suc n"
  shows "\<exists>c'. handle_read_frame env ec buf (c\<lparr>reads_pending := n\<rparr>) = Some (Ret (), c') \<and> con_inv (little_endian env) c'"
proof (rule handle_read_frame_returns)
  let ?c = "c\<lparr>reads_pending := n\<rparr>"
  have r: "n = 0" "reading_inv (little_endian env) c" "m_read_flag c" "m_con_state c \<noteq> SS_connecting"
    using assms by (auto simp: con_inv_def read_inv_def)
  then show "m_read_flag ?c" "reads_pending ?c = 0" "reading_inv (little_endian env) ?c" "m_con_state ?c \<noteq> SS_connecting"
    by (simp_all add: reading_inv_def)
  have "order_inv ?c" using assms order_inv_keep [of c ?c] by (simp add: con_inv_def base_invs)
  then show "base_inv ?c" using assms by (auto simp: con_inv_def base_invs)
qed

lemma con_inv_end_handler:
  assumes "con_inv le c" and "length (filter is_end (handler_calls c)) + length (shutdowns_pending c) < length (shutdowns c)"
  shows "con_inv le (log_handler e c)"
proof -
  have "order_inv (log_handler e c)"
    using assms(1) order_inv_keep [of c "log_handler e c"] by (simp add: con_inv_def base_invs log_handler_def)
  moreover have "length (filter is_end (handler_calls (log_handler e c))) + length (shutdowns_pending c) \<le> length (shutdowns c)"
    using assms(2) by (simp add: log_handler_def)
  ultimately show ?thesis
    using assms(1) by (simp add: con_inv_def base_inv_def buffer_inv_def wakeup_inv_def write_inv_def end_inv_def
      read_inv_def reading_inv_def log_handler_def)
qed

lemma con_inv_termination: "con_inv le d \<Longrightarrow> con_inv le (log_handler TerminationHandler d)"
  by (erule con_inv_effects [OF con_effectsI [OF con_effect.handler], rotated]) simp

lemma con_inv_shutdown_done:
  assumes "con_inv le c" and "shutdowns_pending c = st # sts"
  shows "con_inv le (handle_terminate env st ec (c\<lparr>shutdowns_pending := sts\<rparr>))"
proof -
  let ?c = "c\<lparr>shutdowns_pending := sts\<rparr>"
  have "order_inv ?c" using assms order_inv_keep [of c ?c] by (simp add: con_inv_def base_invs)
  then have inv: "con_inv le ?c" and strict: "length (filter is_end (handler_calls ?c)) + length (shutdowns_pending ?c) < length (shutdowns ?c)"
    using assms by (auto simp: con_inv_def base_invs read_inv_def reading_inv_def)
  have called: "con_inv le (call_handler env h e ?c)" for h e
  proof (cases h)
    case (Some f)
    then show ?thesis using con_inv_effects [OF call_handler_rest con_inv_end_handler [OF inv strict]] by blast
  qed (simp add: call_handler_def inv)
  show ?thesis
    using inv called by (cases st) (simp_all add: handle_terminate_def Let_def con_inv_termination)
qed

lemma con_inv_init: "con_inv le (connection_init server u)"
  using stream_inv_init [of le server max_message_size]
  by (simp add: con_inv_def base_invs order_inv_def read_inv_def reading_inv_def connection_init_def queued_bytes_def
    ready_def hybi13_init_def)

lemma con_inv_step: "con_step env c c' \<Longrightarrow> con_inv (little_endian env) c \<Longrightarrow> con_inv (little_endian env) c'"
proof (induction rule: con_step.induct)
  case (opened c rest c')
  then show ?case using connection_opened_returns [of env c rest] by auto
next
  case (handshake_failed c ec)
  then show ?case using con_inv_effects [OF terminate_effects] by blast
next
  case (handshake_timeout c ec)
  then show ?case using con_inv_effects [OF terminate_effects [of c]] by (simp add: handle_open_handshake_timeout_def)
next
  case (api c call)
  then show ?case using con_inv_effects [OF con_effectsI [OF api_call_effect]] by blast
next
  case (post c t ts)
  then show ?case using con_inv_posted by blast
next
  case (write_done c n ec c')
  then show ?case using con_inv_write_done [of "little_endian env" c n ec] by auto
next
  case (read_done c n ec buf c')
  then show ?case using con_inv_read_done [of env c n ec buf] by auto
next
  case (shutdown_done c st sts ec)
  then show ?case using con_inv_shutdown_done by blast
next
  case (close_timeout c ec)
  then show ?case using con_inv_effects [OF terminate_effects [of c]] by (simp add: handle_close_handshake_timeout_def)
next
  case (pong_timeout c payload ec)
  then show ?case
    using con_inv_effects [OF call_handler_effects [of "PongTimeoutHandler payload" c]] by (simp add: handle_pong_timeout_def)
qed

interpretation connection: invariant connection_start "con_step env" "con_inv (little_endian env)"
  for env :: "'u environment"
  by unfold_locales (auto simp: connection_start_def con_inv_init intro: con_inv_step)

lemma con_inv_reachable: "con_reachable env c \<Longrightarrow> con_inv (little_endian env) c"
  by (rule connection.reachable_inv)

end
