(* ===== verification/Ws_Connection_Runs.thy ===== *)
theory Ws_Connection_Runs
  imports Ws_Connection_States
begin

text \<open>
  What the runs of a connection have in common: messages leave in the order in which they were
  queued, and a transport that completes its writes and runs what is posted writes all of them, in
  whatever order it does so. \<open>send\<close>, whose check of the state and whose queueing are under
  different locks, is the exception to the order of data and close frames.
\<close>

subsection \<open>Nothing that is queued is lost or overtaken\<close>

definition extends :: "'u connection \<Rightarrow> 'u connection \<Rightarrow> bool" where
  "extends c c' \<longleftrightarrow> (\<exists>ms. outgoing c' = outgoing c @ ms) \<and> (\<exists>ws. written c' = written c @ ws)"

lemma extends_refl [simp, intro]: "extends c c"
  by (simp add: extends_def)

lemma extends_trans [trans]: "extends c d \<Longrightarrow> extends d e \<Longrightarrow> extends c e"
  by (auto simp: extends_def)

lemma extends_same:
  "written c' = written c \<Longrightarrow> m_send_queue c' = m_send_queue c \<Longrightarrow> extends c c'"
  by (simp add: extends_def outgoing_def)

lemma extends_effect: "con_effect c c' \<Longrightarrow> extends c c'"
  by (induction rule: con_effect.induct) (auto simp: extends_def outgoing_def side_fields_sel log_handler_def)

lemma extends_effects: "con_effects c c' \<Longrightarrow> extends c c'"
  by (induction rule: rtranclp_induct) (auto intro: extends_trans extends_effect)

lemma extends_read: "read_effect\<^sup>*\<^sup>* c c' \<Longrightarrow> extends c c'"
proof (induction rule: rtranclp_induct)
  case (step d e)
  have "extends d e" using step(2) by cases (auto intro: extends_effect extends_same)
  with step(3) show ?case by (rule extends_trans)
qed simp

lemma extends_update:
  "extends (c\<lparr>reads_pending := n\<rparr>) c' = extends c c'" "extends (c\<lparr>writes_pending := n\<rparr>) c' = extends c c'"
  "extends (c\<lparr>posted := ts\<rparr>) c' = extends c c'" "extends (c\<lparr>shutdowns_pending := sts\<rparr>) c' = extends c c'"
  by (simp_all add: extends_def outgoing_def)

lemma extends_handle_read_frame:
  assumes "m_con_state c \<noteq> SS_connecting" and "reading_inv (little_endian env) c"
    and "handle_read_frame env ec buf c = Some (r, c')"
  shows "extends c c'"
proof -
  obtain c1 d where d: "handle_read_loop env buf 0 c = Some (Ret (), d)" "read_effect\<^sup>*\<^sup>* c c1" "d = c1 \<or> d = read_frame c1"
    using handle_read_loop_returns [of env c buf] assms(1,2) by (auto simp: loop_inv_def)
  have "extends c1 (read_frame c1)" by (rule extends_same) (simp_all add: read_frame_def)
  then have "extends c d" using extends_read [OF d(2)] d(3) extends_trans by blast
  moreover have "extends c (terminate e c)" for e by (rule extends_effects [OF terminate_effects])
  ultimately show ?thesis using assms(3) d(1) by (auto simp: handle_read_frame_def Let_def split: if_splits)
qed

lemma extends_write_frame: "m_write_flag c \<or> m_current_msgs c = [] \<Longrightarrow> extends c (write_frame c)"
  by (auto simp: extends_def outgoing_def write_frame_cases until_terminal_append)

lemma extends_write_done:
  assumes "handle_write_frame ec c = (Ret (), c')"
  shows "extends c c'"
proof -
  have "extends c c'" if "c' = terminate e (c\<lparr>m_current_msgs := []\<rparr>)" for e
    using that by (simp add: extends_same)
  then show ?thesis
    using assms by (auto simp: handle_write_frame_def Let_def intro: extends_same split: if_splits)
qed

lemma extends_call_handler: "extends c (call_handler env h e c)"
proof (cases h)
  case (Some f)
  have "extends c (log_handler e c)" by (rule extends_same) (simp_all add: log_handler_def)
  then show ?thesis using Some extends_effects [OF call_handler_rest] extends_trans by blast
qed (simp add: call_handler_def)

lemma extends_handle_terminate: "extends c (handle_terminate env st ec c)"
proof -
  have "extends d (log_handler TerminationHandler d)" for d :: "'a connection"
    by (rule extends_same) (simp_all add: log_handler_def)
  then have "extends c (log_handler TerminationHandler d)" if "extends c d" for d
    using that extends_trans by blast
  then show ?thesis by (cases st) (simp_all add: handle_terminate_def Let_def extends_call_handler)
qed

lemma extends_step:
  "con_step env c c' \<Longrightarrow> con_inv (little_endian env) c \<Longrightarrow> extends c c'"
proof (induction rule: con_step.induct)
  case (opened c rest c')
  let ?c1 = "c\<lparr>m_internal_state := PROCESS_CONNECTION, m_con_state := SS_open\<rparr>"
  let ?c2 = "call_handler env (m_open_handler env) OpenHandler ?c1"
  have eff: "con_effects ?c1 ?c2" by (rule call_handler_effects) simp
  note fx = fixed_fields_effects [OF eff]
  have "extends c ?c1" by (rule extends_same) simp_all
  also have "extends ?c1 ?c2" by (rule extends_call_handler)
  also have "extends ?c2 c'"
    using opened fx by (intro extends_handle_read_frame [of _ env NoError rest])
      (auto simp: connection_opened_def Let_def con_inv_def read_inv_def reading_inv_def fixed_fields_def)
  finally show ?case .
next
  case (post c t ts)
  have "m_write_flag c \<or> m_current_msgs c = []" using post(2) by (auto simp: con_inv_def base_invs)
  then have "extends c (run_posted env t (c\<lparr>posted := ts\<rparr>))"
    using extends_write_frame [of "c\<lparr>posted := ts\<rparr>"] extends_call_handler [of "c\<lparr>posted := ts\<rparr>"]
    by (cases t) (simp_all add: extends_update handle_interrupt_def)
  then show ?case .
next
  case (write_done c n ec c')
  then show ?case using extends_write_done [of ec "c\<lparr>writes_pending := n\<rparr>" c'] by (simp add: extends_update)
next
  case (read_done c n ec buf c')
  then have "m_con_state (c\<lparr>reads_pending := n\<rparr>) \<noteq> SS_connecting" "reading_inv (little_endian env) (c\<lparr>reads_pending := n\<rparr>)"
    by (auto simp: con_inv_def read_inv_def reading_inv_def)
  from extends_handle_read_frame [OF this read_done(2)] show ?case by (simp add: extends_update)
next
  case (shutdown_done c st sts ec)
  show ?case using extends_handle_terminate [of "c\<lparr>shutdowns_pending := sts\<rparr>"] by (simp add: extends_update)
qed (auto simp: handle_open_handshake_timeout_def handle_close_handshake_timeout_def handle_pong_timeout_def
    intro: extends_call_handler extends_effects [OF terminate_effects] extends_effects [OF con_effectsI [OF api_call_effect]])

lemma extends_steps:
  assumes "con_reachable env c" and "(con_step env)\<^sup>*\<^sup>* c c'"
  shows "extends c c' \<and> con_reachable env c'"
  using assms(2)
proof (induction rule: rtranclp_induct)
  case (step d e)
  then have "extends d e" using extends_step con_inv_reachable by blast
  with step show ?case by (auto intro: extends_trans reachable_step)
qed (simp add: assms(1))

subsection \<open>Everything queued is written\<close>

text \<open>What a transport that works does by itself: writes succeed and posted functions run.\<close>

inductive transport_step :: "'u environment \<Rightarrow> 'u connection \<Rightarrow> 'u connection \<Rightarrow> bool" for env where
  write_succeeds: "writes_pending c = Suc n \<Longrightarrow>
    handle_write_frame NoError (c\<lparr>writes_pending := n\<rparr>) = (Ret (), c') \<Longrightarrow> transport_step env c c'"
| task_runs: "posted c = t # ts \<Longrightarrow> transport_step env c (run_posted env t (c\<lparr>posted := ts\<rparr>))"

inductive_cases transport_stepE: "transport_step env c c'"

lemma transport_con_step: "transport_step env c c' \<Longrightarrow> con_step env c c'"
  by (induction rule: transport_step.induct) (auto intro: con_step.intros)

definition transport_work :: "'u connection \<Rightarrow> nat" where
  "transport_work c = 3 * length (m_send_queue c) + 2 * writes_pending c + length (posted c)"

text \<open>
  Messages that are queued or being written. One that is marked terminal ends the connection when
  it has been written.
\<close>

definition in_transit :: "'u connection \<Rightarrow> ws_message list" where
  "in_transit c = m_current_msgs c @ m_send_queue c"

definition end_in_transit :: "'u connection \<Rightarrow> bool" where
  "end_in_transit c \<longleftrightarrow> (\<exists>m\<in>set (in_transit c). m_terminal m)"

text \<open>A step goes on with what is in transit or ends the connection.\<close>

definition transport_ok :: "'u connection \<Rightarrow> 'u connection \<Rightarrow> bool" where
  "transport_ok c c' \<longleftrightarrow> PostedInterrupt \<notin> set (posted c') \<and> outgoing c' = outgoing c \<and>
     (if m_con_state c' = SS_closed then m_con_state c = SS_closed \<or> end_in_transit c
      else m_con_state c \<noteq> SS_closed \<and> end_in_transit c' = end_in_transit c)"

lemma transport_ok_trans: "transport_ok c d \<Longrightarrow> transport_ok d e \<Longrightarrow> transport_ok c e"
  by (auto simp: transport_ok_def split: if_splits)

lemma end_in_current:
  "write_inv c \<Longrightarrow> m_current_msgs c \<noteq> [] \<Longrightarrow> (\<exists>m\<in>set (m_current_msgs c). m_terminal m) = m_terminal (last (m_current_msgs c))"
  by (cases "m_current_msgs c" rule: rev_cases) (auto simp: write_inv_def)

lemma transport_write:
  assumes "con_inv le c" and "PostedInterrupt \<notin> set (posted c)" and "writes_pending c = Suc n"
    and "handle_write_frame NoError (c\<lparr>writes_pending := n\<rparr>) = (Ret (), c')"
  shows "transport_ok c c' \<and> transport_work c' < transport_work c"
proof -
  have ne: "m_current_msgs c \<noteq> []" using assms(4) by (auto simp: handle_write_frame_def)
  have "end_in_transit c = (m_terminal (last (m_current_msgs c)) \<or> (\<exists>m\<in>set (m_send_queue c). m_terminal m))"
    using end_in_current [OF _ ne] assms(1) by (auto simp: end_in_transit_def in_transit_def con_inv_def base_inv_def)
  then show ?thesis
    using assms(2-4) ne by (auto simp: handle_write_frame_def Let_def transport_ok_def in_transit_def end_in_transit_def
      outgoing_def transport_work_def has_error_def split: if_splits)
qed

lemma transport_task:
  assumes "con_inv le c" and "PostedInterrupt \<notin> set (posted c)" and "posted c = t # ts"
    and c': "c' = run_posted env t (c\<lparr>posted := ts\<rparr>)"
  shows "transport_ok c c' \<and> transport_work c' < transport_work c"
proof -
  have t: "t = PostedWriteFrame" "PostedInterrupt \<notin> set ts" using assms(2,3) by (cases t; auto)+
  let ?q = "m_send_queue c" let ?u = "until_terminal ?q"
  have app: "fst ?u @ snd ?u = ?q" by (rule until_terminal_append)
  then have set: "set (fst ?u) \<union> set (snd ?u) = set ?q" by (metis set_append)
  have len: "?q = [] \<or> length (snd ?u) < length ?q"
  proof (cases "?q = []")
    case False
    then have "0 < length (fst ?u)" by simp
    moreover have "length (fst ?u) + length (snd ?u) = length ?q" using arg_cong [OF app, of length] by simp
    ultimately show ?thesis by linarith
  qed simp
  have cur: "m_write_flag c \<or> m_current_msgs c = []" using assms(1) by (auto simp: con_inv_def base_invs)
  have "m_con_state c' = m_con_state c" "PostedInterrupt \<notin> set (posted c')" using c' t by (simp_all add: write_frame_cases)
  moreover have "outgoing c' = outgoing c" "set (in_transit c') = set (in_transit c)"
    using c' t cur app set by (auto simp: write_frame_cases outgoing_def in_transit_def)
  moreover have "transport_work c' < transport_work c"
    using c' t cur len assms(3) by (auto simp: write_frame_cases transport_work_def)
  ultimately show ?thesis by (simp add: transport_ok_def end_in_transit_def)
qed

lemma transport_step_progress:
  assumes "transport_step env c c'" and "con_inv le c" and "PostedInterrupt \<notin> set (posted c)"
  shows "transport_ok c c' \<and> transport_work c' < transport_work c"
  using assms transport_write [of le c] transport_task [of le c] by (elim transport_stepE) blast+

lemma transport_stuck:
  assumes "con_inv le c" and "\<nexists>d. transport_step env c d"
  shows "writes_pending c = 0 \<and> (m_con_state c \<noteq> SS_closed \<longrightarrow> in_transit c = [] \<and> written c = outgoing c)"
proof -
  have "posted c = []" using assms(2) task_runs by (cases "posted c") blast+
  moreover have w: "writes_pending c = 0"
    using assms(2) con_inv_write_done [OF assms(1)] write_succeeds by (cases "writes_pending c") blast+
  ultimately show ?thesis using assms(1) by (auto simp: con_inv_def base_invs in_transit_def split: if_splits)
qed

lemma transport_run:
  assumes "(transport_step env ^^ n) c c'" and "con_reachable env c" and "PostedInterrupt \<notin> set (posted c)"
  shows "transport_ok c c' \<and> transport_work c' + n \<le> transport_work c \<and> con_reachable env c'"
  using assms(1)
proof (induction n arbitrary: c')
  case 0
  then show ?case using assms(2,3) by (simp add: transport_ok_def)
next
  case (Suc n)
  then obtain d where d: "(transport_step env ^^ n) c d" "transport_step env d c'" by auto
  note ih = Suc.IH [OF d(1)]
  then have "transport_ok d c' \<and> transport_work c' < transport_work d"
    using transport_step_progress [OF d(2) con_inv_reachable] by (auto simp: transport_ok_def)
  with ih transport_con_step [OF d(2)] show ?case by (auto intro: reachable_step transport_ok_trans)
qed

lemma transport_run_ends:
  assumes "con_reachable env c" and "PostedInterrupt \<notin> set (posted c)"
  shows "\<exists>n c'. (transport_step env ^^ n) c c' \<and> (\<nexists>d. transport_step env c' d)"
  using assms
proof (induction "transport_work c" arbitrary: c rule: less_induct)
  case less
  show ?case
  proof (cases "\<exists>d. transport_step env c d")
    case True
    then obtain d where d: "transport_step env c d" by blast
    have "transport_work d < transport_work c" "PostedInterrupt \<notin> set (posted d)"
      using transport_step_progress [OF d con_inv_reachable [OF less.prems(1)] less.prems(2)] by (simp_all add: transport_ok_def)
    moreover have "con_reachable env d" using less.prems(1) transport_con_step [OF d] by (rule reachable_step)
    ultimately obtain n c' where "(transport_step env ^^ n) d c'" "\<nexists>e. transport_step env c' e"
      using less.hyps by blast
    with d show ?thesis by (meson relpowp_Suc_I2)
  qed (auto intro: exI [of _ 0])
qed

text \<open>
  Every maximal run of the transport ends, after a bounded number of steps: either everything
  has been written, or a terminal message was among it and the connection is closed.
\<close>

lemma everything_written:
  assumes "con_reachable env c" and "PostedInterrupt \<notin> set (posted c)" and "m_con_state c \<noteq> SS_closed"
  shows "(\<exists>n c'. (transport_step env ^^ n) c c' \<and> (\<nexists>d. transport_step env c' d)) \<and>
    ((transport_step env ^^ n) c c' \<longrightarrow> n \<le> transport_work c \<and>
      ((\<nexists>d. transport_step env c' d) \<longrightarrow> writes_pending c' = 0 \<and>
        (if end_in_transit c then m_con_state c' = SS_closed else m_send_queue c' = [] \<and> written c' = outgoing c)))"
proof -
  have stuck: "writes_pending d = 0 \<and> (m_con_state d \<noteq> SS_closed \<longrightarrow> in_transit d = [] \<and> written d = outgoing d)"
    if "con_reachable env d" "\<nexists>e. transport_step env d e" for d
    using transport_stuck [OF con_inv_reachable [OF that(1)] that(2)] .
  have "n \<le> transport_work c \<and>
      ((\<nexists>d. transport_step env c' d) \<longrightarrow> writes_pending c' = 0 \<and>
        (if end_in_transit c then m_con_state c' = SS_closed else m_send_queue c' = [] \<and> written c' = outgoing c))"
    if "(transport_step env ^^ n) c c'"
  proof -
    note run = transport_run [OF that assms(1,2)]
    have ends: "m_con_state c' \<noteq> SS_closed \<Longrightarrow> end_in_transit c' = end_in_transit c"
      "m_con_state c' = SS_closed \<Longrightarrow> end_in_transit c" "outgoing c' = outgoing c"
      using run assms(3) by (auto simp: transport_ok_def split: if_splits)
    have "in_transit c' = [] \<Longrightarrow> \<not> end_in_transit c' \<and> m_send_queue c' = []"
      by (simp add: end_in_transit_def in_transit_def)
    then show ?thesis using run ends stuck [of c'] by (cases "m_con_state c' = SS_closed") auto
  qed
  then show ?thesis using transport_run_ends [OF assms(1,2)] by blast
qed

end
