(* ===== verification/Ws_Stream_Errors.thy ===== *)
theory Ws_Stream_Errors
  imports Ws_Stream
begin

text \<open>
  A protocol error is reported wherever the buffers are cut: reading in parts reports the error
  that reading at once reports. Only the state that the processor is left in, which is not used
  any more, may differ.
\<close>

definition breaks :: "error_code \<Rightarrow> consume_step outcome \<times> hybi13 \<Rightarrow> bool" where
  "breaks ec r \<longleftrightarrow> (\<exists>p t. r = (Ret (Break p ec), t)) \<and> has_error ec"

definition fails :: "error_code \<Rightarrow> (nat \<times> error_code) outcome \<times> hybi13 \<Rightarrow> bool" where
  "fails ec r \<longleftrightarrow> (\<exists>n t. r = (Ret (n, ec), t)) \<and> has_error ec"

lemma breaksI: "r = (Ret (Break p ec), t) \<Longrightarrow> has_error ec \<Longrightarrow> breaks ec r"
  by (simp add: breaks_def)

lemma failsI: "r = (Ret (n, ec), t) \<Longrightarrow> has_error ec \<Longrightarrow> fails ec r"
  by (simp add: fails_def)

lemma breaks_shift: "breaks ec (apfst (shift_outcome n) r) \<longleftrightarrow> breaks ec r"
  by (cases r; cases "fst r"; cases "case fst r of Ret a \<Rightarrow> a | _ \<Rightarrow> Continue 0") (auto simp: breaks_def)

subsection \<open>Payload\<close>

lemma process_payload_returns:
  assumes cur: "m_current_msg s \<noteq> NoMsg" "msg_ptr (current_metadata s) \<noteq> None"
  obtains n e t where "process_payload_bytes le buf s = (Ret (n, e), t)"
proof -
  obtain m where m: "msg_ptr (current_metadata s) = Some m" using cur(2) by blast
  obtain b pk where b: "unmask le (m_basic_header s) (prepared_key (current_metadata s)) buf = (b, pk)" by fastforce
  obtain ok v where c: "check_text m b (md_validator (current_metadata s)) = (ok, v)" by fastforce
  show thesis using that process_payload_eq [OF cur(1) m b c] by (cases ok) auto
qed

lemma process_payload_fails:
  assumes cur: "m_current_msg s \<noteq> NoMsg" "msg_ptr (current_metadata s) = Some m"
    and u: "unmask le (m_basic_header s) (prepared_key (current_metadata s)) buf = (b, pk)"
  shows "fails ec (process_payload_bytes le buf s) \<longleftrightarrow>
    ec = ProcessorError PE_invalid_utf8 \<and> \<not> fst (check_text m b (md_validator (current_metadata s)))"
proof -
  obtain ok v where c: "check_text m b (md_validator (current_metadata s)) = (ok, v)" by fastforce
  show ?thesis using process_payload_eq [OF cur u c] c by (auto simp: fails_def)
qed

lemma check_text_fails_append:
  "\<not> fst (check_text m xs v) \<Longrightarrow> \<not> fst (check_text m (xs @ ys) v)"
  "check_text m xs v = (True, v1) \<Longrightarrow> m_opcode m' = m_opcode m \<Longrightarrow> \<not> fst (check_text m' ys v1) \<Longrightarrow>
   \<not> fst (check_text m (xs @ ys) v)"
  by (auto simp: check_text_def utf8_decode_range_append split: if_splits prod.splits bool.splits)

lemma process_payload_fails_first:
  assumes cur: "m_current_msg s \<noteq> NoMsg" "msg_ptr (current_metadata s) \<noteq> None"
    and per: "key_periodic le (prepared_key (current_metadata s))"
    and fails: "fails ec (process_payload_bytes le xs s)"
  shows "fails ec (process_payload_bytes le (xs @ ys) s)"
proof -
  obtain m where m: "msg_ptr (current_metadata s) = Some m" using cur(2) by blast
  obtain b1 pk1 where u1: "unmask le (m_basic_header s) (prepared_key (current_metadata s)) xs = (b1, pk1)" by fastforce
  obtain b2 pk2 where u2: "unmask le (m_basic_header s) pk1 ys = (b2, pk2)" by fastforce
  show ?thesis
    using fails check_text_fails_append(1) [of m b1 _ b2]
    by (simp add: process_payload_fails [OF cur(1) m u1] process_payload_fails [OF cur(1) m unmask_append(1) [OF per u1 u2]])
qed

lemma process_payload_fails_second:
  assumes cur: "m_current_msg s \<noteq> NoMsg" "msg_ptr (current_metadata s) \<noteq> None"
    and per: "key_periodic le (prepared_key (current_metadata s))"
    and 1: "process_payload_bytes le xs s = (Ret (n1, NoError), s1)"
    and fails: "fails ec (process_payload_bytes le ys s1)"
  shows "fails ec (process_payload_bytes le (xs @ ys) s)"
proof -
  note keep = process_payload_keeps [OF cur per 1]
  obtain m b1 pk1 v1 where m: "msg_ptr (current_metadata s) = Some m"
    and u1: "unmask le (m_basic_header s) (prepared_key (current_metadata s)) xs = (b1, pk1)"
    and c1: "check_text m b1 (md_validator (current_metadata s)) = (True, v1)"
    and s1: "s1 = (set_current_metadata \<lparr>msg_ptr = Some (m\<lparr>m_payload := m_payload m @ b1\<rparr>), prepared_key = pk1, md_validator = v1\<rparr> s)
      \<lparr>m_bytes_needed := m_bytes_needed s - of_nat (length xs)\<rparr>"
    using process_payload_success [OF cur 1] by metis
  let ?m1 = "m\<lparr>m_payload := m_payload m @ b1\<rparr>"
  have md1: "current_metadata s1 = \<lparr>msg_ptr = Some ?m1, prepared_key = pk1, md_validator = v1\<rparr>"
    using cur(1) by (simp add: s1)
  obtain b2 pk2 where u2: "unmask le (m_basic_header s) pk1 ys = (b2, pk2)" by fastforce
  have "m_current_msg s1 \<noteq> NoMsg" using keep(5) cur(1) by simp
  then have "ec = ProcessorError PE_invalid_utf8 \<and> \<not> fst (check_text ?m1 b2 v1)"
    using fails process_payload_fails [of s1 ?m1 le ys b2 pk2 ec] md1 keep(4) u2 by simp
  then show ?thesis
    using check_text_fails_append(2) [OF c1, of ?m1 b2]
    by (simp add: process_payload_fails [OF cur(1) m unmask_append(1) [OF per u1 u2]])
qed

lemma consume_payload_breaks:
  assumes "m_hstate s = APPLICATION" and "k = min (unat (m_bytes_needed s)) (length buf - p)" and "0 < k"
    and "fails ec (process_payload_bytes le (take k (drop p buf)) s)"
  shows "breaks ec (consume_step le buf p s)"
  using assms unfolding consume_step_def consume_payload_def Let_def assms(2) [symmetric]
  by (auto simp: fails_def bindM_def breaks_def)

subsection \<open>One iteration\<close>

lemma header_continues:
  assumes "m_hstate s \<in> {HEADER_BASIC, HEADER_EXTENDED}" and "hybi13_inv s" and "p < length xs"
    and "length xs - p < unat (m_bytes_needed s)"
  shows "\<not> breaks ec (consume_step le xs p s)"
proof (cases "m_hstate s = HEADER_BASIC")
  case True
  then have "unat (m_bytes_needed s) \<le> 2" using assms(2) by (simp add: hybi13_invs word_le_nat_alt)
  then have two: "unat (m_bytes_needed s) = 2" "length (drop p xs) = 1" using assms(3,4) by simp_all
  then have needed: "m_bytes_needed s = 2" by (metis of_nat_numeral of_nat_unat ucast_id)
  obtain x where x: "drop p xs = [x]" using two(2) by (cases "drop p xs") auto
  show ?thesis
    using True needed x by (simp add: breaks_def consume_step_def consume_basic_header_def copy_basic_header_bytes_def)
next
  case False
  then have ext: "m_hstate s = HEADER_EXTENDED" using assms(1) by simp
  let ?u = "drop p xs"
  have inv: "length (m_extended_header s) = 12" "m_cursor s + unat (m_bytes_needed s) \<le> 12"
    using ext assms(2) by (simp_all add: hybi13_invs)
  have u: "length ?u < unat (m_bytes_needed s)" using assms(4) by simp
  obtain s1 where c: "copy_extended_header_bytes ?u s = (Ret (length ?u), s1)"
    and s1: "m_bytes_needed s1 = m_bytes_needed s - of_nat (length ?u)"
    using copy_extended_eq [of "length ?u" s ?u] u inv ext by simp
  have "0 < unat (m_bytes_needed s1)"
    using unat_minus_of_nat [of "length ?u" "m_bytes_needed s"] u unfolding s1 by linarith
  then have pos: "0 < m_bytes_needed s1" by (simp add: word_less_nat_alt)
  have "consume_step le xs p s = (Ret (Continue (p + length ?u)), s1)"
    using ext pos by (simp only: consume_step_def consume_extended_header_def bindM_Ret [of "copy_extended_header_bytes ?u", OF c] hybi13_state.case if_True)
  then show ?thesis by (simp add: breaks_def)
qed

lemma step_states:
  assumes "stream_inv le s" and "consume_more xs p s"
  shows "m_hstate s \<in> {HEADER_BASIC, HEADER_EXTENDED} \<or> m_hstate s = APPLICATION"
  using assms by (cases "m_hstate s") (auto simp: stream_inv_def consume_more_def hybi13_inv_def)

lemma payload_chunk:
  assumes "breaks ec (consume_step le xs p s)" and "m_hstate s = APPLICATION" and "p < length xs"
    and "length xs - p < unat (m_bytes_needed s)" and "stream_inv le s"
  shows "fails ec (process_payload_bytes le (drop p xs) s)"
proof -
  let ?u = "drop p xs"
  have u: "min (unat (m_bytes_needed s)) (length xs - p) = length ?u" "take (length ?u) ?u = ?u" "0 < length ?u"
    using assms(3,4) by simp_all
  have inv: "hybi13_inv s" "key_periodic le (prepared_key (current_metadata s))"
    using assms(2,5) by (simp_all add: stream_inv_def)
  note cur = inv_application [OF inv(1) assms(2)]
  obtain n e t where r: "process_payload_bytes le ?u s = (Ret (n, e), t)" by (rule process_payload_returns [OF cur])
  show ?thesis
  proof (cases "has_error e")
    case True
    then have "consume_step le xs p s = (Ret (Break (p + n) e), t)"
      using assms(2) u r unfolding consume_step_def consume_payload_def Let_def u(1) by (simp add: bindM_def)
    then show ?thesis using assms(1) r by (simp add: breaks_def fails_def)
  next
    case False
    then have r0: "process_payload_bytes le ?u s = (Ret (n, NoError), t)" using r by (simp add: has_error_def)
    note keep = process_payload_keeps [OF cur inv(2) r0]
    have "unat (m_bytes_needed t) = unat (m_bytes_needed s) - length ?u"
      using unat_minus_of_nat [of "length ?u" "m_bytes_needed s"] assms(4) unfolding keep(2) by simp
    then have "0 < m_bytes_needed t" using assms(3,4) by (simp add: word_less_nat_alt)
    moreover have "consume_payload le xs p s = payload_end (p + n) t"
      by (rule consume_payload_eq [OF refl]) (use u r0 in simp_all)
    ultimately have "consume_step le xs p s = (Ret (Continue (p + n)), t)"
      using assms(2) by (simp add: consume_step_def payload_end_def)
    then show ?thesis using assms(1) by (simp add: breaks_def)
  qed
qed

lemma consume_step_breaks_first:
  assumes inv: "stream_inv le s" and more: "consume_more xs p s" and p: "p \<le> length xs"
    and "breaks ec (consume_step le xs p s)"
  shows "breaks ec (consume_step le (xs @ ys) p s)"
proof (cases "unat (m_bytes_needed s) \<le> length xs - p")
  case True
  then show ?thesis using consume_step_local [OF _ p True, of le ys] inv assms(4) by (simp add: stream_inv_def)
next
  case False
  then have rest: "p < length xs" "length xs - p < unat (m_bytes_needed s)" using more by (auto simp: consume_more_def)
  have i: "hybi13_inv s" using inv by (simp add: stream_inv_def)
  have app: "m_hstate s = APPLICATION"
    using step_states [OF inv more] header_continues [OF _ i rest] assms(4) by blast
  have per: "key_periodic le (prepared_key (current_metadata s))" using inv app by (simp add: stream_inv_def)
  let ?k = "min (unat (m_bytes_needed s)) (length (xs @ ys) - p)"
  let ?ys = "take (?k - length (drop p xs)) ys"
  have "take ?k (drop p (xs @ ys)) = drop p xs @ ?ys" using rest by simp
  moreover have "fails ec (process_payload_bytes le (drop p xs @ ?ys) s)"
    by (rule process_payload_fails_first [OF inv_application [OF i app] per payload_chunk [OF assms(4) app rest inv]])
  ultimately show ?thesis
    using rest by (intro consume_payload_breaks [OF app refl]) (simp_all only:, simp)
qed

lemma consume_step_breaks_second:
  assumes inv: "stream_inv le s" and more: "consume_more xs p s"
    and rest: "p < length xs" "length xs - p < unat (m_bytes_needed s)" and ne: "ys \<noteq> []"
    and s': "consume_step le xs p s = (Ret (Continue p'), s')"
    and "breaks ec (consume_step le ys 0 s')"
  shows "breaks ec (consume_step le (xs @ ys) p s)"
proof -
  have i: "hybi13_inv s" using inv by (simp add: stream_inv_def)
  consider "m_hstate s = HEADER_BASIC" | "m_hstate s = HEADER_EXTENDED" | "m_hstate s = APPLICATION"
    using step_states [OF inv more] by blast
  then show ?thesis
  proof cases
    case 1
    then show ?thesis
      using consume_basic_partial(4) [OF 1 _ rest ne s'] i assms(7) by (simp add: hybi13_invs breaks_shift)
  next
    case 2
    then show ?thesis using consume_extended_partial(4) [OF 2 i rest s'] assms(7) by (simp add: breaks_shift)
  next
    case app: 3
    have per: "key_periodic le (prepared_key (current_metadata s))" using inv app by (simp add: stream_inv_def)
    note cur = inv_application [OF i app]
    note first = consume_payload_partial_end [OF app inv rest s']
    let ?u = "drop p xs" and ?k = "min (unat (m_bytes_needed s')) (length ys - 0)"
    have k: "0 < ?k" using first(3) ne by (simp add: unat_gt_0)
    have chunk: "length ?u + ?k = min (unat (m_bytes_needed s)) (length (xs @ ys) - p)" using first(5) rest by simp
    have bytes: "take (length ?u + ?k) (drop p (xs @ ys)) = ?u @ take ?k (drop 0 ys)" using rest by simp
    note keep = process_payload_keeps [OF cur per first(4)]
    show ?thesis
    proof (cases "fails ec (process_payload_bytes le (take ?k (drop 0 ys)) s')")
      case True
      then show ?thesis
        using process_payload_fails_second [OF cur per first(4) True]
        by (intro consume_payload_breaks [OF app chunk]) (use k bytes in simp_all)
    next
      case False
      have "m_current_msg s' \<noteq> NoMsg" using keep(5) cur(1) by simp
      then obtain n e t where r: "process_payload_bytes le (take ?k (drop 0 ys)) s' = (Ret (n, e), t)"
        by (rule process_payload_returns [OF _ keep(6)])
      have "\<not> has_error e"
      proof
        assume e: "has_error e"
        have "consume_step le ys 0 s' = (Ret (Break (0 + n) e), t)"
          using first(2) k r e unfolding consume_step_def consume_payload_def Let_def by (simp add: bindM_def)
        then have "e = ec" using assms(7) by (simp add: breaks_def)
        then show False using False r e by (simp add: fails_def)
      qed
      then have r0: "process_payload_bytes le (take ?k (drop 0 ys)) s' = (Ret (n, NoError), t)" using r by (simp add: has_error_def)
      have whole: "process_payload_bytes le (?u @ take ?k (drop 0 ys)) s = (Ret (length ?u + n, NoError), t)"
        by (rule process_payload_append [OF cur per first(4) r0])
      have "consume_payload le (xs @ ys) p s = payload_end (p + (length ?u + n)) t"
        using whole bytes k by (intro consume_payload_eq [OF chunk]) (simp_all del: length_drop)
      moreover have "consume_payload le ys 0 s' = payload_end (0 + n) t" by (rule consume_payload_eq [OF refl k r0])
      moreover have "p + (length ?u + n) = length xs + (0 + n)" using rest by simp
      ultimately have "consume_payload le (xs @ ys) p s = apfst (shift_outcome (length xs)) (consume_payload le ys 0 s')"
        by (simp only: payload_end_shift)
      then show ?thesis using assms(7) app first(2) by (simp add: consume_step_def breaks_shift)
    qed
  qed
qed

subsection \<open>The loop\<close>

lemma fails_cases:
  assumes "stream_inv le s" and "p \<le> length xs" and "consume_more xs p s"
  shows "fails ec (consume_loop le xs p s) \<longleftrightarrow>
    breaks ec (consume_step le xs p s) \<or>
    (\<exists>p' s'. consume_step le xs p s = (Ret (Continue p'), s') \<and> fails ec (consume_loop le xs p' s'))"
proof -
  have i: "hybi13_inv s" using assms(1) by (simp add: stream_inv_def)
  note ok = consume_step_ok [OF i assms(3,2), of le]
  obtain r s' where r: "consume_step le xs p s = (r, s')" by fastforce
  show ?thesis
    using ok r assms by (auto simp: step_ok_def consume_loop.simps [of le xs p s] breaks_def fails_def
      split: outcome.splits consume_step.splits)
qed

lemma consume_loop_fails_first:
  "stream_inv le s \<Longrightarrow> p \<le> length xs \<Longrightarrow> fails ec (consume_loop le xs p s) \<Longrightarrow> fails ec (consume_loop le (xs @ ys) p s)"
proof (induction "5 * (length xs - p) + consume_rank s" arbitrary: p s rule: less_induct)
  case less
  have more: "consume_more xs p s" using less.prems(3) consume_loop_end by (fastforce simp: fails_def)
  then have more': "consume_more (xs @ ys) p s" by (auto simp: consume_more_def)
  have p': "p \<le> length (xs @ ys)" using less.prems(2) by simp
  note cases = fails_cases [OF less.prems(1)]
  show ?case
  proof (cases "breaks ec (consume_step le xs p s)")
    case True
    then show ?thesis
      using consume_step_breaks_first [OF less.prems(1) more less.prems(2)] cases [OF p' more'] by blast
  next
    case False
    then obtain q t where q: "consume_step le xs p s = (Ret (Continue q), t)" "fails ec (consume_loop le xs q t)"
      using cases [OF less.prems(2) more] less.prems(3) by blast
    note prog = consume_step_progress [OF q(1) more less.prems(2)]
    show ?thesis
    proof (cases "unat (m_bytes_needed s) \<le> length xs - p")
      case local: True
      have "fails ec (consume_loop le (xs @ ys) q t)"
        using less.hyps [OF _ consume_step_stream [OF less.prems(1) more less.prems(2) q(1)] _ q(2)] prog by simp
      moreover have "consume_step le (xs @ ys) p s = (Ret (Continue q), t)"
        using consume_step_local [OF _ less.prems(2) local, of le ys] less.prems(1) q(1) by (simp add: stream_inv_def)
      ultimately show ?thesis using cases [OF p' more'] by blast
    next
      case partial: False
      then have rest: "p < length xs" "length xs - p < unat (m_bytes_needed s)" using more by (auto simp: consume_more_def)
      have "q = length xs" "m_bytes_needed t \<noteq> 0"
        using consume_step_partial_end [OF less.prems(1) more rest q(1)] by simp_all
      then have "\<not> consume_more xs q t" by (simp add: consume_more_def)
      then show ?thesis using q(2) consume_loop_end by (fastforce simp: fails_def)
    qed
  qed
qed

lemma fails_shift:
  assumes "fails ec (consume_loop le ys q s)" and "q \<le> length ys"
  shows "fails ec (consume_loop le (xs @ ys) (length xs + q) s)"
proof -
  obtain n t where "consume_loop le ys q s = (Ret (n, ec), t)" "has_error ec" using assms(1) by (auto simp: fails_def)
  then show ?thesis using consume_loop_shift [OF assms(2), of le xs s] by (simp add: fails_def)
qed

lemma consume_loop_fails_second:
  "stream_inv le s \<Longrightarrow> p \<le> length xs \<Longrightarrow> consume_loop le xs p s = (Ret (n1, NoError), s1) \<Longrightarrow> \<not> ready s1 \<Longrightarrow>
   fails ec (consume_loop le ys 0 s1) \<Longrightarrow> fails ec (consume_loop le (xs @ ys) p s)"
proof (induction "5 * (length xs - p) + consume_rank s" arbitrary: p s rule: less_induct)
  case less
  have p': "p \<le> length (xs @ ys)" using less.prems(2) by simp
  show ?case
  proof (cases "consume_more xs p s")
    case False
    then have s1: "n1 = p" "s1 = s" using less.prems(3) consume_loop_end [OF False] by simp_all
    then have "p = length xs"
      using False less.prems(1,2,4) by (auto simp: consume_more_def ready_def stream_inv_def hybi13_inv_def)
    then show ?thesis using fails_shift [OF less.prems(5) le0, of xs] s1(2) by simp
  next
    case more: True
    then have more': "consume_more (xs @ ys) p s" by (auto simp: consume_more_def)
    note cases = fails_cases [OF less.prems(1) p' more']
    obtain q t where st: "consume_step le xs p s = (Ret (Continue q), t)" "q \<le> length xs" "stream_inv le t"
        "consume_loop le xs q t = (Ret (n1, NoError), s1)"
      using consume_loop_noerrorE [OF less.prems(3,1,2) more] .
    show ?thesis
    proof (cases "unat (m_bytes_needed s) \<le> length xs - p")
      case local: True
      have "fails ec (consume_loop le (xs @ ys) q t)"
        using less.hyps [OF _ st(3,2,4) less.prems(4,5)] consume_step_progress [OF st(1) more less.prems(2)] by simp
      moreover have "consume_step le (xs @ ys) p s = (Ret (Continue q), t)"
        using consume_step_local [OF _ less.prems(2) local, of le ys] less.prems(1) st(1) by (simp add: stream_inv_def)
      ultimately show ?thesis using cases by blast
    next
      case False
      then have rest: "p < length xs" "length xs - p < unat (m_bytes_needed s)" using more by (auto simp: consume_more_def)
      have e: "q = length xs" "m_hstate t \<noteq> READY" "m_bytes_needed t \<noteq> 0"
        using consume_step_partial_end [OF less.prems(1) more rest st(1)] by simp_all
      then have "\<not> consume_more xs q t" by (simp add: consume_more_def)
      then have s1: "s1 = t" using st(4) consume_loop_end by simp
      have more2: "consume_more ys 0 t" using less.prems(5) s1 consume_loop_end by (fastforce simp: fails_def)
      then have ne: "ys \<noteq> []" using e(3) by (auto simp: consume_more_def)
      from fails_cases [OF st(3) le0 more2] less.prems(5) s1
      consider "breaks ec (consume_step le ys 0 t)"
        | k u where "consume_step le ys 0 t = (Ret (Continue k), u)" "fails ec (consume_loop le ys k u)" by blast
      then show ?thesis
      proof cases
        case 1
        then show ?thesis using consume_step_breaks_second [OF less.prems(1) more rest ne st(1)] cases by blast
      next
        case 2
        have "k \<le> length ys" using consume_step_progress [OF 2(1) more2] by simp
        then have "fails ec (consume_loop le (xs @ ys) (length xs + k) u)" by (rule fails_shift [OF 2(2)])
        then show ?thesis using consume_step_partial [OF less.prems(1) more rest ne st(1) 2(1)] cases by blast
      qed
    qed
  qed
qed

lemma consume_fails_split:
  assumes "stream_inv le s"
  shows "fails ec (consume le xs s) \<Longrightarrow> fails ec (consume le (xs @ ys) s)"
    and "consume le xs s = (Ret (n1, NoError), s1) \<Longrightarrow> \<not> ready s1 \<Longrightarrow> fails ec (consume le ys s1) \<Longrightarrow>
      fails ec (consume le (xs @ ys) s)"
  using consume_loop_fails_first [OF assms le0] consume_loop_fails_second [OF assms le0] by (simp_all add: consume_def)

end
