(* ===== verification/Ws_Connection_Stream.thy ===== *)
theory Ws_Connection_Stream
  imports Ws_Connection_Runs Ws_Stream_Errors
begin

text \<open>
  What a connection makes of a stream of bytes: it does not depend on how the transport cuts the
  stream into reads, and from a stream of frames the handlers get the messages in order.
\<close>

subsection \<open>The operations and the state of the reader\<close>

text \<open>No operation of the application looks at more of the processor than the side it is on.\<close>

definition with_processor :: "hybi13 \<Rightarrow> 'u connection \<Rightarrow> 'u connection" where
  "with_processor p c = c\<lparr>m_processor := p\<rparr>"

lemma with_processor_sel [simp]:
  "m_processor (with_processor p c) = p" "m_con_state (with_processor p c) = m_con_state c"
  "m_send_queue (with_processor p c) = m_send_queue c" "m_write_flag (with_processor p c) = m_write_flag c"
  "reads_pending (with_processor p c) = reads_pending c" "m_read_flag (with_processor p c) = m_read_flag c"
  "frames_prepared (with_processor p c) = frames_prepared c" "application (with_processor p c) = application c"
  "m_is_server (with_processor p c) = m_is_server c" "m_remote_close_code (with_processor p c) = m_remote_close_code c"
  "m_remote_close_reason (with_processor p c) = m_remote_close_reason c" "m_was_clean (with_processor p c) = m_was_clean c"
  "posted (with_processor p c) = posted c"
  by (simp_all add: with_processor_def)

lemma with_processor_again [simp]:
  "with_processor p (with_processor q c) = with_processor p c" "with_processor (m_processor c) c = c"
  by (simp_all add: with_processor_def)

lemma with_processor_updates:
  "write_push m (with_processor p c) = with_processor p (write_push m c)"
  "dispatch_write (with_processor p c) = with_processor p (dispatch_write c)"
  "count_frame (with_processor p c) = with_processor p (count_frame c)"
  "log_handler e (with_processor p c) = with_processor p (log_handler e c)"
  "terminate ec (with_processor p c) = with_processor p (terminate ec c)"
  "(with_processor p c)\<lparr>m_ping_timer := b\<rparr> = with_processor p (c\<lparr>m_ping_timer := b\<rparr>)"
  "(with_processor p c)\<lparr>m_handshake_timer := b\<rparr> = with_processor p (c\<lparr>m_handshake_timer := b\<rparr>)"
  "(with_processor p c)\<lparr>m_was_clean := b\<rparr> = with_processor p (c\<lparr>m_was_clean := b\<rparr>)"
  "(with_processor p c)\<lparr>m_con_state := st\<rparr> = with_processor p (c\<lparr>m_con_state := st\<rparr>)"
  "(with_processor p c)\<lparr>m_local_close_code := lc, m_local_close_reason := lr\<rparr> =
     with_processor p (c\<lparr>m_local_close_code := lc, m_local_close_reason := lr\<rparr>)"
  "(with_processor p c)\<lparr>m_remote_close_code := lc\<rparr> = with_processor p (c\<lparr>m_remote_close_code := lc\<rparr>)"
  "(with_processor p c)\<lparr>m_remote_close_reason := lr\<rparr> = with_processor p (c\<lparr>m_remote_close_reason := lr\<rparr>)"
  "(with_processor p c)\<lparr>posted := ts\<rparr> = with_processor p (c\<lparr>posted := ts\<rparr>)"
  "(with_processor p c)\<lparr>application := u\<rparr> = with_processor p (c\<lparr>application := u\<rparr>)"
  "(with_processor p c)\<lparr>reads_pending := n\<rparr> = with_processor p (c\<lparr>reads_pending := n\<rparr>)"
  "read_frame (with_processor p c) = with_processor p (read_frame c)"
  by (simp_all add: with_processor_def write_push_def dispatch_write_def count_frame_def log_handler_def terminate_def
      async_shutdown_def read_frame_def Let_def split: option.split session_status.split)

text \<open>An operation commutes with a change of the processor.\<close>

definition blind :: "('u connection \<Rightarrow> 'a \<times> 'u connection) \<Rightarrow> bool" where
  "blind f \<longleftrightarrow> (\<forall>p c. m_server p = m_server (m_processor c) \<longrightarrow>
     f (with_processor p c) = apsnd (with_processor p) (f c) \<and> m_processor (snd (f c)) = m_processor c)"

lemma blindD:
  assumes "blind f" and "m_server p = m_server (m_processor c)"
  shows "f (with_processor p c) = apsnd (with_processor p) (f c)"
  using assms by (simp add: blind_def)

lemma blind_keeps: "blind f \<Longrightarrow> m_processor (snd (f c)) = m_processor c"
  unfolding blind_def by blast

lemma op_sel_processor [simp]:
  "m_processor (dispatch_write c) = m_processor c" "m_processor (write_push m c) = m_processor c"
  "m_processor (count_frame c) = m_processor c" "m_processor (log_handler e c) = m_processor c"
  by (simp_all add: dispatch_write_def write_push_def count_frame_def log_handler_def split: option.split)

lemma next_rng_processor [simp]: "next_rng env (with_processor p c) = next_rng env c"
  by (simp add: next_rng_def)

lemma blind_send: "\<not> m_prepared msg \<Longrightarrow> blind (send_message env msg)"
  by (auto simp: blind_def send_message_def send_state_check_def send_enqueue_def with_processor_updates split: prod.split option.split)

lemma blind_ping: "blind (con_ping env payload)"
  by (auto simp: blind_def con_ping_def with_processor_updates Let_def split: prod.split)

lemma blind_pong: "blind (con_pong env payload)"
  by (auto simp: blind_def con_pong_def with_processor_updates Let_def split: prod.split)

lemma local_close_processor [simp]: "local_close code reason ack (with_processor p c) = local_close code reason ack c"
  by (simp add: local_close_def)

lemma blind_send_close_frame: "blind (send_close_frame env code reason ack terminal)"
  by (auto simp: blind_def send_close_frame_def with_processor_updates next_rng_def Let_def split: prod.split)

lemma blind_close: "blind (connection_close env code reason)"
  by (simp add: blind_def connection_close_def Let_def blindD [OF blind_send_close_frame] blind_keeps [OF blind_send_close_frame])

lemma blind_send_close_ack: "blind (send_close_ack env code reason)"
  by (simp add: blind_def send_close_ack_def blindD [OF blind_send_close_frame] blind_keeps [OF blind_send_close_frame])

lemma blind_api: "blind (api_call env call)"
proof (cases call)
  case (Api_send payload op)
  then show ?thesis
    using blind_send [of "set_compressed True (append_payload payload (message_init op))" env]
    by (simp add: blind_def api_call_def con_send_def message_setters message_init_def)
next
  case (Api_send_raw payload op)
  then show ?thesis
    using blind_send [of "append_payload payload (message_init op)" env]
    by (simp add: blind_def api_call_def con_send_raw_def message_setters message_init_def)
qed (use blind_ping blind_pong blind_close in
    \<open>simp_all add: blind_def api_call_def con_interrupt_def with_processor_updates\<close>)

lemma blind_user: "blind (run_user env prog)"
proof (induction prog)
  case (Call call k)
  show ?case
  proof (unfold blind_def, intro allI impI)
    fix p :: hybi13 and c :: "'a connection"
    assume p: "m_server p = m_server (m_processor c)"
    obtain ec c' where c': "api_call env call c = (ec, c')" by fastforce
    then have "api_call env call (with_processor p c) = (ec, with_processor p c')" "m_processor c' = m_processor c"
      using blindD [OF blind_api p, of env call] blind_keeps [OF blind_api, of env call c] by simp_all
    moreover have "blind (run_user env (k ec))" using Call by simp
    ultimately show "run_user env (Call call k) (with_processor p c) = apsnd (with_processor p) (run_user env (Call call k) c) \<and>
        m_processor (snd (run_user env (Call call k) c)) = m_processor c"
      using blindD [of "run_user env (k ec)" p c'] blind_keeps [of "run_user env (k ec)" c'] c' p by simp
  qed
qed (simp add: blind_def)

definition blind_op :: "('u connection \<Rightarrow> 'u connection) \<Rightarrow> bool" where
  "blind_op f \<longleftrightarrow> (\<forall>p c. m_server p = m_server (m_processor c) \<longrightarrow>
     f (with_processor p c) = with_processor p (f c) \<and> m_processor (f c) = m_processor c)"

lemma blind_opD:
  assumes "blind_op f" and "m_server p = m_server (m_processor c)"
  shows "f (with_processor p c) = with_processor p (f c)"
  using assms by (simp add: blind_op_def)

lemma blind_op_keeps: "blind_op f \<Longrightarrow> m_processor (f c) = m_processor c"
  unfolding blind_op_def by blast

lemma blind_op_snd: "blind f \<Longrightarrow> blind_op (\<lambda>c. snd (f c))"
  by (simp add: blind_op_def blindD blind_keeps)

lemma blind_op_terminate: "blind_op (terminate ec)"
  by (simp add: blind_op_def with_processor_updates)

lemma blind_call_handler: "blind_op (call_handler env h e)"
proof (cases h)
  case (Some f)
  have "call_handler env h e (with_processor p c) = with_processor p (call_handler env h e c) \<and>
      m_processor (call_handler env h e c) = m_processor c"
    if "m_server p = m_server (m_processor c)" for p :: hybi13 and c :: "'a connection"
    using blindD [OF blind_user, of p "log_handler e c" env "f (application c)"]
      blind_keeps [OF blind_user, of env "f (application c)" "log_handler e c"] that Some
    by (auto simp: call_handler_def with_processor_updates split: prod.split)
  then show ?thesis by (simp add: blind_op_def)
qed (simp add: blind_op_def call_handler_def)

lemma blind_call_ping_handler: "blind (call_ping_handler env payload)"
proof (cases "m_ping_handler env")
  case (Some f)
  have "call_ping_handler env payload (with_processor p c) = apsnd (with_processor p) (call_ping_handler env payload c) \<and>
      m_processor (snd (call_ping_handler env payload c)) = m_processor c"
    if "m_server p = m_server (m_processor c)" for p :: hybi13 and c :: "'a connection"
    using blindD [OF blind_user, of p "log_handler (PingHandler payload) c" env "f (application c) payload"]
      blind_keeps [OF blind_user, of env "f (application c) payload" "log_handler (PingHandler payload) c"] that Some
    by (auto simp: call_ping_handler_def with_processor_updates split: prod.split)
  then show ?thesis by (simp add: blind_def)
qed (simp add: blind_def call_ping_handler_def)

lemma blind_process_close_frame: "blind_op (process_close_frame env payload)"
proof -
  obtain code ec where code: "extract_code (little_endian env) payload = (code, ec)" by fastforce
  obtain reason ec' where reason: "extract_reason payload = (reason, ec')" by fastforce
  show ?thesis
    by (simp add: blind_op_def process_close_frame_def code reason drop_on_protocol_error_def Let_def with_processor_updates
      blindD [OF blind_send_close_ack] blind_keeps [OF blind_send_close_ack])
qed

lemma blind_process_control_frame: "blind_op (process_control_frame env msg)"
proof -
  have "process_control_frame env msg (with_processor p c) = with_processor p (process_control_frame env msg c) \<and>
      m_processor (process_control_frame env msg c) = m_processor c"
    if p: "m_server p = m_server (m_processor c)" for p and c :: "'a connection"
  proof -
    obtain r c' where r: "call_ping_handler env (m_payload msg) c = (r, c')" by fastforce
    then have "call_ping_handler env (m_payload msg) (with_processor p c) = (r, with_processor p c')" "m_processor c' = m_processor c"
      using blindD [OF blind_call_ping_handler p, of env "m_payload msg"] blind_keeps [OF blind_call_ping_handler, of env "m_payload msg" c]
      by simp_all
    then show ?thesis
      using r p by (simp add: process_control_frame_def Let_def blind_opD [OF blind_call_handler] blind_op_keeps [OF blind_call_handler]
        blind_opD [OF blind_process_close_frame] blind_op_keeps [OF blind_process_close_frame]
        blindD [OF blind_pong] blind_keeps [OF blind_pong])
  qed
  then show ?thesis by (simp add: blind_op_def)
qed

lemma blind_dispatch: "blind_op (dispatch_message env msg)"
  by (simp add: blind_op_def dispatch_message_def blind_opD [OF blind_call_handler] blind_op_keeps [OF blind_call_handler]
    blind_opD [OF blind_process_control_frame] blind_op_keeps [OF blind_process_control_frame] split: option.split)

lemma blind_consume_error: "blind_op (handle_consume_error env ec)"
proof -
  have "handle_consume_error env ec (with_processor p c) = with_processor p (handle_consume_error env ec c) \<and>
      m_processor (handle_consume_error env ec c) = m_processor c"
    if p: "m_server p = m_server (m_processor c)" for p and c :: "'a connection"
    using blindD [OF blind_close p, of env "to_ws ec" "str (error_message ec)"] blind_keeps [OF blind_close, of env "to_ws ec" "str (error_message ec)" c]
    by (auto simp: handle_consume_error_def drop_on_protocol_error_def with_processor_updates split: prod.split)
  then show ?thesis by (simp add: blind_op_def)
qed

subsection \<open>Reading in parts\<close>

text \<open>
  Two results of reading agree when they are the same, except that after a protocol error, when no
  read is asked for any more, the processors may differ.
\<close>

definition agree ::
  "(unit outcome \<times> 'u connection) option \<Rightarrow> (unit outcome \<times> 'u connection) option \<Rightarrow> bool" where
  "agree r r' \<longleftrightarrow> (\<exists>c c'. r = Some (Ret (), c) \<and> r' = Some (Ret (), c') \<and>
     with_processor (m_processor c') c = c' \<and> (0 < reads_pending c \<longrightarrow> c = c'))"

lemma agree_refl: "agree (Some (Ret (), c)) (Some (Ret (), c))"
  by (simp add: agree_def)

lemma agree_sym: "agree r r' \<Longrightarrow> agree r' r"
  unfolding agree_def by (metis with_processor_again with_processor_sel(5))

lemma agree_trans: "agree r r' \<Longrightarrow> agree r' r'' \<Longrightarrow> agree r r''"
  unfolding agree_def by (metis option.inject prod.inject with_processor_again(1) with_processor_sel(5))

text \<open>What follows a read: if the connection asked for another one, the next bytes.\<close>

definition then_read ::
  "'u environment \<Rightarrow> bytes \<Rightarrow> (unit outcome \<times> 'u connection) option \<Rightarrow> (unit outcome \<times> 'u connection) option" where
  "then_read env ys r =
     (case r of
        Some (Ret _, c) \<Rightarrow> if reads_pending c = 0 then r else handle_read_loop env ys 0 (c\<lparr>reads_pending := 0\<rparr>)
      | _ \<Rightarrow> r)"

definition receptive :: "'u connection \<Rightarrow> bool" where
  "receptive c \<longleftrightarrow> m_read_flag c \<and> reads_pending c = 0"

lemma read_frame_receptive:
  "receptive c \<Longrightarrow> read_frame c = c\<lparr>reads_pending := 1\<rparr>" "receptive c \<Longrightarrow> c\<lparr>reads_pending := 0\<rparr> = c"
  by (simp_all add: receptive_def read_frame_def)

lemma receptive_processor [simp]: "receptive (c\<lparr>m_processor := pr\<rparr>) = receptive c"
  by (simp add: receptive_def)

lemma receptive_effects: "con_effects c c' \<Longrightarrow> receptive c \<Longrightarrow> receptive c'"
  by (drule fixed_fields_effects) (simp add: fixed_fields_def receptive_def)

lemma loop_inv_processor: "loop_inv le (c\<lparr>m_processor := p\<rparr>) \<Longrightarrow> stream_inv le p \<and> \<not> ready p"
  by (simp add: loop_inv_def reading_inv_def)

lemma consume_error_agree:
  assumes "receptive c" and "m_server p = m_server (m_processor c)" and "m_server q = m_server (m_processor c)"
  shows "agree (Some (Ret (), handle_consume_error env ec (c\<lparr>m_processor := p\<rparr>)))
    (Some (Ret (), handle_consume_error env ec (c\<lparr>m_processor := q\<rparr>)))"
proof -
  have "receptive (handle_consume_error env ec c)" by (rule receptive_effects [OF handle_consume_error_effects assms(1)])
  then show ?thesis
    using blind_opD [OF blind_consume_error, of p c env ec] blind_opD [OF blind_consume_error, of q c env ec] assms(2,3)
    by (simp add: agree_def with_processor_def [symmetric] receptive_def)
qed

lemma failsD: "fails ec (consume le b s) \<Longrightarrow> \<exists>n t. consume le b s = (Ret (n, ec), t) \<and> has_error ec \<and> m_server t = m_server s"
  using consume_settings [of le b s] by (auto simp: fails_def)

lemma read_loop_fails:
  assumes "loop_inv (little_endian env) c" and "fails ec (consume (little_endian env) b (m_processor c))" and "b \<noteq> []"
  shows "\<exists>t. handle_read_loop env b 0 c = Some (Ret (), handle_consume_error env ec (c\<lparr>m_processor := t\<rparr>)) \<and>
    m_server t = m_server (m_processor c)"
  using failsD [OF assms(2)] read_loop_rounds(2) [OF assms(1,3)] by blast

lemma read_loop_agree_refl:
  "loop_inv (little_endian env) c \<Longrightarrow> agree (handle_read_loop env b 0 c) (handle_read_loop env b 0 c)"
  using handle_read_loop_returns [of env c b] agree_refl by auto

text \<open>Bytes that do not complete a message are remembered.\<close>

lemma read_loop_partial:
  assumes inv: "loop_inv (little_endian env) c" and "receptive c" and "xs \<noteq> []"
    and 1: "consume (little_endian env) xs (m_processor c) = (Ret (length xs, NoError), pr)" "\<not> ready pr"
  shows "agree (handle_read_loop env (xs @ ys) 0 c) (handle_read_loop env ys 0 (c\<lparr>m_processor := pr\<rparr>))"
proof -
  let ?le = "little_endian env" and ?c = "c\<lparr>m_processor := pr\<rparr>"
  have s: "stream_inv ?le (m_processor c)" using inv by (simp add: loop_inv_def reading_inv_def)
  note split = consume_split [OF s 1(1)]
  have inv': "loop_inv ?le ?c" using split(1) 1(2) inv by (simp add: loop_inv_def reading_inv_def)
  have ne: "xs @ ys \<noteq> []" using assms(3) by simp
  have srv: "m_server pr = m_server (m_processor c)" using consume_settings [OF 1(1)] by simp
  show ?thesis
  proof (cases "ys = []")
    case True
    then show ?thesis using read_loop_rounds(3) [OF inv assms(3) 1] read_loop_rounds(1) [OF inv'] agree_refl by simp
  next
    case nonempty: False
    obtain n ec t where t: "consume ?le ys pr = (Ret (n, ec), t)" "n \<le> length ys"
      using consume_ok split(1) by (metis stream_inv_def)
    show ?thesis
    proof (cases "has_error ec")
      case True
      then have f: "fails ec (consume ?le ys (m_processor ?c))" using t by (simp add: failsI)
      then have "fails ec (consume ?le (xs @ ys) (m_processor c))"
        using consume_fails_split(2) [OF s 1] by simp
      from read_loop_fails [OF inv this ne] obtain p where p: "m_server p = m_server (m_processor c)"
        "handle_read_loop env (xs @ ys) 0 c = Some (Ret (), handle_consume_error env ec (c\<lparr>m_processor := p\<rparr>))" by blast
      from read_loop_fails [OF inv' f nonempty] obtain q where "m_server q = m_server (m_processor c)"
        "handle_read_loop env ys 0 ?c = Some (Ret (), handle_consume_error env ec (c\<lparr>m_processor := q\<rparr>))" using srv by auto
      with p show ?thesis using consume_error_agree [OF assms(2)] by simp
    next
      case False
      then have t0: "consume ?le ys (m_processor ?c) = (Ret (n, NoError), t)" using t(1) by (simp add: has_error_def)
      then have whole: "consume ?le (xs @ ys) (m_processor c) = (Ret (length xs + n, NoError), t)" using split(4) [OF 1(2)] by simp
      note parts = consume_split [OF split(1) t0 [simplified]]
      show ?thesis
      proof (cases "ready t")
        case True
        have "hybi13_inv t" using parts(1) by (simp add: stream_inv_def)
        from get_message_stream [OF this True] obtain m u where u: "get_message t = (Ret (Some m), u)"
          "stream_inv ?le u" "m_hstate u = HEADER_BASIC" by metis
        then have nr: "\<not> ready u" by (simp add: ready_def)
        have d: "loop_inv ?le (dispatch_message env (Some m) (c\<lparr>m_processor := u\<rparr>))"
          by (rule loop_inv_dispatch(1) [OF inv u(2) nr])
        have "handle_read_loop env (xs @ ys) 0 c =
            handle_read_loop env (drop n ys) 0 (dispatch_message env (Some m) (c\<lparr>m_processor := u\<rparr>))"
          using read_loop_rounds(4) [OF inv ne whole _ True u(1) d] t(2) by simp
        moreover have "handle_read_loop env ys 0 ?c =
            handle_read_loop env (drop n ys) 0 (dispatch_message env (Some m) (c\<lparr>m_processor := u\<rparr>))"
          using read_loop_rounds(4) [OF inv' nonempty t0 t(2) True u(1)] d by simp
        ultimately show ?thesis using read_loop_agree_refl [OF d] by simp
      next
        case False
        then have "n = length ys" by (rule parts(3))
        then show ?thesis
          using read_loop_rounds(3) [OF inv ne _ False] read_loop_rounds(3) [OF inv' nonempty _ False] whole t0 agree_refl
          by simp
      qed
    qed
  qed
qed

lemma read_loop_append:
  "loop_inv (little_endian env) c \<Longrightarrow> receptive c \<Longrightarrow>
   agree (handle_read_loop env (b @ ys) 0 c) (then_read env ys (handle_read_loop env b 0 c))"
proof (induction b c rule: read_loop_induct)
  case (finish c)
  have "then_read env ys (handle_read_loop env [] 0 c) = handle_read_loop env ys 0 c"
    using read_loop_rounds(1) [OF finish(1)] finish(2) by (simp add: then_read_def read_frame_receptive)
  then show ?case using read_loop_agree_refl [OF finish(1)] by simp
next
  case (error b c n ec pr)
  let ?r = "handle_consume_error env ec (c\<lparr>m_processor := pr\<rparr>)"
  have f: "fails ec (consume (little_endian env) b (m_processor c))" using error(3,4) by (simp add: failsI)
  have s: "stream_inv (little_endian env) (m_processor c)" using error(1) by (simp add: loop_inv_def reading_inv_def)
  from read_loop_fails [OF error(1) consume_fails_split(1) [OF s f]] obtain t where
    "handle_read_loop env (b @ ys) 0 c = Some (Ret (), handle_consume_error env ec (c\<lparr>m_processor := t\<rparr>))"
    "m_server t = m_server (m_processor c)" using error(2) by auto
  moreover have "receptive ?r" by (rule receptive_effects [OF handle_consume_error_effects]) (simp add: error(5))
  then have "then_read env ys (handle_read_loop env b 0 c) = Some (Ret (), ?r)"
    using read_loop_rounds(2) [OF error(1-4)] by (simp add: then_read_def receptive_def)
  ultimately show ?case
    using consume_error_agree [OF error(5), of t pr] consume_settings [OF error(3)] by simp
next
  case (more b c pr)
  let ?c = "c\<lparr>m_processor := pr\<rparr>"
  have rec: "receptive ?c" using more(6) by simp
  have "handle_read_loop env b 0 c = Some (Ret (), ?c\<lparr>reads_pending := 1\<rparr>)"
    using read_loop_rounds(3) [OF more(1-4)] unfolding read_frame_receptive(1) [OF rec] .
  moreover have "(?c\<lparr>reads_pending := 1\<rparr>)\<lparr>reads_pending := 0\<rparr> = ?c" using rec by (cases c) (simp add: receptive_def)
  ultimately have "then_read env ys (handle_read_loop env b 0 c) = handle_read_loop env ys 0 ?c"
    by (simp add: then_read_def del: connection.update_convs)
  then show ?case using read_loop_partial [OF more(1,6,2-4)] by simp
next
  case (message b c n pr m u)
  let ?c = "dispatch_message env (Some m) (c\<lparr>m_processor := u\<rparr>)"
  have s: "stream_inv (little_endian env) (m_processor c)" using message(1) by (simp add: loop_inv_def reading_inv_def)
  have "con_effects (c\<lparr>m_processor := u\<rparr>) ?c"
    by (rule dispatch_message_effects) (use message(1) in \<open>simp add: loop_inv_def\<close>)
  then have rec: "receptive ?c" by (rule receptive_effects) (simp add: message(9))
  have "handle_read_loop env (b @ ys) 0 c = handle_read_loop env (drop n b @ ys) 0 ?c"
    using read_loop_rounds(4) [OF message(1) _ consume_split(2) [OF s message(3,5)] _ message(5-7), of ys] message(2,4) by simp
  then show ?case using message(8) [OF rec] read_loop_rounds(4) [OF message(1-7)] by simp
qed

text \<open>The reads of a stream: a read is completed if it was asked for.\<close>

fun read_segments :: "'u environment \<Rightarrow> bytes list \<Rightarrow> 'u connection \<Rightarrow> (unit outcome \<times> 'u connection) option" where
  "read_segments env [] c = Some (Ret (), c)"
| "read_segments env (b # bs) c =
     (if reads_pending c = 0 then Some (Ret (), c)
      else
        (case handle_read_frame env NoError b (c\<lparr>reads_pending := reads_pending c - 1\<rparr>) of
           Some (Ret _, c) \<Rightarrow> read_segments env bs c
         | r \<Rightarrow> r))"

lemma read_segments_done: "reads_pending c = 0 \<Longrightarrow> read_segments env bs c = Some (Ret (), c)"
  by (cases bs) simp_all

definition reading :: "'u environment \<Rightarrow> 'u connection \<Rightarrow> bool" where
  "reading env c \<longleftrightarrow> loop_inv (little_endian env) c \<and> m_read_flag c \<and> m_internal_state c = PROCESS_CONNECTION"

lemma reading_read:
  assumes "reading env c" and "reads_pending c = 0"
  obtains d where "handle_read_loop env b 0 c = Some (Ret (), d)"
    and "reads_pending d = 0 \<or> reads_pending d = 1 \<and> reading env d"
proof -
  obtain c1 d where d: "handle_read_loop env b 0 c = Some (Ret (), d)" "read_effect\<^sup>*\<^sup>* c c1"
    "d = c1 \<or> d = read_frame c1 \<and> reading_inv (little_endian env) c1"
    using handle_read_loop_returns [of env c b] assms(1) by (auto simp: reading_def)
  have "reads_pending c1 = 0" "m_read_flag c1" "m_internal_state c1 = PROCESS_CONNECTION" "m_con_state c1 \<noteq> SS_connecting"
    using read_effects_fixed [OF d(2)] assms by (auto simp: fixed_fields_def reading_def loop_inv_def)
  with d(3) have "reads_pending d = 0 \<or> reads_pending d = 1 \<and> reading env d"
    by (auto simp: reading_def loop_inv_def reading_inv_def read_frame_def)
  with d(1) show thesis by (rule that)
qed

lemma segmentation_irrelevant:
  assumes "reading env c" and "reads_pending c = 1"
  shows "agree (read_segments env bufs c) (handle_read_frame env NoError (concat bufs) (c\<lparr>reads_pending := 0\<rparr>))"
  using assms
proof (induction bufs arbitrary: c)
  case Nil
  let ?c = "c\<lparr>reads_pending := 0\<rparr>"
  have "loop_inv (little_endian env) ?c" using Nil by (simp add: reading_def loop_inv_def reading_inv_def)
  then have "handle_read_frame env NoError [] ?c = Some (Ret (), c)"
    using read_loop_rounds(1) [of env ?c] Nil by (simp add: handle_read_frame_def reading_def read_frame_def)
  then show ?case by (simp add: agree_refl)
next
  case (Cons b bs)
  let ?c = "c\<lparr>reads_pending := 0\<rparr>"
  have c: "reading env ?c" "reads_pending ?c = 0" "receptive ?c"
    using Cons.prems by (simp_all add: reading_def loop_inv_def reading_inv_def receptive_def)
  then have inv: "loop_inv (little_endian env) ?c" by (simp add: reading_def)
  obtain d where d: "handle_read_loop env b 0 ?c = Some (Ret (), d)" "reads_pending d = 0 \<or> reads_pending d = 1 \<and> reading env d"
    using reading_read [OF c(1,2)] .
  have frame: "handle_read_frame env NoError buf e = handle_read_loop env buf 0 e"
    if "reading env e" for buf and e :: "'a connection"
    using that by (simp add: handle_read_frame_def reading_def)
  have whole: "agree (handle_read_loop env (b @ concat bs) 0 ?c) (then_read env (concat bs) (Some (Ret (), d)))"
    using read_loop_append [OF inv c(3), of b "concat bs"] d(1) by simp
  have parts: "agree (read_segments env bs d) (then_read env (concat bs) (Some (Ret (), d)))"
  proof (cases "reads_pending d = 0")
    case True
    then show ?thesis by (simp add: read_segments_done then_read_def agree_refl)
  next
    case False
    then have r: "reading env d" "reads_pending d = 1" using d(2) by simp_all
    then have "reading env (d\<lparr>reads_pending := 0\<rparr>)" by (simp add: reading_def loop_inv_def reading_inv_def)
    then show ?thesis using Cons.IH [OF r] r(2) frame by (simp add: then_read_def)
  qed
  have "read_segments env (b # bs) c = read_segments env bs d"
    using Cons.prems(2) d(1) frame [OF c(1)] by simp
  then show ?case
    using agree_trans [OF parts agree_sym [OF whole]] frame [OF c(1)] by (simp del: read_segments.simps)
qed

subsection \<open>A stream of frames\<close>

text \<open>The frame \<open>f\<close>, read by an idle processor with these settings, is the message \<open>m\<close>.\<close>

definition delivers :: "bool \<Rightarrow> bool \<Rightarrow> u64 \<Rightarrow> ws_message \<Rightarrow> ws_message \<Rightarrow> bool" where
  "delivers le server max_size f m \<longleftrightarrow>
     (\<forall>s. idle s \<and> m_server s = server \<and> m_max_message_size s = max_size \<longrightarrow>
       (\<exists>t. consume le (message_wire f) s = (Ret (length (message_wire f), NoError), t) \<and>
          fst (get_message t) = Ret (Some m) \<and> idle (snd (get_message t))))"

lemma get_message_ready: "fst (get_message t) = Ret (Some m) \<Longrightarrow> ready t"
  by (rule ccontr) (simp add: get_message_def)

lemma idle_not_ready: "idle s \<Longrightarrow> \<not> ready s"
  by (simp add: idle_def ready_def)

lemma get_message_settings: "m_server (snd (get_message t)) = m_server t \<and> m_max_message_size (snd (get_message t)) = m_max_message_size t"
  by (auto simp: get_message_def Let_def split: option.split)

lemma delivers_nonempty:
  assumes "delivers le (m_server s) (m_max_message_size s) f m" and "idle s"
  shows "message_wire f \<noteq> []"
proof
  assume e: "message_wire f = []"
  have "\<not> consume_more [] 0 s" using assms(2) by (auto simp: consume_more_def idle_def)
  then have "consume le [] s = (Ret (0, NoError), s)" by (simp add: consume_def consume_loop_end)
  then have "ready s" using assms e get_message_ready by (auto simp: delivers_def)
  then show False using idle_not_ready [OF assms(2)] by simp
qed

lemma frames_read:
  assumes "list_all2 (delivers (little_endian env) server max_size) fs ms" and "loop_inv (little_endian env) c"
    and "idle (m_processor c)" and "m_server (m_processor c) = server" and "m_max_message_size (m_processor c) = max_size"
  shows "\<exists>p. idle p \<and> m_server p = server \<and> m_max_message_size p = max_size \<and>
    handle_read_loop env (concat (map message_wire fs)) 0 c =
      Some (Ret (), read_frame (fold (\<lambda>m. dispatch_message env (Some m)) ms (with_processor p c)))"
  using assms
proof (induction fs ms arbitrary: c rule: list_all2_induct)
  case Nil
  then show ?case using read_loop_rounds(1) [OF Nil(1)] by (intro exI [of _ "m_processor c"]) simp
next
  case (Cons f fs m ms)
  let ?le = "little_endian env" and ?rest = "concat (map message_wire fs)"
  obtain t where t: "consume ?le (message_wire f) (m_processor c) = (Ret (length (message_wire f), NoError), t)"
    "fst (get_message t) = Ret (Some m)" "idle (snd (get_message t))"
    using Cons(1,5-7) by (auto simp: delivers_def)
  have s: "stream_inv ?le (m_processor c)" using Cons(4) by (simp add: loop_inv_def reading_inv_def)
  have rdy: "ready t" by (rule get_message_ready [OF t(2)])
  define u where "u = snd (get_message t)"
  have u: "get_message t = (Ret (Some m), u)" "idle u" "m_server u = server" "m_max_message_size u = max_size"
    using t(2,3) get_message_settings [of t] consume_settings [OF t(1)] Cons(6,7)
    by (simp_all add: u_def prod_eq_iff)
  let ?c = "dispatch_message env (Some m) (c\<lparr>m_processor := u\<rparr>)"
  note c = loop_inv_dispatch [OF Cons(4) idle_stream [OF u(2)] idle_not_ready [OF u(2)], of env "Some m"]
  have ne: "message_wire f @ ?rest \<noteq> []" using delivers_nonempty Cons(1,5-7) by fastforce
  have "handle_read_loop env (message_wire f @ ?rest) 0 c = handle_read_loop env ?rest 0 ?c"
    using read_loop_rounds(4) [OF Cons(4) ne consume_split(2) [OF s t(1) rdy] _ rdy u(1) c(1)] by simp
  moreover obtain p where p: "idle p" "m_server p = server" "m_max_message_size p = max_size"
    "handle_read_loop env ?rest 0 ?c = Some (Ret (), read_frame (fold (\<lambda>m. dispatch_message env (Some m)) ms (with_processor p ?c)))"
    using Cons.IH [OF c(1)] c(2) u by auto
  moreover have "with_processor p ?c = dispatch_message env (Some m) (with_processor p (c\<lparr>m_processor := u\<rparr>))"
    using blind_opD [OF blind_dispatch, of p "c\<lparr>m_processor := u\<rparr>" env "Some m"] p(2) u(3) by simp
  moreover have "with_processor p (c\<lparr>m_processor := u\<rparr>) = with_processor p c" by (simp add: with_processor_def)
  ultimately show ?case by auto
qed

lemma agree_continues: "agree r (Some (Ret (), d)) \<Longrightarrow> 0 < reads_pending d \<Longrightarrow> r = Some (Ret (), d)"
  unfolding agree_def by (metis option.inject prod.inject with_processor_sel(5))

lemma dispatch_all_effects:
  "m_con_state c \<noteq> SS_connecting \<Longrightarrow> con_effects c (fold (\<lambda>m. dispatch_message env (Some m)) ms c)"
proof (induction ms arbitrary: c)
  case (Cons m ms)
  have eff: "con_effects c (dispatch_message env (Some m) c)" by (rule dispatch_message_effects [OF Cons.prems])
  then have "m_con_state (dispatch_message env (Some m) c) \<noteq> SS_connecting"
    using fixed_fields_effects Cons.prems by blast
  from rtranclp_trans [OF eff Cons.IH [OF this]] show ?case by simp
qed simp

text \<open>However the transport cuts the bytes of the frames.\<close>

lemma frames_read_segments:
  assumes "list_all2 (delivers (little_endian env) server max_size) fs ms" and "reading env c" and "reads_pending c = 1"
    and "idle (m_processor c)" and "m_server (m_processor c) = server" and "m_max_message_size (m_processor c) = max_size"
    and "concat bufs = concat (map message_wire fs)"
  shows "\<exists>p. idle p \<and> m_server p = server \<and> m_max_message_size p = max_size \<and>
    read_segments env bufs c =
      Some (Ret (), read_frame (fold (\<lambda>m. dispatch_message env (Some m)) ms (with_processor p (c\<lparr>reads_pending := 0\<rparr>))))"
proof -
  let ?c = "c\<lparr>reads_pending := 0\<rparr>"
  have inv: "loop_inv (little_endian env) ?c" using assms(2) by (simp add: reading_def loop_inv_def reading_inv_def)
  obtain p where p: "idle p" "m_server p = server" "m_max_message_size p = max_size"
    "handle_read_loop env (concat bufs) 0 ?c =
      Some (Ret (), read_frame (fold (\<lambda>m. dispatch_message env (Some m)) ms (with_processor p ?c)))"
    using frames_read [OF assms(1) inv] assms(4-7) by auto
  let ?d = "fold (\<lambda>m. dispatch_message env (Some m)) ms (with_processor p ?c)"
  have "con_effects (with_processor p ?c) ?d"
    by (rule dispatch_all_effects) (use inv in \<open>simp add: loop_inv_def\<close>)
  then have "m_read_flag ?d = m_read_flag c"
    using fixed_fields_effects [of "with_processor p ?c" ?d] inv by (simp add: loop_inv_def fixed_fields_def)
  then have "0 < reads_pending (read_frame ?d)" using assms(2) by (simp add: read_frame_def reading_def)
  moreover have "handle_read_frame env NoError (concat bufs) ?c = handle_read_loop env (concat bufs) 0 ?c"
    using assms(2) by (simp add: handle_read_frame_def reading_def)
  ultimately have "read_segments env bufs c = Some (Ret (), read_frame ?d)"
    using segmentation_irrelevant [OF assms(2,3), of bufs] p(4) by (simp add: agree_continues)
  with p(1-3) show ?thesis by blast
qed

subsection \<open>From one application to the other\<close>

lemma idle_init: "idle (hybi13_init server max_size)"
  by (simp add: hybi13_init_def idle_def msg_metadata_of_def reset_headers_def
    MAX_EXTENDED_HEADER_LENGTH_def BASIC_HEADER_LENGTH_def)

lemma init_settings: "m_server (hybi13_init server max_size) = server" "m_max_message_size (hybi13_init server max_size) = max_size"
  by (simp_all add: hybi13_init_def reset_headers_def)

text \<open>Messages that can be sent, and received with this limit.\<close>

definition sendable :: "u64 \<Rightarrow> opcode \<times> bytes \<Rightarrow> bool" where
  "sendable max_size = (\<lambda>(op, payload). op \<in> {op_text, op_binary} \<and> (op = op_text \<longrightarrow> utf8_validate payload) \<and>
     length payload < 2 ^ 63 \<and> length payload \<le> unat max_size)"

lemma send_enqueue_frame:
  assumes "m_opcode m \<in> {op_text, op_binary}" and "m_fin m" and "m_opcode m = op_text \<longrightarrow> utf8_validate (m_payload m)"
    and "length (m_payload m) < 2 ^ 63" and "\<not> m_prepared m" and "length (m_payload m) \<le> unat max_size"
  shows "\<exists>f. send_enqueue env m c = (NoError, enqueue f c) \<and> \<not> m_terminal f \<and>
    delivers le (\<not> m_server (m_processor c)) max_size f (accepted_message (m_opcode m) (m_payload m))"
proof -
  let ?sv = "m_server (m_processor c)"
  note consumed = prepare_data_frame_consume [of m _ ?sv "little_endian env" "next_rng env c" "message_init 0" le, OF assms(1-4)]
  obtain f where f: "prepare_data_frame (little_endian env) ?sv (next_rng env c) (Some m) (Some (message_init 0)) = (NoError, Some f)"
    using consumed [of "hybi13_init (\<not> ?sv) max_size"] assms(6) by (auto simp: idle_init init_settings)
  then have "\<not> m_terminal f"
    using prepare_data_frame_result [OF f] by (simp add: message_init_def)
  moreover have "send_enqueue env m c = (NoError, enqueue f c)"
    using f assms(5) by (simp add: send_enqueue_def manager_get_blank_message_def enqueue_def)
  moreover have "delivers le (\<not> ?sv) max_size f (accepted_message (m_opcode m) (m_payload m))"
    using consumed f assms(6) by (auto simp: delivers_def)
  ultimately show ?thesis by blast
qed

lemma con_send_frame:
  assumes "m_con_state c = SS_open" and "sendable max_size (op, payload)"
  shows "\<exists>f. con_send env payload op c = (NoError, enqueue f c) \<and> \<not> m_terminal f \<and>
    delivers le (\<not> m_server (m_processor c)) max_size f (accepted_message op payload)"
  using send_enqueue_frame [of "set_compressed True (append_payload payload (message_init op))" max_size env c le] assms
  by (simp add: con_send_def send_message_def send_state_check_def message_setters message_init_def sendable_def)

definition send_all :: "'u environment \<Rightarrow> (opcode \<times> bytes) list \<Rightarrow> 'u connection \<Rightarrow> 'u connection" where
  "send_all env msgs c = fold (\<lambda>(op, payload) c. snd (con_send env payload op c)) msgs c"

lemma send_all_frames:
  assumes "m_con_state c = SS_open" and "list_all (sendable max_size) msgs"
  shows "\<exists>fs. outgoing (send_all env msgs c) = outgoing c @ fs \<and> in_transit (send_all env msgs c) = in_transit c @ fs \<and>
    (\<forall>f\<in>set fs. \<not> m_terminal f) \<and>
    list_all2 (delivers le (\<not> m_server (m_processor c)) max_size) fs (map (\<lambda>(op, payload). accepted_message op payload) msgs) \<and>
    m_con_state (send_all env msgs c) = SS_open \<and>
    (PostedInterrupt \<in> set (posted (send_all env msgs c)) \<longleftrightarrow> PostedInterrupt \<in> set (posted c))"
  using assms
proof (induction msgs arbitrary: c)
  case Nil
  then show ?case by (simp add: send_all_def)
next
  case (Cons msg msgs)
  obtain op payload where msg: "msg = (op, payload)" by fastforce
  obtain f where f: "con_send env payload op c = (NoError, enqueue f c)" "\<not> m_terminal f"
    "delivers le (\<not> m_server (m_processor c)) max_size f (accepted_message op payload)"
    using con_send_frame [of c max_size op payload env le] Cons.prems msg by auto
  have "send_all env (msg # msgs) c = send_all env msgs (enqueue f c)" by (simp add: send_all_def msg f(1))
  moreover obtain fs where "outgoing (send_all env msgs (enqueue f c)) = outgoing (enqueue f c) @ fs"
    "in_transit (send_all env msgs (enqueue f c)) = in_transit (enqueue f c) @ fs" "\<forall>f\<in>set fs. \<not> m_terminal f"
    "list_all2 (delivers le (\<not> m_server (m_processor c)) max_size) fs (map (\<lambda>(op, payload). accepted_message op payload) msgs)"
    "m_con_state (send_all env msgs (enqueue f c)) = SS_open"
    "PostedInterrupt \<in> set (posted (send_all env msgs (enqueue f c))) \<longleftrightarrow> PostedInterrupt \<in> set (posted (enqueue f c))"
    using Cons.IH [of "enqueue f c"] Cons.prems by auto
  ultimately show ?case
    using f(2,3) by (intro exI [of _ "f # fs"]) (auto simp: msg outgoing_def in_transit_def)
qed

lemma send_all_reachable: "con_reachable env c \<Longrightarrow> con_reachable env (send_all env msgs c)"
proof (induction msgs arbitrary: c)
  case (Cons msg msgs)
  obtain op payload where msg: "msg = (op, payload)" by fastforce
  have "con_step env c (snd (api_call env (Api_send payload op) c))" by (rule con_step.api)
  then have "con_reachable env (snd (con_send env payload op c))"
    using Cons.prems by (auto simp: api_call_def intro: reachable_step)
  then show ?case using Cons.IH by (simp add: send_all_def msg)
qed (simp add: send_all_def)

lemma reachable_reading:
  assumes "con_reachable env c" and "reads_pending c = 1" and "m_internal_state c = PROCESS_CONNECTION"
  shows "reading env c"
  using con_inv_reachable [OF assms(1)] assms(2,3)
  by (auto simp: con_inv_def read_inv_def reading_def loop_inv_def)

text \<open>
  An application sends messages over an open connection whose transport works; the other side
  reads what has been written since, in pieces of any size.
\<close>

lemma messages_delivered:
  assumes c: "con_reachable env c" "m_con_state c = SS_open" "PostedInterrupt \<notin> set (posted c)" "\<not> end_in_transit c"
    and msgs: "list_all (sendable (m_max_message_size (m_processor d))) msgs"
    and sent: "(transport_step env ^^ n) (send_all env msgs c) c'" "\<nexists>e. transport_step env c' e"
    and d: "con_reachable env' d" "m_internal_state d = PROCESS_CONNECTION" "reads_pending d = 1" "idle (m_processor d)"
      "m_server (m_processor d) = (\<not> m_server (m_processor c))"
    and bufs: "wire c' = concat (map message_wire (outgoing c)) @ concat bufs"
  shows "\<exists>p. idle p \<and> read_segments env' bufs d = Some (Ret (), read_frame
    (fold (\<lambda>(op, payload). dispatch_message env' (Some (accepted_message op payload))) msgs
      (with_processor p (d\<lparr>reads_pending := 0\<rparr>))))"
proof -
  let ?s = "send_all env msgs c"
  obtain fs where fs: "outgoing ?s = outgoing c @ fs" "in_transit ?s = in_transit c @ fs" "\<forall>f\<in>set fs. \<not> m_terminal f"
    "list_all2 (delivers (little_endian env') (\<not> m_server (m_processor c)) (m_max_message_size (m_processor d))) fs
       (map (\<lambda>(op, payload). accepted_message op payload) msgs)" "m_con_state ?s = SS_open"
    "PostedInterrupt \<notin> set (posted ?s)"
    using send_all_frames [OF c(2) msgs, of env "little_endian env'"] c(3) by auto
  have "\<not> end_in_transit ?s" using c(4) fs(2,3) by (auto simp: end_in_transit_def)
  then have "written c' = outgoing c @ fs"
    using everything_written [OF send_all_reachable [OF c(1)] fs(6), of n c'] fs(1,5) sent by simp
  then have "concat bufs = concat (map message_wire fs)" using bufs by (simp add: wire_def)
  from frames_read_segments [OF fs(4) reachable_reading [OF d(1,3,2)] d(3,4,5) refl this]
  show ?thesis by (auto simp: fold_map comp_def case_prod_unfold)
qed

end
