(* ===== verification/Ws_Connection_Closing.thy ===== *)
theory Ws_Connection_Closing
  imports Ws_Connection_Stream
begin

text \<open>
  How a connection ends: a protocol error is answered with a terminal close frame, after which
  nothing is read; a closing handshake tells both sides the same code and reason.
\<close>

subsection \<open>The errors of the processor\<close>

lemma validate_errors:
  "validate_incoming_basic_header h sv new = ec \<Longrightarrow> has_error ec \<Longrightarrow> \<exists>e. ec = ProcessorError e"
  "validate_incoming_extended_header le h x = ec \<Longrightarrow> has_error ec \<Longrightarrow> \<exists>e. ec = ProcessorError e"
  by (auto simp: validate_incoming_basic_header_def validate_incoming_extended_header_def Let_def split: if_splits)

lemma start_payload_errors: "start_payload le s = (Ret ec, t) \<Longrightarrow> has_error ec \<Longrightarrow> \<exists>e. ec = ProcessorError e"
  by (auto simp: start_payload_def Let_def split: if_splits option.splits)

lemma finalize_errors: "finalize_message s = (Ret ec, t) \<Longrightarrow> has_error ec \<Longrightarrow> \<exists>e. ec = ProcessorError e"
  by (auto simp: finalize_message_def Let_def pmd_is_enabled_def split: if_splits option.splits)

lemma process_payload_errors:
  "process_payload_bytes le buf s = (Ret (n, ec), t) \<Longrightarrow> has_error ec \<Longrightarrow> \<exists>e. ec = ProcessorError e"
  by (auto simp: process_payload_bytes_def Let_def pmd_is_enabled_def split: if_splits option.splits prod.splits)

lemma bindM_breaks:
  assumes "bindM m f s = (Ret (Break p ec), t)"
  obtains a u where "m s = (Ret a, u)" and "f a u = (Ret (Break p ec), t)"
  using assms by (auto simp: bindM_def split: prod.splits outcome.splits)

lemma consume_step_errors:
  assumes "breaks ec (consume_step le buf p s)"
  shows "\<exists>e. ec = ProcessorError e"
proof -
  obtain q t where step: "consume_step le buf p s = (Ret (Break q ec), t)" and err: "has_error ec"
    using assms by (auto simp: breaks_def)
  show ?thesis
  proof (cases "m_hstate s")
    case HEADER_BASIC
    then show ?thesis
      using step validate_errors(1)
      by (auto simp: consume_step_def consume_basic_header_def Let_def split: prod.splits if_splits)
  next
    case HEADER_EXTENDED
    then show ?thesis
      using step validate_errors(2) start_payload_errors
      by (auto simp: consume_step_def consume_extended_header_def Let_def ret_def elim!: bindM_breaks split: if_splits)
  next
    case APPLICATION
    then show ?thesis
      using step process_payload_errors finalize_errors
      by (auto simp: consume_step_def consume_payload_def Let_def ret_def elim!: bindM_breaks split: if_splits)
  qed (use step in \<open>auto simp: consume_step_def\<close>)
qed

lemma consume_loop_errors:
  "stream_inv le s \<Longrightarrow> p \<le> length buf \<Longrightarrow> fails ec (consume_loop le buf p s) \<Longrightarrow> \<exists>e. ec = ProcessorError e"
proof (induction "5 * (length buf - p) + consume_rank s" arbitrary: p s rule: less_induct)
  case less
  have more: "consume_more buf p s" using less.prems(3) consume_loop_end by (fastforce simp: fails_def)
  from fails_cases [OF less.prems(1,2) more, of ec] less.prems(3)
  consider "breaks ec (consume_step le buf p s)"
    | q t where "consume_step le buf p s = (Ret (Continue q), t)" "fails ec (consume_loop le buf q t)" by blast
  then show ?case
  proof cases
    case 1
    then show ?thesis by (rule consume_step_errors)
  next
    case 2
    then show ?thesis
      using less.hyps [OF _ consume_step_stream [OF less.prems(1) more less.prems(2) 2(1)] _ 2(2)]
        consume_step_progress [OF 2(1) more less.prems(2)] by simp
  qed
qed

lemma consume_errors: "stream_inv le s \<Longrightarrow> fails ec (consume le buf s) \<Longrightarrow> \<exists>e. ec = ProcessorError e"
  using consume_loop_errors [of le s 0 buf ec] by (simp add: consume_def)

subsection \<open>Sending a close frame\<close>

definition sendable_close :: "close_code \<Rightarrow> bytes \<Rightarrow> bool" where
  "sendable_close code reason \<longleftrightarrow> \<not> close_reserved code \<and>
     (if code = cs_no_status then reason = [] else \<not> close_invalid code) \<and> length reason \<le> 123"

lemma close_payload_length: "sendable_close code reason \<Longrightarrow> length (close_payload le code reason) \<le> 125"
  by (simp add: close_payload_def sendable_close_def)

lemma prepare_close_sendable:
  assumes "sendable_close code reason"
  shows "prepare_close le server r code reason out = prepare_control le server r op_close (close_payload le code reason) out"
  using assms by (auto simp: prepare_close_def sendable_close_def payload_size_basic_def)

lemma delivers_terminal [simp]: "delivers le server mx (set_terminal b f) m = delivers le server mx f m"
  by (simp add: delivers_def message_wire_def set_terminal_def)

lemma prepare_close_frame:
  assumes "sendable_close code reason"
  shows "\<exists>f. prepare_close le server r code reason (Some (message_init 0)) = (NoError, Some f) \<and>
    m_opcode f = op_close \<and> \<not> m_terminal f \<and>
    (\<forall>le' mx. delivers le' (\<not> server) mx f (accepted_message op_close (close_payload le code reason)))"
proof -
  have op: "op_close \<in> {op_close, op_ping, op_pong}" by simp
  note consumed = prepare_control_consume [OF op close_payload_length [OF assms, of le]]
  obtain f where f: "prepare_control le server r op_close (close_payload le code reason) (Some (message_init 0)) = (NoError, Some f)"
    using consumed [of "hybi13_init (\<not> server) 0" server le r "message_init 0"] by (auto simp: idle_init init_settings)
  have "m_opcode f = op_close" "\<not> m_terminal f"
    using prepare_control_result [OF f] by (simp_all add: message_init_def)
  moreover have "delivers le' (\<not> server) mx f (accepted_message op_close (close_payload le code reason))" for le' mx
    unfolding delivers_def using consumed [of _ server le r "message_init 0" le'] f by fastforce
  ultimately show ?thesis using f prepare_close_sendable [OF assms] by auto
qed

lemma enqueue_close_sel [simp]:
  "m_local_close_code (enqueue f c) = m_local_close_code c" "m_local_close_reason (enqueue f c) = m_local_close_reason c"
  "m_remote_close_code (enqueue f c) = m_remote_close_code c" "m_remote_close_reason (enqueue f c) = m_remote_close_reason c"
  "m_was_clean (enqueue f c) = m_was_clean c"
  by (simp_all add: enqueue_def dispatch_write_def write_push_def count_frame_def)

text \<open>What queueing a close frame leaves in the connection.\<close>

definition closing_with :: "'u connection \<Rightarrow> close_code \<Rightarrow> bytes \<Rightarrow> bool \<Rightarrow> ws_message \<Rightarrow> 'u connection \<Rightarrow> bool" where
  "closing_with c lc lr clean f c' \<longleftrightarrow> (\<exists>ht. c' = enqueue f (c\<lparr>m_local_close_code := lc, m_local_close_reason := lr,
     m_was_clean := clean, m_handshake_timer := ht, m_con_state := SS_closing\<rparr>))"

lemma closing_with_sel:
  assumes "closing_with c lc lr clean f c'"
  shows "outgoing c' = outgoing c @ [f]" "in_transit c' = in_transit c @ [f]" "m_con_state c' = SS_closing"
    "m_local_close_code c' = lc" "m_local_close_reason c' = lr" "m_was_clean c' = clean"
    "m_remote_close_code c' = m_remote_close_code c" "m_remote_close_reason c' = m_remote_close_reason c"
    "m_processor c' = m_processor c" "m_is_server c' = m_is_server c" "reads_pending c' = reads_pending c"
    "m_read_flag c' = m_read_flag c" "m_internal_state c' = m_internal_state c"
    "PostedInterrupt \<in> set (posted c') \<longleftrightarrow> PostedInterrupt \<in> set (posted c)"
  using assms by (auto simp: closing_with_def outgoing_def in_transit_def split: if_splits)

lemma send_close_frame_sends:
  assumes "local_close code reason ack c = (lc, lr)" and "sendable_close lc lr"
  shows "\<exists>f c'. send_close_frame env code reason ack terminal c = (NoError, c') \<and>
    closing_with c lc lr (ack \<or> m_was_clean c) f c' \<and> m_opcode f = op_close \<and> m_terminal f = terminal \<and>
    (\<forall>le mx. delivers le (\<not> m_server (m_processor c)) mx f
       (accepted_message op_close (close_payload (little_endian env) lc lr)))"
proof -
  let ?c = "c\<lparr>m_local_close_code := lc, m_local_close_reason := lr\<rparr>"
  obtain f where f: "prepare_close (little_endian env) (m_server (m_processor c)) (next_rng env ?c) lc lr (Some (message_init 0)) = (NoError, Some f)"
    "m_opcode f = op_close" "\<not> m_terminal f"
    "\<forall>le mx. delivers le (\<not> m_server (m_processor c)) mx f (accepted_message op_close (close_payload (little_endian env) lc lr))"
    using prepare_close_frame [OF assms(2)] by blast
  let ?f = "if terminal then set_terminal True f else f"
  have "\<exists>c'. send_close_frame env code reason ack terminal c = (NoError, c') \<and>
      closing_with c lc lr (ack \<or> m_was_clean c) ?f c'"
    using assms(1) f(1) by (cases c)
      (auto simp: send_close_frame_def manager_get_blank_message_def closing_with_def enqueue_def Let_def)
  moreover have "m_opcode ?f = op_close" "m_terminal ?f = terminal" using f(2,3) by (simp_all add: message_setters)
  moreover have "\<forall>le mx. delivers le (\<not> m_server (m_processor c)) mx ?f
      (accepted_message op_close (close_payload (little_endian env) lc lr))" using f(4) by simp
  ultimately show ?thesis by blast
qed

subsection \<open>Protocol errors\<close>

definition error_reason :: "error_code \<Rightarrow> bytes" where
  "error_reason ec = take 123 (str (error_message ec))"

lemma protocol_error_answered:
  assumes "reading env c" and "reads_pending c = 0" and "m_con_state c = SS_open" and "buf \<noteq> []"
    and "fails ec (consume (little_endian env) buf (m_processor c))"
  shows "\<exists>f c'. handle_read_frame env NoError buf c = Some (Ret (), c') \<and> outgoing c' = outgoing c @ [f] \<and>
    m_opcode f = op_close \<and> m_terminal f \<and> end_in_transit c' \<and> m_con_state c' = SS_closing \<and> reads_pending c' = 0 \<and>
    (PostedInterrupt \<in> set (posted c') \<longleftrightarrow> PostedInterrupt \<in> set (posted c)) \<and>
    m_local_close_code c' = to_ws ec \<and>
    (\<forall>le mx. delivers le (\<not> m_server (m_processor c)) mx f
       (accepted_message op_close (close_payload (little_endian env) (to_ws ec) (error_reason ec))))"
proof -
  have inv: "loop_inv (little_endian env) c" using assms(1) by (simp add: reading_def)
  then have "stream_inv (little_endian env) (m_processor c)" by (simp add: loop_inv_def reading_inv_def)
  from consume_errors [OF this assms(5)] obtain e where e: "ec = ProcessorError e" by blast
  obtain t where t: "handle_read_loop env buf 0 c = Some (Ret (), handle_consume_error env ec (c\<lparr>m_processor := t\<rparr>))"
    "m_server t = m_server (m_processor c)"
    using read_loop_fails [OF inv assms(5,4)] by blast
  let ?c = "c\<lparr>m_processor := t\<rparr>"
  note ok = to_ws_sendable [of e]
  have code: "to_ws ec \<noteq> cs_blank" "to_ws ec \<noteq> cs_no_status"
    using to_ws_values [of e] e by (auto simp: close_codes)
  have s: "sendable_close (to_ws ec) (error_reason ec)"
    using ok code by (simp add: sendable_close_def e error_reason_def)
  have l: "local_close (to_ws ec) (error_reason ec) False ?c = (to_ws ec, error_reason ec)"
    using code by (simp add: local_close_def silent_close_def)
  have tr: "take (min (length (str (error_message ec))) (unat close_reason_size)) (str (error_message ec)) = error_reason ec"
    by (simp add: error_reason_def close_reason_size_def min_def)
  obtain f c' where f: "send_close_frame env (to_ws ec) (error_reason ec) False (close_terminal (to_ws ec)) ?c = (NoError, c')"
    "closing_with ?c (to_ws ec) (error_reason ec) (m_was_clean c) f c'" "m_opcode f = op_close" "m_terminal f"
    "\<forall>le mx. delivers le (\<not> m_server t) mx f
       (accepted_message op_close (close_payload (little_endian env) (to_ws ec) (error_reason ec)))"
    using send_close_frame_sends [OF l s, of env "close_terminal (to_ws ec)"] ok(1) e by auto
  have "handle_consume_error env ec ?c = c'"
    using f(1) assms(3) tr by (simp add: handle_consume_error_def drop_on_protocol_error_def connection_close_def Let_def)
  then have "handle_read_frame env NoError buf c = Some (Ret (), c')"
    using t(1) assms(1) by (simp add: handle_read_frame_def reading_def)
  moreover note sel = closing_with_sel [OF f(2)]
  moreover have "end_in_transit c'" using sel(2) f(4) by (auto simp: end_in_transit_def)
  ultimately show ?thesis using f(3-5) t(2) assms(2) by (intro exI [of _ f] exI [of _ c']) (auto simp: outgoing_def)
qed

subsection \<open>The closing handshake\<close>

lemma prepare_close_unsendable:
  "length reason \<le> 123 \<Longrightarrow> \<not> sendable_close code reason \<Longrightarrow> has_error (fst (prepare_close le server r code reason out))"
  by (auto simp: prepare_close_def sendable_close_def split: if_splits)

lemma connection_close_succeeds:
  assumes "connection_close env code reason c = (NoError, c')"
  shows "m_con_state c = SS_open \<and> (\<exists>lc lr f. sendable_close lc lr \<and> closing_with c lc lr (m_was_clean c) f c' \<and>
    m_opcode f = op_close \<and>
    (\<forall>le mx. delivers le (\<not> m_server (m_processor c)) mx f
       (accepted_message op_close (close_payload (little_endian env) lc lr))))"
proof -
  let ?tr = "take (min (length reason) (unat close_reason_size)) reason"
  have o: "m_con_state c = SS_open" and
    s: "send_close_frame env code ?tr False (close_terminal code) c = (NoError, c')"
    using assms by (auto simp: connection_close_def Let_def split: if_splits)
  obtain lc lr where l: "local_close code ?tr False c = (lc, lr)" by fastforce
  have "sendable_close lc lr"
  proof (rule ccontr)
    assume n: "\<not> sendable_close lc lr"
    have "length ?tr \<le> 123" by (simp add: close_reason_size_def)
    then have "length lr \<le> 123" using l by (auto simp: local_close_def silent_close_def split: if_splits)
    then have "has_error (fst (prepare_close (little_endian env) (m_server (m_processor c)) (next_rng env c) lc lr (Some (message_init 0))))"
      using n by (rule prepare_close_unsendable)
    then show False
      using s l by (auto simp: send_close_frame_def manager_get_blank_message_def next_rng_def Let_def split: prod.splits)
  qed
  from send_close_frame_sends [OF l this, of env "close_terminal code"] s \<open>sendable_close lc lr\<close> o
  show ?thesis by auto
qed

text \<open>The code and reason read from the payload that was written.\<close>

lemma extract_sendable:
  assumes "sendable_close code reason"
  shows "extract_code le' (close_payload le code reason) = (code, NoError)"
    and "utf8_validate reason \<Longrightarrow> extract_reason (close_payload le code reason) = (reason, NoError)"
proof -
  show "extract_code le' (close_payload le code reason) = (code, NoError)"
  proof (cases "code = cs_no_status")
    case True
    then show ?thesis by (simp add: close_payload_def extract_code_def)
  next
    case False
    then show ?thesis using assms extract_close_payload(1) by (simp add: sendable_close_def)
  qed
  assume u: "utf8_validate reason"
  show "extract_reason (close_payload le code reason) = (reason, NoError)"
  proof (cases "code = cs_no_status")
    case True
    then show ?thesis using assms u by (simp add: close_payload_def extract_reason_def sendable_close_def)
  next
    case False
    then show ?thesis
      using assms extract_close_payload(2,3) [of code le reason] u by (simp add: sendable_close_def prod_eq_iff)
  qed
qed

lemma dispatch_close:
  "m_con_state c \<noteq> SS_closed \<Longrightarrow> dispatch_message env (Some (accepted_message op_close payload)) c = process_close_frame env payload c"
  by (simp add: dispatch_message_def accepted_message_def message_init_def opcode_close_control process_control_frame_def opcode_ping_pong)

definition with_remote :: "close_code \<Rightarrow> bytes \<Rightarrow> 'u connection \<Rightarrow> 'u connection" where
  "with_remote code reason c = c\<lparr>m_remote_close_code := code, m_remote_close_reason := reason\<rparr>"

definition ack_code :: "close_code \<Rightarrow> close_code" where
  "ack_code code = (if code = cs_no_status then cs_normal else code)"

lemma sendable_ack: "sendable_close code reason \<Longrightarrow> sendable_close (ack_code code) reason"
  by (cases "code = cs_no_status")
    (simp_all add: sendable_close_def ack_code_def close_reserved_def close_invalid_def close_codes)

lemma close_received_open:
  assumes "m_con_state c = SS_open" and "sendable_close code reason" and "utf8_validate reason"
  shows "\<exists>g. closing_with (with_remote code reason c) (ack_code code) reason True g
      (process_close_frame env (close_payload le code reason) c) \<and> m_terminal g = m_is_server c \<and>
    (\<forall>le' mx. delivers le' (\<not> m_server (m_processor c)) mx g
       (accepted_message op_close (close_payload (little_endian env) (ack_code code) reason)))"
proof -
  let ?c = "with_remote code reason c"
  have "process_close_frame env (close_payload le code reason) c = snd (send_close_ack env cs_blank [] ?c)"
    using assms(1) extract_sendable(1) [OF assms(2), of "little_endian env" le] extract_sendable(2) [OF assms(2,3), of le]
    by (simp add: process_close_frame_def with_remote_def)
  moreover have "local_close cs_blank [] True ?c = (ack_code code, reason)"
    using assms(2) by (simp add: local_close_def silent_close_def with_remote_def ack_code_def sendable_close_def)
  from send_close_frame_sends [OF this sendable_ack [OF assms(2)], of env "m_is_server ?c"]
  obtain g c' where "send_close_frame env cs_blank [] True (m_is_server ?c) ?c = (NoError, c')"
    "closing_with ?c (ack_code code) reason True g c'" "m_terminal g = m_is_server ?c"
    "\<forall>le' mx. delivers le' (\<not> m_server (m_processor ?c)) mx g
       (accepted_message op_close (close_payload (little_endian env) (ack_code code) reason))" by auto
  ultimately show ?thesis by (auto simp: send_close_ack_def with_remote_def)
qed

lemma close_received_closing:
  assumes "m_con_state c = SS_closing" and "\<not> m_was_clean c" and "sendable_close code reason" and "utf8_validate reason"
  shows "process_close_frame env (close_payload le code reason) c =
    (let c' = (with_remote code reason c)\<lparr>m_was_clean := True\<rparr> in if m_is_server c then terminate NoError c' else c')"
  using assms(1,2) extract_sendable(1) [OF assms(3), of "little_endian env" le] extract_sendable(2) [OF assms(3,4), of le]
  by (simp add: process_close_frame_def with_remote_def Let_def)

text \<open>One close frame, read in any pieces.\<close>

lemma close_frame_read:
  assumes "delivers (little_endian env) (m_server (m_processor c)) (m_max_message_size (m_processor c)) f
      (accepted_message op_close payload)"
    and "reading env c" and "reads_pending c = 1" and "idle (m_processor c)" and "m_con_state c \<noteq> SS_closed"
    and "concat bufs = message_wire f"
  shows "\<exists>p. idle p \<and> m_server p = m_server (m_processor c) \<and> m_max_message_size p = m_max_message_size (m_processor c) \<and>
    read_segments env bufs c =
      Some (Ret (), read_frame (process_close_frame env payload (with_processor p (c\<lparr>reads_pending := 0\<rparr>))))"
proof -
  have "list_all2 (delivers (little_endian env) (m_server (m_processor c)) (m_max_message_size (m_processor c))) [f]
      [accepted_message op_close payload]" using assms(1) by simp
  from frames_read_segments [OF this assms(2-4) refl refl, of bufs] assms(5,6)
  show ?thesis by (auto simp: dispatch_close)
qed

lemma with_remote_sel [simp]:
  "m_con_state (with_remote code reason c) = m_con_state c" "m_is_server (with_remote code reason c) = m_is_server c"
  "m_processor (with_remote code reason c) = m_processor c" "m_remote_close_code (with_remote code reason c) = code"
  "m_remote_close_reason (with_remote code reason c) = reason" "m_was_clean (with_remote code reason c) = m_was_clean c"
  "outgoing (with_remote code reason c) = outgoing c" "m_local_close_code (with_remote code reason c) = m_local_close_code c"
  "m_read_flag (with_remote code reason c) = m_read_flag c"
  by (simp_all add: with_remote_def outgoing_def)

lemma read_frame_sel [simp]:
  "m_con_state (read_frame c) = m_con_state c" "m_was_clean (read_frame c) = m_was_clean c"
  "m_remote_close_code (read_frame c) = m_remote_close_code c" "m_remote_close_reason (read_frame c) = m_remote_close_reason c"
  "m_local_close_code (read_frame c) = m_local_close_code c" "m_local_close_reason (read_frame c) = m_local_close_reason c"
  "outgoing (read_frame c) = outgoing c"
  by (simp_all add: read_frame_def outgoing_def)

lemma terminate_remote [simp]:
  "m_remote_close_code (terminate ec c) = m_remote_close_code c" "m_remote_close_reason (terminate ec c) = m_remote_close_reason c"
  "m_was_clean (terminate ec c) = m_was_clean c"
  by (auto simp: terminate_def Let_def async_shutdown_def split: session_status.split)

text \<open>
  \<open>a\<close> calls \<open>close\<close> and \<open>b\<close> answers; each reads the frame of the other.
\<close>

lemma closing_handshake:
  assumes "connection_close env code reason a = (NoError, a1)" and clean: "\<not> m_was_clean a"
    and utf8: "utf8_validate (m_local_close_reason a1)"
    and a: "reading env a1" "reads_pending a1 = 1" "idle (m_processor a1)"
    and b: "reading env' b" "reads_pending b = 1" "idle (m_processor b)" "m_con_state b = SS_open"
      "m_server (m_processor b) = (\<not> m_server (m_processor a))"
  shows "\<exists>f. outgoing a1 = outgoing a @ [f] \<and> (\<forall>bufs. concat bufs = message_wire f \<longrightarrow>
    (\<exists>b1 g. read_segments env' bufs b = Some (Ret (), b1) \<and> outgoing b1 = outgoing b @ [g] \<and>
       m_terminal g = m_is_server b \<and> m_con_state b1 = SS_closing \<and> m_was_clean b1 \<and>
       m_remote_close_code b1 = m_local_close_code a1 \<and> m_remote_close_reason b1 = m_local_close_reason a1 \<and>
       (\<forall>bufs'. concat bufs' = message_wire g \<longrightarrow>
         (\<exists>a2. read_segments env bufs' a1 = Some (Ret (), a2) \<and> m_was_clean a2 \<and>
            m_remote_close_code a2 = m_local_close_code b1 \<and> m_remote_close_reason a2 = m_local_close_reason b1 \<and>
            m_con_state a2 = (if m_is_server a then SS_closed else SS_closing)))))"
proof -
  let ?le = "little_endian env" and ?le' = "little_endian env'"
  obtain lc lr f where s: "sendable_close lc lr" and f: "closing_with a lc lr (m_was_clean a) f a1"
    and df: "\<forall>le mx. delivers le (\<not> m_server (m_processor a)) mx f (accepted_message op_close (close_payload ?le lc lr))"
    using connection_close_succeeds [OF assms(1)] by blast
  note a1 = closing_with_sel [OF f]
  have u: "utf8_validate lr" using utf8 a1 by simp
  have answer: "\<exists>b1 g. read_segments env' bufs b = Some (Ret (), b1) \<and> outgoing b1 = outgoing b @ [g] \<and>
       m_terminal g = m_is_server b \<and> m_con_state b1 = SS_closing \<and> m_was_clean b1 \<and>
       m_remote_close_code b1 = lc \<and> m_remote_close_reason b1 = lr \<and>
       m_local_close_code b1 = ack_code lc \<and> m_local_close_reason b1 = lr \<and>
       (\<forall>le mx. delivers le (\<not> m_server (m_processor b)) mx g (accepted_message op_close (close_payload ?le' (ack_code lc) lr)))"
    if bufs: "concat bufs = message_wire f" for bufs
  proof -
    obtain p where p: "m_server p = m_server (m_processor b)" "read_segments env' bufs b =
        Some (Ret (), read_frame (process_close_frame env' (close_payload ?le lc lr) (with_processor p (b\<lparr>reads_pending := 0\<rparr>))))"
      using close_frame_read [of env' b f "close_payload ?le lc lr" bufs] df b bufs by auto
    let ?b = "with_processor p (b\<lparr>reads_pending := 0\<rparr>)"
    have "m_con_state ?b = SS_open" using b(4) by simp
    from close_received_open [OF this s u, of env' ?le] obtain g where
      g: "closing_with (with_remote lc lr ?b) (ack_code lc) lr True g (process_close_frame env' (close_payload ?le lc lr) ?b)"
        "m_terminal g = m_is_server b"
        "\<forall>le mx. delivers le (\<not> m_server (m_processor b)) mx g (accepted_message op_close (close_payload ?le' (ack_code lc) lr))"
      using p(1) by auto
    have "outgoing ?b = outgoing b" by (simp add: outgoing_def with_processor_def)
    then show ?thesis
      using p(2) g(2,3) closing_with_sel [OF g(1)]
      by (intro exI [of _ "read_frame (process_close_frame env' (close_payload ?le lc lr) ?b)"] exI [of _ g]) simp
  qed
  have echoed: "\<exists>a2. read_segments env bufs' a1 = Some (Ret (), a2) \<and> m_was_clean a2 \<and>
            m_remote_close_code a2 = ack_code lc \<and> m_remote_close_reason a2 = lr \<and>
            m_con_state a2 = (if m_is_server a then SS_closed else SS_closing)"
    if g: "\<forall>le mx. delivers le (\<not> m_server (m_processor b)) mx g (accepted_message op_close (close_payload ?le' (ack_code lc) lr))"
      and bufs: "concat bufs' = message_wire g" for g bufs'
  proof -
    obtain p where p: "read_segments env bufs' a1 =
        Some (Ret (), read_frame (process_close_frame env (close_payload ?le' (ack_code lc) lr) (with_processor p (a1\<lparr>reads_pending := 0\<rparr>))))"
      using close_frame_read [of env a1 g "close_payload ?le' (ack_code lc) lr" bufs'] g a a1 b(5) bufs by auto
    let ?a = "with_processor p (a1\<lparr>reads_pending := 0\<rparr>)"
    have "m_con_state ?a = SS_closing" "\<not> m_was_clean ?a" using a1 clean by simp_all
    from close_received_closing [OF this sendable_ack [OF s] u, of env ?le'] p a1
    show ?thesis by (simp add: Let_def)
  qed
  show ?thesis
  proof (rule exI [of _ f], intro conjI allI impI)
    show "outgoing a1 = outgoing a @ [f]" by (rule a1(1))
    fix bufs assume "concat bufs = message_wire f"
    from answer [OF this] obtain b1 g where bg: "read_segments env' bufs b = Some (Ret (), b1)" "outgoing b1 = outgoing b @ [g]"
      "m_terminal g = m_is_server b" "m_con_state b1 = SS_closing" "m_was_clean b1"
      "m_remote_close_code b1 = lc" "m_remote_close_reason b1 = lr"
      "m_local_close_code b1 = ack_code lc" "m_local_close_reason b1 = lr"
      "\<forall>le mx. delivers le (\<not> m_server (m_processor b)) mx g (accepted_message op_close (close_payload ?le' (ack_code lc) lr))"
      by blast
    have "\<forall>bufs'. concat bufs' = message_wire g \<longrightarrow>
         (\<exists>a2. read_segments env bufs' a1 = Some (Ret (), a2) \<and> m_was_clean a2 \<and>
            m_remote_close_code a2 = m_local_close_code b1 \<and> m_remote_close_reason a2 = m_local_close_reason b1 \<and>
            m_con_state a2 = (if m_is_server a then SS_closed else SS_closing))"
      using echoed [OF bg(10)] bg(8,9) by simp
    with bg(1-7) a1(4,5) show "\<exists>b1 g. read_segments env' bufs b = Some (Ret (), b1) \<and> outgoing b1 = outgoing b @ [g] \<and>
       m_terminal g = m_is_server b \<and> m_con_state b1 = SS_closing \<and> m_was_clean b1 \<and>
       m_remote_close_code b1 = m_local_close_code a1 \<and> m_remote_close_reason b1 = m_local_close_reason a1 \<and>
       (\<forall>bufs'. concat bufs' = message_wire g \<longrightarrow>
         (\<exists>a2. read_segments env bufs' a1 = Some (Ret (), a2) \<and> m_was_clean a2 \<and>
            m_remote_close_code a2 = m_local_close_code b1 \<and> m_remote_close_reason a2 = m_local_close_reason b1 \<and>
            m_con_state a2 = (if m_is_server a then SS_closed else SS_closing)))"
      by (intro exI [of _ b1] exI [of _ g] conjI) simp_all
  qed
qed

subsection \<open>What the closing handshake does not prevent\<close>

text \<open>
  \<open>send\<close> checks the state and queues the message under different locks. If another thread closes
  the connection in between, the message follows the close frame.
\<close>

lemma order_inv_after:
  assumes "order_inv c" and "outgoing c = xs @ m # ys" and "m_opcode m = op_close"
  shows "\<forall>d\<in>set ys. m_opcode d = op_close"
proof -
  obtain us vs where u: "outgoing c = us @ vs" "\<forall>m\<in>set us. m_opcode m \<noteq> op_close" "\<forall>m\<in>set vs. m_opcode m = op_close"
    using assms(1) unfolding order_inv_def by blast
  have eq: "us @ vs = xs @ m # ys" using u(1) assms(2) by simp
  then consider zs where "us = xs @ zs" "zs @ vs = m # ys" | zs where "us @ zs = xs" "vs = zs @ m # ys"
    by (auto simp: append_eq_append_conv2)
  then show ?thesis
  proof cases
    case 1
    then show ?thesis using u(2,3) assms(3) by (cases zs) auto
  next
    case 2
    then show ?thesis using u(3) by simp
  qed
qed

lemma send_race:
  assumes "connection_close env code reason c = (NoError, c2)" and "send_enqueue env msg c2 = (NoError, c3)" and "\<not> m_prepared msg"
  shows "send_state_check c = NoError \<and> has_error (send_state_check c2) \<and> \<not> order_inv c3 \<and>
    (\<exists>f d. outgoing c3 = outgoing c @ [f, d] \<and> m_opcode f = op_close \<and> m_opcode d = m_opcode msg \<and> m_opcode d \<noteq> op_close)"
proof -
  obtain lc lr f where open_c: "m_con_state c = SS_open" and f: "closing_with c lc lr (m_was_clean c) f c2" "m_opcode f = op_close"
    using connection_close_succeeds [OF assms(1)] by blast
  note c2 = closing_with_sel [OF f(1)]
  obtain ec out where p: "prepare_data_frame (little_endian env) (m_server (m_processor c2)) (next_rng env c2) (Some msg)
      (Some (message_init 0)) = (ec, out)" by fastforce
  then have "\<not> has_error ec" using assms(2,3) by (auto simp: send_enqueue_def manager_get_blank_message_def split: if_splits)
  then obtain d where d: "out = Some d" "m_opcode d = m_opcode msg" "\<not> opcode_is_control (m_opcode d)"
    using prepare_data_frame_result [OF p] by auto
  then have c3: "c3 = enqueue d c2"
    using assms(2,3) p \<open>\<not> has_error ec\<close> by (simp add: send_enqueue_def manager_get_blank_message_def enqueue_def)
  have o: "outgoing c3 = outgoing c @ [f, d]" using c2(1) by (simp add: c3 outgoing_def)
  have nd: "m_opcode d \<noteq> op_close" using d(3) opcode_close_control by auto
  then have "\<not> order_inv c3" using order_inv_after [of c3 "outgoing c" f "[d]"] o f(2) by auto
  with open_c c2(3) o f(2) d(2) nd show ?thesis by (auto simp: send_state_check_def)
qed

text \<open>
  The reason is cut after 123 bytes, wherever that is in a character: what the peer gets is then
  not UTF-8, which it answers as a protocol error.
\<close>

lemma close_rejected:
  assumes "m_con_state c = SS_open" and "sendable_close code reason" and "\<not> utf8_validate reason" and "code \<noteq> cs_no_status"
  shows "\<exists>g. closing_with (with_remote code reason c) cs_protocol_error (str ''Invalid close reason'') True g
      (process_close_frame env (close_payload le code reason) c) \<and> m_terminal g = m_is_server c"
proof -
  let ?c = "with_remote code reason c" and ?r = "str ''Invalid close reason''"
  have "extract_reason (close_payload le code reason) = (reason, WsError WE_invalid_utf8)"
    using extract_close_payload(2,3) [of code le reason] assms(2-4)
    by (auto simp: sendable_close_def extract_reason_def Let_def split: if_splits)
  then have "process_close_frame env (close_payload le code reason) c = snd (send_close_ack env cs_protocol_error ?r ?c)"
    using extract_sendable(1) [OF assms(2), of "little_endian env" le] assms(1)
    by (simp add: process_close_frame_def with_remote_def drop_on_protocol_error_def Let_def)
  moreover have "local_close cs_protocol_error ?r True ?c = (cs_protocol_error, ?r)"
    by (simp add: local_close_def silent_close_def close_codes)
  moreover have "sendable_close cs_protocol_error ?r"
    by (simp add: sendable_close_def close_reserved_def close_invalid_def close_codes str_def)
  ultimately show ?thesis
    using send_close_frame_sends [of cs_protocol_error ?r True ?c cs_protocol_error ?r env "m_is_server ?c"]
    by (auto simp: send_close_ack_def)
qed

lemma close_reason_cut:
  assumes "m_con_state c = SS_open" and "\<not> close_reserved code" and "\<not> close_invalid code"
  shows "\<exists>c'. connection_close env code reason c = (NoError, c') \<and> m_local_close_code c' = code \<and>
    m_local_close_reason c' = take 123 reason"
proof -
  have code: "code \<noteq> cs_blank" "code \<noteq> cs_no_status" using assms(3) by (auto simp: close_invalid_def close_codes)
  have tr: "take (min (length reason) (unat close_reason_size)) reason = take 123 reason"
    by (simp add: close_reason_size_def min_def)
  have l: "local_close code (take 123 reason) False c = (code, take 123 reason)"
    using code by (simp add: local_close_def silent_close_def)
  have "sendable_close code (take 123 reason)" using assms(2,3) code by (simp add: sendable_close_def)
  from send_close_frame_sends [OF l this, of env "close_terminal code"] obtain f c' where
    "send_close_frame env code (take 123 reason) False (close_terminal code) c = (NoError, c')"
    "closing_with c code (take 123 reason) (False \<or> m_was_clean c) f c'" by blast
  then show ?thesis using assms(1) tr closing_with_sel(4,5) by (auto simp: connection_close_def Let_def)
qed

end
