(* ===== verification/Ws_Http_Message.thy ===== *)
theory Ws_Http_Message
  imports Ws_Http_Parser
begin

text \<open>
  The class \<open>parser\<close> of \<open>WebSocketPP/websocketpp/http/parser.hpp\<close> and \<open>http/impl/parser.hpp\<close>,
  the base of requests and responses: version, headers, body. The headers are a
  \<open>std::map\<close> ordered by \<open>ci_less\<close>, here the list of its entries in order; the locale
  \<open>dictionary\<close> states what a map promises and the list is an interpretation of it.
\<close>

subsection \<open>Outcomes\<close>

text \<open>A call returns, throws \<open>http::exception\<close>, or has undefined behaviour.\<close>

datatype 'a http_result = HRet 'a | HThrow http_exception | HUndefined

fun hbind :: "'a http_result \<Rightarrow> ('a \<Rightarrow> 'b http_result) \<Rightarrow> 'b http_result" where
  "hbind (HRet a) f = f a"
| "hbind (HThrow e) f = HThrow e"
| "hbind HUndefined f = HUndefined"

definition http_throw :: "string \<Rightarrow> status_code \<Rightarrow> 'a http_result" where
  "http_throw msg code =
     HThrow \<lparr>m_msg = msg, m_error_msg = '''', m_error_body = '''', m_error_code = code\<rparr>"

lemma hbind_eq_HRet: "hbind m f = HRet b \<longleftrightarrow> (\<exists>a. m = HRet a \<and> f a = HRet b)"
  by (cases m) auto

lemma hbind_eq_HUndefined:
  "hbind m f = HUndefined \<longleftrightarrow> m = HUndefined \<or> (\<exists>a. m = HRet a \<and> f a = HUndefined)"
  by (cases m) auto

lemma http_throw_neq [simp]: "http_throw m c \<noteq> HRet a" "http_throw m c \<noteq> HUndefined"
  "HRet a \<noteq> http_throw m c" "HUndefined \<noteq> http_throw m c"
  by (simp_all add: http_throw_def)

lemma hbind_http_throw [simp]: "hbind (http_throw m c) f = http_throw m c"
  by (simp add: http_throw_def)

subsection \<open>The order of header names\<close>

text \<open>\<open>ci_less\<close> compares the names in lower case, so it is a strict weak order.\<close>

definition ci_equal :: "bytes \<Rightarrow> bytes \<Rightarrow> bool" where
  "ci_equal a b \<longleftrightarrow> \<not> ci_less a b \<and> \<not> ci_less b a"

lemma ci_less_lexordp: "ci_less a b \<longleftrightarrow> ord_class.lexordp (to_lower a) (to_lower b)"
  by (induction a b rule: ci_less.induct) (auto simp: to_lower_def)

lemma ci_equal_iff: "ci_equal a b \<longleftrightarrow> to_lower a = to_lower b"
  using lexordp_linear [of "to_lower a" "to_lower b"] lexordp_irreflexive' [of "to_lower b"]
  by (auto simp: ci_equal_def ci_less_lexordp)

lemma ci_less_trans: "ci_less a b \<Longrightarrow> ci_less b c \<Longrightarrow> ci_less a c"
  unfolding ci_less_lexordp by (rule lexordp_trans)

lemma ci_less_irrefl [simp]: "\<not> ci_less a a"
  by (simp add: ci_less_lexordp lexordp_irreflexive')

lemma ci_less_asym: "ci_less a b \<Longrightarrow> \<not> ci_less b a"
  using ci_less_trans [of a b a] by auto

lemma ci_equal_refl [simp]: "ci_equal a a"
  by (simp add: ci_equal_iff)

lemma ci_equal_sym: "ci_equal a b \<Longrightarrow> ci_equal b a"
  by (simp add: ci_equal_iff)

lemma ci_equal_less: "ci_equal a b \<Longrightarrow> ci_less a c = ci_less b c" "ci_equal a b \<Longrightarrow> ci_less c a = ci_less c b"
  by (simp_all add: ci_equal_iff ci_less_lexordp)

lemma ci_cases: "ci_less a b \<or> ci_equal a b \<or> ci_less b a"
  by (auto simp: ci_equal_def)

subsection \<open>Maps\<close>

locale dictionary =
  fixes equiv :: "'k \<Rightarrow> 'k \<Rightarrow> bool"
    and inv :: "'m \<Rightarrow> bool"
    and empty :: "'m"
    and find :: "'k \<Rightarrow> 'm \<Rightarrow> 'v option"
    and assign :: "'k \<Rightarrow> 'v \<Rightarrow> 'm \<Rightarrow> 'm"
    and erase :: "'k \<Rightarrow> 'm \<Rightarrow> 'm"
  assumes inv_empty: "inv empty"
    and inv_assign: "inv m \<Longrightarrow> inv (assign k v m)"
    and inv_erase: "inv m \<Longrightarrow> inv (erase k m)"
    and find_empty: "find k empty = None"
    and find_assign: "inv m \<Longrightarrow> find k (assign k' v m) = (if equiv k k' then Some v else find k m)"
    and find_erase: "inv m \<Longrightarrow> find k (erase k' m) = (if equiv k k' then None else find k m)"
    and equiv_refl: "equiv k k"
    and equiv_sym: "equiv k k' \<Longrightarrow> equiv k' k"
begin

text \<open>The last assignment wins, and an erased name is assigned afresh.\<close>

lemma find_assign_same: "inv m \<Longrightarrow> find k (assign k v m) = Some v"
  by (simp add: find_assign equiv_refl)

lemma find_assign_twice: "inv m \<Longrightarrow> find k (assign k' w (assign k' v m)) = find k (assign k' w m)"
  by (simp add: find_assign inv_assign)

lemma find_erase_assign: "inv m \<Longrightarrow> find k (erase k' (assign k' v m)) = find k (erase k' m)"
  by (simp add: find_assign find_erase inv_assign)

lemma find_assign_commute:
  "inv m \<Longrightarrow> \<not> (equiv k a \<and> equiv k b) \<Longrightarrow>
   find k (assign a v (assign b w m)) = find k (assign b w (assign a v m))"
  by (auto simp: find_assign inv_assign)

end

type_synonym header_list = "(bytes \<times> bytes) list"

definition header_find :: "bytes \<Rightarrow> header_list \<Rightarrow> bytes option" where
  "header_find k hs = map_option snd (List.find (\<lambda>h. ci_equal (fst h) k) hs)"

text \<open>\<open>m_headers[k] = v\<close>: the name of an entry that is there keeps its spelling.\<close>

fun header_assign :: "bytes \<Rightarrow> bytes \<Rightarrow> header_list \<Rightarrow> header_list" where
  "header_assign k v [] = [(k, v)]"
| "header_assign k v ((a, w) # hs) =
     (if ci_less k a then (k, v) # (a, w) # hs
      else if ci_less a k then (a, w) # header_assign k v hs
      else (a, v) # hs)"

definition header_erase :: "bytes \<Rightarrow> header_list \<Rightarrow> header_list" where
  "header_erase k hs = filter (\<lambda>h. \<not> ci_equal (fst h) k) hs"

definition headers_ordered :: "header_list \<Rightarrow> bool" where
  "headers_ordered hs = sorted_wrt (\<lambda>a b. ci_less (fst a) (fst b)) hs"

lemma header_find_Nil [simp]: "header_find k [] = None"
  by (simp add: header_find_def)

lemma header_find_Cons: "header_find k ((a, w) # hs) = (if ci_equal a k then Some w else header_find k hs)"
  by (simp add: header_find_def)

lemma header_find_below: "\<forall>h \<in> set hs. ci_less k (fst h) \<Longrightarrow> header_find k hs = None"
  by (induction hs) (auto simp: header_find_Cons ci_equal_def)

lemma fst_header_assign: "fst ` set (header_assign k v hs) \<subseteq> insert k (fst ` set hs)"
  by (induction k v hs rule: header_assign.induct) auto

lemma headers_ordered_assign: "headers_ordered hs \<Longrightarrow> headers_ordered (header_assign k v hs)"
proof (induction k v hs rule: header_assign.induct)
  case (1 k v)
  then show ?case by (simp add: headers_ordered_def)
next
  case (2 k v a w hs)
  have "\<forall>h \<in> set (header_assign k v hs). ci_less a (fst h)" if "ci_less a k"
    using that 2(2) fst_header_assign [of k v hs] by (fastforce simp: headers_ordered_def)
  with 2 show ?case
    by (auto simp: headers_ordered_def intro: ci_less_trans)
qed

lemma header_find_assign:
  "headers_ordered hs \<Longrightarrow> header_find k (header_assign k' v hs) = (if ci_equal k k' then Some v else header_find k hs)"
proof (induction k' v hs rule: header_assign.induct)
  case (1 k' v)
  then show ?case by (auto simp: header_find_Cons ci_equal_iff)
next
  case (2 k' v a w hs)
  have "ci_equal a k' \<or> ci_less k' a \<or> ci_less a k'" using ci_cases [of a k'] by blast
  with 2 show ?case
    by (auto simp: header_find_Cons headers_ordered_def ci_equal_iff ci_less_lexordp lexordp_irreflexive')
qed

lemma header_find_erase:
  "header_find k (header_erase k' hs) = (if ci_equal k k' then None else header_find k hs)"
  by (induction hs) (auto simp: header_erase_def header_find_Cons ci_equal_iff)

interpretation headers: dictionary ci_equal headers_ordered "[]" header_find header_assign header_erase
proof
  show "headers_ordered (header_erase k m)" if "headers_ordered m" for m k
    using that by (simp add: headers_ordered_def header_erase_def sorted_wrt_filter)
qed (auto simp: headers_ordered_def [of "[]"] headers_ordered_assign header_find_assign header_find_erase
  intro: ci_equal_sym)

text \<open>A name above every other goes to the end.\<close>

lemma header_assign_last:
  "\<forall>h \<in> set hs. ci_less (fst h) k \<Longrightarrow> header_assign k v hs = hs @ [(k, v)]"
  by (induction k v hs rule: header_assign.induct) (auto dest: ci_less_asym)

subsection \<open>Numbers in headers\<close>

text \<open>The C library's \<open>isspace\<close> and the value of a run of decimal digits.\<close>

definition is_space :: "u8 \<Rightarrow> bool" where
  "is_space c \<longleftrightarrow> c = 32 \<or> (9 \<le> c \<and> c \<le> 13)"

definition is_digit :: "u8 \<Rightarrow> bool" where
  "is_digit c \<longleftrightarrow> 48 \<le> c \<and> c \<le> 57"

definition digits_value :: "bytes \<Rightarrow> nat" where
  "digits_value s = foldl (\<lambda>n c. 10 * n + (unat c - 48)) 0 s"

text \<open>White space, a sign, and the digits; the rest of the string is ignored.\<close>

definition split_number :: "bytes \<Rightarrow> bool \<times> bytes" where
  "split_number s =
     (let s = dropWhile is_space s in
      case s of
        [] \<Rightarrow> (False, [])
      | c # r \<Rightarrow> (c = 45, takeWhile is_digit (if c = 45 \<or> c = 43 then r else s)))"

text \<open>
  \<open>strtoul(s, &end, 10)\<close> with a 64-bit \<open>unsigned long\<close>: no digits give 0, a value above
  \<open>ULONG_MAX\<close> gives \<open>ULONG_MAX\<close>, and a minus sign negates the result as an unsigned number.
\<close>

definition strtoul :: "bytes \<Rightarrow> nat" where
  "strtoul s =
     (case split_number s of (negative, ds) \<Rightarrow>
        let n = digits_value ds in
        if 2 ^ 64 \<le> n then 2 ^ 64 - 1
        else if negative then (2 ^ 64 - n) mod 2 ^ 64
        else n)"

text \<open>
  \<open>stream >> n\<close> for a \<open>size_t\<close> and for an \<open>int\<close>, \<open>None\<close> when the stream's fail bit is set; and
  \<open>atoi\<close>, whose behaviour is undefined for a value no \<open>int\<close> holds.
\<close>

definition read_size :: "bytes \<Rightarrow> nat option" where
  "read_size s =
     (case split_number s of (negative, ds) \<Rightarrow>
        let n = digits_value ds in
        if ds = [] \<or> 2 ^ 64 \<le> n then None
        else Some (if negative then (2 ^ 64 - n) mod 2 ^ 64 else n))"

definition in_int_range :: "int \<Rightarrow> bool" where
  "in_int_range i \<longleftrightarrow> - (2 ^ 31) \<le> i \<and> i < 2 ^ 31"

definition signed_value :: "bytes \<Rightarrow> int" where
  "signed_value s =
     (case split_number s of (negative, ds) \<Rightarrow>
        if negative then - int (digits_value ds) else int (digits_value ds))"

definition read_int :: "bytes \<Rightarrow> int option" where
  "read_int s =
     (if snd (split_number s) = [] \<or> \<not> in_int_range (signed_value s) then None
      else Some (signed_value s))"

definition atoi :: "bytes \<Rightarrow> int http_result" where
  "atoi s = (if in_int_range (signed_value s) then HRet (signed_value s) else HUndefined)"

text \<open>What \<open>operator<<\<close> prints is read back.\<close>

lemma nat_of_char_of: "0 \<le> k \<Longrightarrow> k < 256 \<Longrightarrow> (of_char (char_of (k :: int)) :: nat) = nat k"
proof -
  assume "0 \<le> k" "k < 256"
  then have "int (of_char (char_of k)) = k" by (simp add: of_nat_of_char)
  then show ?thesis by simp
qed

lemma byte_of_digit_char: "0 \<le> d \<Longrightarrow> d < 10 \<Longrightarrow> byte_of_char (digit_char d) = word_of_nat (48 + nat d)"
  unfolding digit_char_def byte_of_char_def by (subst nat_of_char_of) (simp_all add: nat_add_distrib)

lemma byte_digit_char:
  assumes "0 \<le> d" "d < 10"
  shows "unat (byte_of_char (digit_char d)) = 48 + nat d" "is_digit (byte_of_char (digit_char d))"
proof -
  show u: "unat (byte_of_char (digit_char d)) = 48 + nat d"
    unfolding byte_of_digit_char [OF assms] unat_of_nat using assms by simp
  show "is_digit (byte_of_char (digit_char d))"
    using u assms by (simp add: is_digit_def word_le_nat_alt)
qed

lemma digits_value_snoc: "digits_value (s @ [c]) = 10 * digits_value s + (unat c - 48)"
  by (simp add: digits_value_def)

lemma digits_of_idec:
  "0 \<le> n \<Longrightarrow> list_all is_digit (str (idec n)) \<and> int (digits_value (str (idec n))) = n"
proof (induction n rule: idec.induct)
  case (1 n)
  show ?case
  proof (cases "n < 10")
    case True
    with 1 show ?thesis
      using byte_digit_char [of n]
      by (subst (1 2) idec.simps) (simp add: str_def digits_value_def)
  next
    case False
    with 1 have *: "list_all is_digit (str (idec (n div 10)))" "int (digits_value (str (idec (n div 10)))) = n div 10"
      by simp_all
    with False 1 show ?thesis
      using byte_digit_char [of "n mod 10"]
      by (subst (1 2) idec.simps) (simp add: str_def digits_value_snoc)
  qed
qed

lemma digits_of_udec: "list_all is_digit (str (udec n))" "digits_value (str (udec n)) = n"
  using digits_of_idec [of "int n"] by (simp_all add: udec_def)

lemma str_udec_nonempty [simp]: "str (udec n) \<noteq> []"
  by (simp add: str_def udec_def)

lemma digit_not_sign: "is_digit c \<Longrightarrow> \<not> is_space c \<and> c \<noteq> 45 \<and> c \<noteq> 43"
  by (auto simp: is_digit_def is_space_def word_le_nat_alt)

lemma split_number_udec: "split_number (str (udec n)) = (False, str (udec n))"
proof -
  have "str (udec n) \<noteq> []" by (simp add: str_def udec_def)
  then obtain c r where cr: "str (udec n) = c # r" by (cases "str (udec n)") auto
  have d: "list_all is_digit (c # r)" using digits_of_udec(1) [of n] by (simp add: cr)
  then have "takeWhile is_digit (c # r) = c # r"
    by (simp add: takeWhile_eq_all_conv list_all_iff)
  with d show ?thesis by (simp add: cr split_number_def digit_not_sign)
qed

lemma strtoul_udec: "n < 2 ^ 64 \<Longrightarrow> strtoul (str (udec n)) = n"
  by (simp add: strtoul_def split_number_udec digits_of_udec)

lemma read_size_udec: "n < 2 ^ 64 \<Longrightarrow> read_size (str (udec n)) = Some n"
  by (simp add: read_size_def split_number_udec digits_of_udec)

lemma signed_value_udec: "signed_value (str (udec n)) = int n"
  by (simp add: signed_value_def split_number_udec digits_of_udec)

lemma read_int_udec: "n < 2 ^ 31 \<Longrightarrow> read_int (str (udec n)) = Some (int n)"
  by (simp add: read_int_def split_number_udec signed_value_udec in_int_range_def)

lemma strtoul_bound: "strtoul s < 2 ^ 64"
  by (auto simp: strtoul_def Let_def split: prod.splits)

subsection \<open>Headers\<close>

text \<open>
  \<open>strip_lws\<close> builds a string between an iterator from the front and one from the back. Were
  the second before the first, the behaviour would be undefined.
\<close>

definition strip_lws :: "bytes \<Rightarrow> bytes http_result" where
  "strip_lws input =
     (let begin' = extract_all_lws input in
      if begin' = [] then HRet []
      else
        (let rbegin = extract_all_lws (rev input);
             first = length input - length begin';
             last = length rbegin
         in if rbegin = [] then HRet []
            else if last < first then HUndefined
            else HRet (take (last - first) (drop first input))))"

datatype body_encoding = Unknown_encoding | Plain | Chunked

record parser =
  m_version :: bytes
  m_headers :: header_list
  m_header_bytes :: nat
  m_body :: bytes
  m_body_bytes_needed :: nat
  m_body_bytes_max :: nat
  m_body_encoding :: body_encoding

definition parser_init :: parser where
  "parser_init = \<lparr>m_version = [], m_headers = [], m_header_bytes = 0, m_body = [],
     m_body_bytes_needed = 0, m_body_bytes_max = max_body_size, m_body_encoding = Unknown_encoding\<rparr>"

definition set_version :: "bytes \<Rightarrow> 'a parser_scheme \<Rightarrow> 'a parser_scheme" where
  "set_version version p = p\<lparr>m_version := version\<rparr>"

definition get_header :: "'a parser_scheme \<Rightarrow> bytes \<Rightarrow> bytes" where
  "get_header p key = (case header_find key (m_headers p) of None \<Rightarrow> [] | Some v \<Rightarrow> v)"

definition append_header :: "bytes \<Rightarrow> bytes \<Rightarrow> 'a parser_scheme \<Rightarrow> 'a parser_scheme http_result" where
  "append_header key val p =
     (if list_ex is_not_token_char key then http_throw ''Invalid header name'' sc_bad_request
      else if get_header p key = [] then HRet (p\<lparr>m_headers := header_assign key val (m_headers p)\<rparr>)
      else HRet (p\<lparr>m_headers := header_assign key (get_header p key @ str '', '' @ val) (m_headers p)\<rparr>))"

definition replace_header :: "bytes \<Rightarrow> bytes \<Rightarrow> 'a parser_scheme \<Rightarrow> 'a parser_scheme" where
  "replace_header key val p = p\<lparr>m_headers := header_assign key val (m_headers p)\<rparr>"

definition remove_header :: "bytes \<Rightarrow> 'a parser_scheme \<Rightarrow> 'a parser_scheme" where
  "remove_header key p = p\<lparr>m_headers := header_erase key (m_headers p)\<rparr>"

definition set_body :: "bytes \<Rightarrow> 'a parser_scheme \<Rightarrow> 'a parser_scheme" where
  "set_body val p =
     (if length val = 0 then (remove_header (str ''Content-Length'') p)\<lparr>m_body := []\<rparr>
      else (replace_header (str ''Content-Length'') (str (udec (length val))) p)\<lparr>m_body := val\<rparr>)"

text \<open>
  Both list functions return true when nothing could be parsed; the parameters are passed
  through an argument. A comparison of iterators is one of the suffixes they stand for.
\<close>

definition extract_parameters :: "bytes \<Rightarrow> parameter_list \<Rightarrow> bytes \<times> parameter_list" where
  "extract_parameters begin' parameters =
     (if begin' = [] then (begin', parameters) else parameters_loop begin' begin' parameters)"

definition parse_parameter_list :: "bytes \<Rightarrow> parameter_list \<Rightarrow> bool \<times> parameter_list" where
  "parse_parameter_list input out =
     (if length input = 0 then (False, out)
      else (case extract_parameters input out of (it, out) \<Rightarrow> (it = input, out)))"

definition get_header_as_plist :: "bytes \<Rightarrow> 'a parser_scheme \<Rightarrow> parameter_list \<Rightarrow> bool \<times> parameter_list" where
  "get_header_as_plist key p out =
     (case header_find key (m_headers p) of
        None \<Rightarrow> (False, out)
      | Some v \<Rightarrow> if length v = 0 then (False, out) else parse_parameter_list v out)"

definition prepare_body :: "'a parser_scheme \<Rightarrow> (bool \<times> 'a parser_scheme) http_result" where
  "prepare_body p =
     (if get_header p (str ''Content-Length'') \<noteq> [] then
        (let p = p\<lparr>m_body_bytes_needed := strtoul (get_header p (str ''Content-Length''))\<rparr> in
         if m_body_bytes_max p < m_body_bytes_needed p
         then http_throw ''HTTP message body too large'' sc_request_entity_too_large
         else HRet (True, p\<lparr>m_body_encoding := Plain\<rparr>))
      else if get_header p (str ''Transfer-Encoding'') = str ''chunked'' then HRet (False, p)
      else HRet (False, p))"

definition parser_process_body :: "bytes \<Rightarrow> 'a parser_scheme \<Rightarrow> (nat \<times> 'a parser_scheme) http_result" where
  "parser_process_body buf p =
     (if m_body_encoding p = Plain then
        (let processed = min (m_body_bytes_needed p) (length buf) in
         HRet (processed, p\<lparr>m_body := m_body p @ take processed buf,
                            m_body_bytes_needed := m_body_bytes_needed p - processed\<rparr>))
      else http_throw ''Unexpected body encoding'' sc_internal_server_error)"

definition body_ready :: "'a parser_scheme \<Rightarrow> bool" where
  "body_ready p \<longleftrightarrow> m_body_bytes_needed p = 0"

definition process_header :: "bytes \<Rightarrow> 'a parser_scheme \<Rightarrow> 'a parser_scheme http_result" where
  "process_header line p =
     (let cursor = search_from (=) header_separator line in
      if cursor = [] then http_throw ''Invalid header line'' sc_bad_request
      else hbind (strip_lws (take (length line - length cursor) line)) (\<lambda>key.
           hbind (strip_lws (drop 1 cursor)) (\<lambda>val. append_header key val p)))"

definition raw_headers :: "'a parser_scheme \<Rightarrow> bytes" where
  "raw_headers p = concat (map (\<lambda>(k, v). k @ str '': '' @ v @ [13, 10]) (m_headers p))"

subsection \<open>Lines\<close>

text \<open>The text holds no line delimiter.\<close>

definition no_crlf :: "bytes \<Rightarrow> bool" where
  "no_crlf s \<longleftrightarrow> search_from (=) header_delimiter s = []"

lemma search_crlf_Cons:
  "search_from (=) header_delimiter (c # r) =
     (if c = 13 \<and> r \<noteq> [] \<and> hd r = 10 then c # r else search_from (=) header_delimiter r)"
  by (cases r) (auto simp: header_delimiter_def)

declare search_from.simps(2) [simp del]

lemma no_crlf_Nil [simp]: "no_crlf []"
  by (simp add: no_crlf_def)

lemma no_crlf_Cons: "no_crlf (c # r) \<longleftrightarrow> \<not> (c = 13 \<and> r \<noteq> [] \<and> hd r = 10) \<and> no_crlf r"
  by (simp add: no_crlf_def search_crlf_Cons)

lemma search_crlf_at: "no_crlf s \<Longrightarrow> search_from (=) header_delimiter (s @ 13 # 10 # r) = 13 # 10 # r"
  by (induction s) (auto simp: search_crlf_Cons no_crlf_Cons hd_append)

lemma search_crlf_cases:
  obtains (none) "no_crlf s" "search_from (=) header_delimiter s = []"
  | (found) line r where "s = line @ 13 # 10 # r" "no_crlf line" "search_from (=) header_delimiter s = 13 # 10 # r"
proof -
  have "no_crlf s \<or> (\<exists>line r. s = line @ 13 # 10 # r \<and> no_crlf line)"
  proof (induction s)
    case Nil
    show ?case by simp
  next
    case (Cons c s)
    show ?case
    proof (cases "c = 13 \<and> s \<noteq> [] \<and> hd s = 10")
      case True
      then have "c # s = [] @ 13 # 10 # tl s" by (cases s) auto
      then show ?thesis using no_crlf_Nil by blast
    next
      case False
      note stop = this
      from Cons.IH show ?thesis
      proof
        assume "no_crlf s"
        with stop show ?thesis by (simp add: no_crlf_Cons)
      next
        assume "\<exists>line r. s = line @ 13 # 10 # r \<and> no_crlf line"
        then obtain line r where s: "s = line @ 13 # 10 # r" "no_crlf line" by blast
        with stop have "no_crlf (c # line)" by (cases line) (auto simp: no_crlf_Cons)
        with s show ?thesis by (metis append_Cons)
      qed
    qed
  qed
  then show thesis
    using none found search_crlf_at by (auto simp: no_crlf_def)
qed

lemma no_crlf_append:
  "no_crlf (s @ t) \<longleftrightarrow> no_crlf s \<and> no_crlf t \<and> \<not> (s \<noteq> [] \<and> last s = 13 \<and> t \<noteq> [] \<and> hd t = 10)"
  by (induction s) (auto simp: no_crlf_Cons hd_append)

text \<open>Within a line, leading white space is blanks and tabs.\<close>

lemma not_ws [simp]: "(\<not> is_not_whitespace_char c) = is_whitespace_char c"
  by (auto simp: is_not_whitespace_char_def is_whitespace_char_def)

lemma extract_lws_line: "no_crlf s \<Longrightarrow> extract_lws s = dropWhile is_whitespace_char s"
  by (cases s; cases "tl s") (auto simp: extract_lws_def Let_def no_crlf_Cons)

lemma no_crlf_drop: "no_crlf s \<Longrightarrow> no_crlf (dropWhile P s)"
  by (metis no_crlf_append takeWhile_dropWhile_id)

lemma dropWhile_again: "dropWhile P (dropWhile P s) = dropWhile P s"
  by (induction s) auto

lemma extract_all_lws_line: "no_crlf s \<Longrightarrow> extract_all_lws s = dropWhile is_whitespace_char s"
proof -
  assume nc: "no_crlf s"
  have "extract_all_lws t = t" if "extract_lws t = t" for t
    by (subst extract_all_lws.simps) (simp add: Let_def that)
  then have "extract_all_lws (dropWhile is_whitespace_char s) = dropWhile is_whitespace_char s"
    using nc by (simp add: extract_lws_line no_crlf_drop dropWhile_again)
  then show ?thesis
    by (subst extract_all_lws.simps) (simp add: Let_def extract_lws_line nc)
qed

lemma extract_lws_hd: "extract_lws s \<noteq> [] \<Longrightarrow> \<not> is_whitespace_char (hd (extract_lws s))"
  using hd_dropWhile [of is_whitespace_char] by (auto simp: extract_lws_def Let_def)

lemma extract_lws_suffix: "\<exists>u. s = u @ extract_lws s"
proof -
  have d: "\<exists>u. s = u @ dropWhile P (drop n s)" for P n
    by (rule exI [of _ "take n s @ takeWhile P (drop n s)"]) simp
  show ?thesis
    using d [where n = 3] d [where n = 0] by (simp add: extract_lws_def Let_def)
qed

lemma extract_all_lws_end:
  "(\<exists>u. s = u @ extract_all_lws s) \<and>
   (extract_all_lws s \<noteq> [] \<longrightarrow> \<not> is_whitespace_char (hd (extract_all_lws s)))"
proof (induction s rule: extract_all_lws.induct)
  case (1 s)
  obtain u where u: "s = u @ extract_lws s" using extract_lws_suffix by blast
  show ?case
  proof (cases "extract_lws s \<noteq> [] \<and> s \<noteq> extract_lws s")
    case True
    then have e: "extract_all_lws s = extract_all_lws (extract_lws s)"
      by (subst extract_all_lws.simps) (simp add: Let_def)
    from 1 True obtain v where "extract_lws s = v @ extract_all_lws (extract_lws s)" by (auto simp: Let_def)
    with u e have "s = (u @ v) @ extract_all_lws s" by (metis append.assoc)
    moreover from 1 True e have "extract_all_lws s \<noteq> [] \<longrightarrow> \<not> is_whitespace_char (hd (extract_all_lws s))"
      by (auto simp: Let_def)
    ultimately show ?thesis by blast
  next
    case False
    then have "extract_all_lws s = extract_lws s"
      by (subst extract_all_lws.simps) (auto simp: Let_def)
    with u show ?thesis using extract_lws_hd by metis
  qed
qed

text \<open>No header line makes \<open>strip_lws\<close> undefined: the two ends do not cross within a line.\<close>

lemma strip_lws_line: "no_crlf s \<Longrightarrow> strip_lws s \<noteq> HUndefined"
proof
  assume nc: "no_crlf s" and undef: "strip_lws s = HUndefined"
  let ?t = "extract_all_lws (rev s)" and ?first = "length s - length (dropWhile is_whitespace_char s)"
  from undef have t: "?t \<noteq> []" "length ?t < ?first"
    by (auto simp: strip_lws_def Let_def extract_all_lws_line [OF nc] split: if_splits)
  obtain u where u: "rev s = u @ ?t" using extract_all_lws_end by blast
  have "s = rev (u @ ?t)" unfolding u [symmetric] by simp
  then have s: "s = rev ?t @ rev u" by simp
  have nws: "\<not> is_whitespace_char (hd ?t)" using extract_all_lws_end t(1) by blast
  have "length (takeWhile is_whitespace_char s) = ?first"
    by (metis add_diff_cancel_right' length_append takeWhile_dropWhile_id)
  with t(2) have "length ?t - 1 < length (takeWhile is_whitespace_char s)" by simp
  then have "is_whitespace_char (s ! (length ?t - 1))"
    by (metis nth_mem set_takeWhileD takeWhile_nth)
  moreover have "s ! (length ?t - 1) = hd ?t"
    using t(1) by (subst s) (simp add: nth_append rev_nth hd_conv_nth)
  ultimately show False using nws by simp
qed

text \<open>Names and values a line can carry: the spaces around them go, and nothing else.\<close>

definition header_name :: "bytes \<Rightarrow> bool" where
  "header_name k \<longleftrightarrow> \<not> list_ex is_not_token_char k"

definition header_value :: "bytes \<Rightarrow> bool" where
  "header_value v \<longleftrightarrow> no_crlf v \<and>
     (v = [] \<or> \<not> is_whitespace_char (hd v) \<and> \<not> is_whitespace_char (last v) \<and> last v \<noteq> 13)"

lemma token_char: "\<not> is_not_token_char c \<Longrightarrow> c \<noteq> 9 \<and> c \<noteq> 10 \<and> c \<noteq> 13 \<and> c \<noteq> 32 \<and> c \<noteq> 58"
  by (auto simp: is_not_token_char_def header_token_def)

lemma header_name_no_crlf: "header_name k \<Longrightarrow> no_crlf k"
  by (induction k) (auto simp: header_name_def no_crlf_Cons dest: token_char)

lemma header_name_value: "header_name k \<Longrightarrow> header_value k"
proof (cases "k = []")
  case False
  assume h: "header_name k"
  then have "\<not> is_not_token_char (hd k)" "\<not> is_not_token_char (last k)"
    using False by (auto simp: header_name_def list_ex_iff)
  with h show ?thesis
    by (auto simp: header_value_def header_name_no_crlf is_whitespace_char_def dest: token_char)
qed (simp add: header_value_def)

lemma extract_all_lws_id: "s \<noteq> [] \<Longrightarrow> hd s \<noteq> 13 \<Longrightarrow> \<not> is_whitespace_char (hd s) \<Longrightarrow> extract_all_lws s = s"
  by (subst extract_all_lws.simps) (cases s; auto simp: Let_def extract_lws_def)

lemma strip_lws_value:
  assumes v: "header_value v"
  shows "strip_lws v = HRet v" "strip_lws (32 # v) = HRet v"
proof -
  have front: "extract_all_lws v = v" "extract_all_lws (32 # v) = v"
    if "v \<noteq> []" using v that
    by (auto simp: header_value_def extract_all_lws_line no_crlf_Cons is_whitespace_char_def dropWhile_eq_self_iff)
  have rear: "extract_all_lws (rev v) = rev v" "extract_all_lws (rev (32 # v)) = rev (32 # v)"
    if "v \<noteq> []" using v that
    by (auto intro!: extract_all_lws_id simp: header_value_def hd_rev last.simps)
  show "strip_lws v = HRet v" using front rear
    by (cases "v = []") (auto simp: strip_lws_def Let_def extract_all_lws.simps extract_lws_def)
  show "strip_lws (32 # v) = HRet v" using front(2) rear(2)
    by (cases "v = []")
      (simp_all add: strip_lws_def Let_def extract_all_lws_line no_crlf_Cons is_whitespace_char_def)
qed

text \<open>A header line written by \<open>raw_headers\<close> is read back.\<close>

lemma search_separator: "\<forall>c \<in> set k. c \<noteq> 58 \<Longrightarrow> search_from (=) header_separator (k @ 58 # r) = 58 # r"
  by (induction k) (auto simp: header_separator_def search_from.simps(2))

lemma process_header_line:
  assumes "header_name k" "header_value v"
  shows "process_header (k @ str '': '' @ v) p = append_header k v p"
proof -
  have "\<forall>c \<in> set k. c \<noteq> 58"
    using assms(1) by (auto simp: header_name_def list_ex_iff dest: token_char)
  then show ?thesis
    using strip_lws_value(1) [OF header_name_value [OF assms(1)]] strip_lws_value(2) [OF assms(2)]
    by (simp add: process_header_def search_separator str_def byte_of_char_def)
qed

lemma append_header_new:
  "header_name k \<Longrightarrow> get_header p k = [] \<Longrightarrow>
   append_header k v p = HRet (p\<lparr>m_headers := header_assign k v (m_headers p)\<rparr>)"
  by (simp add: append_header_def header_name_def)

text \<open>No header line has undefined behaviour, and the headers stay in order.\<close>

lemma process_header_defined: "no_crlf line \<Longrightarrow> process_header line p \<noteq> HUndefined"
proof -
  assume "no_crlf line"
  then have "no_crlf (take n line)" "no_crlf (drop n line)" for n
    by (metis append_take_drop_id no_crlf_append)+
  moreover have "\<exists>n. search_from eq x line = drop n line" for eq x
  proof (induction line)
    case (Cons c r)
    then obtain n where "search_from eq x r = drop n r" by blast
    then have "search_from eq x r = drop (Suc n) (c # r)" by simp
    then show ?case by (metis (no_types) drop0 search_from.simps(2))
  qed simp
  ultimately have "no_crlf (drop 1 (search_from (=) header_separator line))"
    by (metis drop_drop)
  then show ?thesis
    using strip_lws_line \<open>\<And>n. no_crlf (take n line)\<close>
    by (auto simp: process_header_def Let_def hbind_eq_HUndefined append_header_def)
qed

lemma append_header_ordered:
  "headers_ordered (m_headers p) \<Longrightarrow> append_header k v p = HRet q \<Longrightarrow> headers_ordered (m_headers q)"
  by (auto simp: append_header_def headers_ordered_assign split: if_splits)

lemma process_header_ordered:
  "headers_ordered (m_headers p) \<Longrightarrow> process_header line p = HRet q \<Longrightarrow> headers_ordered (m_headers q)"
  by (auto simp: process_header_def Let_def hbind_eq_HRet split: if_splits intro: append_header_ordered)

end
