(* ===== verification/Ws_Http_Reader.thy ===== *)
theory Ws_Http_Reader
  imports Ws_Http_Message
begin

text \<open>
  The contract that the requests of \<open>http/impl/request.hpp\<close> and the responses of
  \<open>http/impl/response.hpp\<close> share: both read lines up to a blank one, keep the rest of a buffer
  for the next call, count the header bytes against a limit, and hand what follows the blank
  line to the body. Under the contract, how the bytes are cut into reads does not matter,
  except that every read that ends within the header costs three bytes of the limit.
\<close>

definition hmap :: "('a \<Rightarrow> 'b) \<Rightarrow> 'a http_result \<Rightarrow> 'b http_result" where
  "hmap f m = hbind m (\<lambda>a. HRet (f a))"

lemma hmap_simps [simp]: "hmap f (HRet a) = HRet (f a)" "hmap f (HThrow e) = HThrow e"
  "hmap f HUndefined = HUndefined" "hmap f (http_throw m c) = http_throw m c"
  by (simp_all add: hmap_def)

lemma hbind_cong [fundef_cong]:
  "m = m' \<Longrightarrow> (\<And>a. m' = HRet a \<Longrightarrow> f a = g a) \<Longrightarrow> hbind m f = hbind m' g"
  by (cases m') auto

text \<open>The calls of \<open>consume\<close> for a sequence of reads, and the bytes they take.\<close>

fun reads :: "(bytes \<Rightarrow> 'r \<Rightarrow> (nat \<times> 'r) http_result) \<Rightarrow> bytes list \<Rightarrow> 'r \<Rightarrow> (nat \<times> 'r) http_result" where
  "reads consume [] r = HRet (0, r)"
| "reads consume (c # cs) r =
     hbind (consume c r) (\<lambda>(n, r). hbind (reads consume cs r) (\<lambda>(m, r). HRet (n + m, r)))"

text \<open>\<open>sizeof(header_delimiter)\<close> counts the terminating zero.\<close>

definition sizeof_delimiter :: nat where "sizeof_delimiter = 3"

lemma drop_search_less: "search_from (=) header_delimiter x \<noteq> [] \<Longrightarrow>
   length (drop 2 (search_from (=) header_delimiter x)) < length x"
  by (rule search_crlf_cases [of x]) auto

locale header_reader =
  fixes line :: "bytes \<Rightarrow> 'r \<Rightarrow> 'r http_result"
    and blank :: "bytes \<Rightarrow> 'r \<Rightarrow> (nat \<times> 'r) http_result"
    and pend :: "nat \<Rightarrow> bytes \<Rightarrow> 'r \<Rightarrow> 'r"
    and bump :: "nat \<Rightarrow> 'r \<Rightarrow> 'r"
    and hb :: "'r \<Rightarrow> nat"
    and pending :: "'r \<Rightarrow> bytes option"
    and finished :: "'r \<Rightarrow> bool"
    and lines' :: "bytes \<Rightarrow> bytes \<Rightarrow> 'r \<Rightarrow> (nat \<times> 'r) http_result"
    and consume :: "bytes \<Rightarrow> 'r \<Rightarrow> (nat \<times> 'r) http_result"
  assumes lines_unfold: "lines' buf x r =
     (let e = search_from (=) header_delimiter x; k = length x - length e in
      if max_header_size < hb r + (k + sizeof_delimiter)
      then http_throw ''Maximum header size exceeded.'' sc_request_header_fields_too_large
      else if e = [] then HRet (length buf, pend (length buf) x (bump sizeof_delimiter r))
      else if k = 0 then
        hbind (blank (drop (length buf + 2 - length e) buf) (bump sizeof_delimiter r))
          (\<lambda>(n, r). HRet (length buf + 2 - length e + n, r))
      else hbind (line (take k x) (bump (k + sizeof_delimiter) r)) (lines' buf (drop 2 e)))"
    and consume_pending: "pending r = Some s \<Longrightarrow> consume buf r = lines' buf (s @ buf) r"
    and hb_bump: "hb (bump d r) = hb r + d"
    and bump_bump: "bump d (bump d' r) = bump (d' + d) r"
    and bump_0: "bump 0 r = r"
    and hb_pend: "hb (pend n x r) = hb r"
    and pend_bump: "pend n x (bump d r) = bump d (pend n x r)"
    and pend_pend: "pend n x (pend m y r) = pend (m + n) x r"
    and pending_bump: "pending (bump d r) = pending r"
    and pending_pend: "pending r \<noteq> None \<Longrightarrow> pending (pend n x r) = Some x"
    and line_bump: "line l (bump d r) = hmap (bump d) (line l r)"
    and line_pend: "line l (pend n x r) = hmap (pend n x) (line l r)"
    and line_hb: "line l r = HRet r' \<Longrightarrow> hb r' = hb r \<and> pending r' = pending r"
    and blank_bump: "blank u (bump d r) = hmap (map_prod id (bump d)) (blank u r)"
    and blank_pend: "blank u (pend n x r) = blank u r"
    and blank_hb: "blank u r = HRet (n, r') \<Longrightarrow> hb r' = hb r \<and> n \<le> length u"
    and blank_finished: "pending r \<noteq> None \<Longrightarrow> blank u r = HRet (n, r') \<Longrightarrow> finished r'"
    and blank_append: "pending r \<noteq> None \<Longrightarrow> v \<noteq> [] \<Longrightarrow> blank (u @ v) r =
      hbind (blank u r) (\<lambda>(n, r). hbind (consume v r) (\<lambda>(m, r). HRet (n + m, r)))"
    and finished_append: "finished r \<Longrightarrow> consume (u @ v) r =
      hbind (consume u r) (\<lambda>(n, r). hbind (consume v r) (\<lambda>(m, r). HRet (n + m, r)))"
    and finished_consume: "finished r \<Longrightarrow> consume u r = HRet (n, r') \<Longrightarrow> finished r'"
begin

text \<open>The header bytes counted when the last call ended.\<close>

definition peak :: "'r \<Rightarrow> nat" where
  "peak r = hb r + (case pending r of None \<Rightarrow> 0 | Some x \<Rightarrow> length x)"

lemma lines_cases:
  assumes "lines' buf x r = HRet (n, r2)" "pending r \<noteq> None"
  obtains (none) "no_crlf x" "hb r + (length x + sizeof_delimiter) \<le> max_header_size"
      "n = length buf" "r2 = pend (length buf) x (bump sizeof_delimiter r)"
  | (blank) e m where "x = 13 # 10 # e" "hb r + sizeof_delimiter \<le> max_header_size"
      "blank (drop (length buf - length e) buf) (bump sizeof_delimiter r) = HRet (m, r2)"
      "n = length buf - length e + m"
  | (line) l e q where "x = l @ 13 # 10 # e" "no_crlf l" "l \<noteq> []"
      "hb r + (length l + sizeof_delimiter) \<le> max_header_size"
      "line l (bump (length l + sizeof_delimiter) r) = HRet q" "lines' buf e q = HRet (n, r2)"
proof (cases rule: search_crlf_cases [of x])
  case none
  from assms(1) this(2) show thesis
    by (subst (asm) lines_unfold) (auto simp: Let_def intro: that(1) [OF none(1)] split: if_splits)
next
  case (found l e)
  show thesis
  proof (cases "l = []")
    case True
    from assms(1) found(1,3) True show thesis
      by (subst (asm) lines_unfold)
        (auto simp: Let_def hbind_eq_HRet intro: that(2) split: if_splits)
  next
    case False
    from assms(1) found(1,3) False show thesis
      by (subst (asm) lines_unfold)
        (auto simp: Let_def hbind_eq_HRet intro: that(3) [OF _ found(2) False] split: if_splits)
  qed
qed

lemma lines_none: "no_crlf x \<Longrightarrow> hb r + (length x + sizeof_delimiter) \<le> max_header_size \<Longrightarrow>
   lines' buf x r = HRet (length buf, pend (length buf) x (bump sizeof_delimiter r))"
  by (simp add: lines_unfold [of buf x] no_crlf_def)

lemma lines_blank: "hb r + sizeof_delimiter \<le> max_header_size \<Longrightarrow>
   lines' buf (13 # 10 # e) r =
     hbind (blank (drop (length buf - length e) buf) (bump sizeof_delimiter r))
       (\<lambda>(n, r). HRet (length buf - length e + n, r))"
  using search_crlf_at [of "[]" e] by (simp add: lines_unfold [of buf "13 # 10 # e"])

lemma lines_line: "no_crlf l \<Longrightarrow> l \<noteq> [] \<Longrightarrow> hb r + (length l + sizeof_delimiter) \<le> max_header_size \<Longrightarrow>
   lines' buf (l @ 13 # 10 # e) r = hbind (line l (bump (length l + sizeof_delimiter) r)) (lines' buf e)"
  by (simp add: lines_unfold [of buf "l @ 13 # 10 # e"] search_crlf_at)

text \<open>The counter only grows, and a lower start of it changes nothing else.\<close>

lemma lines_peak:
  "lines' buf x r = HRet (n, r2) \<Longrightarrow> pending r \<noteq> None \<Longrightarrow> hb r \<le> peak r2"
proof (induction x arbitrary: r rule: measure_induct_rule [of length])
  case (less x)
  from less.prems show ?case
  proof (cases rule: lines_cases)
    case none
    with less.prems show ?thesis by (simp add: peak_def hb_pend hb_bump)
  next
    case (blank e m)
    then show ?thesis by (auto simp: peak_def hb_bump dest!: blank_hb split: option.splits)
  next
    case (line l e q)
    with less.prems have "hb q \<le> peak r2" 
      by (intro less.IH [of e]) (auto simp: pending_bump dest!: line_hb)
    with line show ?thesis by (auto simp: hb_bump dest!: line_hb)
  qed
qed

lemma lines_slack:
  "lines' buf x r = HRet (n, r2) \<Longrightarrow> pending r \<noteq> None \<Longrightarrow> peak r2 + d \<le> max_header_size \<Longrightarrow>
   lines' buf x (bump d r) = HRet (n, bump d r2)"
proof (induction x arbitrary: r rule: measure_induct_rule [of length])
  case (less x)
  from less.prems(1,2) show ?case
  proof (cases rule: lines_cases)
    case none
    with less.prems show ?thesis
      by (simp add: lines_none peak_def hb_pend hb_bump pending_pend pending_bump pend_bump bump_bump ac_simps)
  next
    case (blank e m)
    then have "hb r + sizeof_delimiter + d \<le> max_header_size"
      using blank_hb [OF blank(3)] less.prems(3) by (simp add: peak_def hb_bump split: option.splits)
    moreover have "blank (drop (length buf - length e) buf) (bump d (bump sizeof_delimiter r)) = HRet (m, bump d r2)"
      by (simp add: blank_bump [of _ d] blank(3))
    ultimately show ?thesis
      using blank by (simp add: lines_blank hb_bump bump_bump ac_simps)
  next
    case (line l e q)
    then have q: "pending q \<noteq> None" "hb q = hb r + (length l + sizeof_delimiter)"
      using less.prems by (auto simp: hb_bump pending_bump dest!: line_hb)
    then have "hb r + (length l + sizeof_delimiter) + d \<le> max_header_size"
      using lines_peak [OF line(6)] less.prems(3) by simp
    moreover have "lines' buf e (bump d q) = HRet (n, bump d r2)"
      using line q less.prems(3) by (intro less.IH) auto
    moreover have "line l (bump d (bump (length l + sizeof_delimiter) r)) = HRet (bump d q)"
      by (simp add: line_bump [of _ d] line(5))
    ultimately show ?thesis
      using line by (simp add: lines_line hb_bump bump_bump ac_simps)
  qed
qed

text \<open>The reads of \<open>a\<close> and \<open>b\<close> after one another, the first ending within the header.\<close>

lemma rest_of_line_le:
  assumes "length x \<le> length b \<or> (\<exists>s. x = s @ b \<and> no_crlf s)" "x = l @ 13 # 10 # e"
  shows "length e \<le> length b"
proof (rule ccontr)
  assume "\<not> length e \<le> length b"
  with assms obtain s where s: "l @ 13 # 10 # e = s @ b" "no_crlf s" by auto
  with \<open>\<not> length e \<le> length b\<close> have "\<exists>t. s = l @ 13 # 10 # t"
    by (auto simp: append_eq_append_conv2 Cons_eq_append_conv)
  then show False using s(2) by (auto simp: no_crlf_append no_crlf_Cons)
qed

lemma lines_later:
  "length x \<le> length b \<or> (\<exists>s. x = s @ b \<and> no_crlf s) \<Longrightarrow> pending r \<noteq> None \<Longrightarrow> lines' (a @ b) x r = HRet (n, r2) \<Longrightarrow>
   length a \<le> n \<and> lines' b x (pend (length a) y r) = HRet (n - length a, r2)"
proof (induction x arbitrary: r rule: measure_induct_rule [of length])
  case (less x)
  note e_le = rest_of_line_le [OF less.prems(1)]
  from less.prems(3,2) show ?case
  proof (cases rule: lines_cases)
    case none
    then show ?thesis
      by (simp add: lines_none hb_pend pend_bump pend_pend flip: pend_bump)
  next
    case (blank e m)
    then have "length e \<le> length b" using e_le [of "[]"] by simp
    then have "drop (length (a @ b) - length e) (a @ b) = drop (length b - length e) b"
      "n = length a + (length b - length e) + m" using blank(4) by simp_all
    with blank show ?thesis
      by (simp add: lines_blank hb_pend blank_pend flip: pend_bump)
  next
    case (line l e q)
    then have "length e \<le> length b" "pending q \<noteq> None"
      using e_le less.prems by (auto simp: pending_bump dest!: line_hb)
    with line less.IH [of e q] have *: "length a \<le> n" "lines' b e (pend (length a) y q) = HRet (n - length a, r2)"
      by auto
    have "line l (bump (length l + sizeof_delimiter) (pend (length a) y r)) = HRet (pend (length a) y q)"
      by (simp add: line_pend line(5) flip: pend_bump)
    with line * show ?thesis by (simp add: lines_line hb_pend)
  qed
qed

lemma lines_first:
  assumes "lines' buf (x @ b) r = HRet (n, r2)" "pending r \<noteq> None" "no_crlf x"
  shows "hb r + length x + 2 \<le> peak r2"
  using assms(1,2)
proof (cases rule: lines_cases)
  case none
  with assms(2) show ?thesis
    by (simp add: peak_def hb_pend hb_bump pending_pend pending_bump sizeof_delimiter_def)
next
  case (blank e m)
  with assms(3) have "length x \<le> 1" by (cases x; cases "tl x") (auto simp: no_crlf_Cons)
  with blank show ?thesis by (auto simp: peak_def hb_bump sizeof_delimiter_def dest!: blank_hb split: option.splits)
next
  case (line l e q)
  have "length x \<le> length l + 1"
  proof (rule ccontr)
    assume long: "\<not> length x \<le> length l + 1"
    have "x = take (length x) (l @ 13 # 10 # e)" unfolding line(1) [symmetric] by simp
    with long have "\<exists>t. x = l @ 13 # 10 # t"
      by (cases "length x - length l"; cases "length x - length l - 1") auto
    with assms(3) show False by (auto simp: no_crlf_append no_crlf_Cons)
  qed
  moreover have "hb q \<le> peak r2" "hb q = hb r + (length l + sizeof_delimiter)"
    using line(5,6) assms(2) by (auto intro: lines_peak simp: hb_bump pending_bump dest!: line_hb)
  ultimately show ?thesis by (simp add: sizeof_delimiter_def)
qed

lemma lines_split:
  "lines' (a @ b) (x @ b) r = HRet (n, r2) \<Longrightarrow> pending r \<noteq> None \<Longrightarrow> b \<noteq> [] \<Longrightarrow> peak r2 + sizeof_delimiter \<le> max_header_size \<Longrightarrow>
   length x \<le> length a \<or> (\<exists>s. x = s @ a \<and> no_crlf s) \<Longrightarrow>
   \<exists>k r1 d. lines' a x r = HRet (k, r1) \<and> d \<le> sizeof_delimiter \<and> k \<le> n \<and>
     (finished r1 \<or> (\<exists>s. pending r1 = Some s \<and> no_crlf s)) \<and> consume b r1 = HRet (n - k, bump d r2)"
proof (induction x arbitrary: r rule: measure_induct_rule [of length])
  case (less x)
  show ?case
  proof (cases rule: search_crlf_cases [of x])
    case none
    let ?r1 = "pend (length a) x (bump sizeof_delimiter r)"
    have "length (x @ b) \<le> length b \<or> (\<exists>s. x @ b = s @ b \<and> no_crlf s)" using none by blast
    from lines_later [OF this _ lines_slack [OF less.prems(1,2,4)]]
    have later: "length a \<le> n" "lines' b (x @ b) ?r1 = HRet (n - length a, bump sizeof_delimiter r2)"
      using less.prems(2) by (simp_all add: pending_bump)
    have "hb r + (length x + sizeof_delimiter) \<le> max_header_size"
      using lines_first [OF less.prems(1,2) none(1)] less.prems(4) by (simp add: sizeof_delimiter_def)
    then have "lines' a x r = HRet (length a, ?r1)" by (rule lines_none [OF none(1)])
    moreover have p: "pending ?r1 = Some x" using less.prems(2) by (simp add: pending_pend pending_bump)
    moreover have "consume b ?r1 = HRet (n - length a, bump sizeof_delimiter r2)"
      using later(2) consume_pending [OF p] by simp
    ultimately show ?thesis
      using later(1) none(1) by (intro exI [of _ "length a"] exI [of _ ?r1] exI [of _ sizeof_delimiter]) simp
  next
    case (found l e)
    have e: "length e \<le> length a" by (rule rest_of_line_le [OF less.prems(5) found(1)])
    from less.prems(1,2) have "lines' (a @ b) (l @ 13 # 10 # (e @ b)) r = HRet (n, r2)" by (simp add: found)
    note whole = this
    from whole less.prems(2) show ?thesis
    proof (cases rule: lines_cases)
      case none
      then show ?thesis by (simp add: no_crlf_append no_crlf_Cons)
    next
      case (blank e' m)
      with found(2) have l: "l = []" "e' = e @ b" by (cases l; cases "tl l"; auto simp: no_crlf_Cons)+
      then have "drop (length (a @ b) - length e') (a @ b) = drop (length a - length e) a @ b" using e by simp
      with blank(3) l have "blank (drop (length a - length e) a @ b) (bump sizeof_delimiter r) = HRet (m, r2)" by simp
      then obtain m1 r1 m2 where *: "blank (drop (length a - length e) a) (bump sizeof_delimiter r) = HRet (m1, r1)"
        "consume b r1 = HRet (m2, r2)" "m = m1 + m2"
        using less.prems(2,3) by (auto simp: blank_append pending_bump hbind_eq_HRet)
      have "lines' a x r = HRet (length a - length e + m1, r1)"
        using found(1) l(1) blank(2) *(1) by (simp add: lines_blank)
      moreover have "finished r1" using blank_finished [OF _ *(1)] less.prems(2) by (simp add: pending_bump)
      moreover have "n = length a - length e + m1 + m2" using blank(4) l e * by simp
      ultimately show ?thesis
        using *(2) by (intro exI [of _ "length a - length e + m1"] exI [of _ r1] exI [of _ 0]) (simp add: bump_0)
    next
      case (line l' e' q)
      have le: "l' = l \<and> e' = e @ b"
      proof -
        have "search_from (=) header_delimiter (l @ 13 # 10 # (e @ b)) = 13 # 10 # e'"
          unfolding line(1) by (rule search_crlf_at [OF line(2)])
        then show ?thesis using search_crlf_at [OF found(2), of "e @ b"] line(1) by simp
      qed
      have q: "pending q \<noteq> None" using line(5) less.prems(2) by (auto simp: pending_bump dest!: line_hb)
      have "lines' (a @ b) (e @ b) q = HRet (n, r2)" using line(6) le by simp
      from less.IH [OF _ this q less.prems(3,4)] e found(1)
      obtain k r1 d where "lines' a e q = HRet (k, r1)" "d \<le> sizeof_delimiter" "k \<le> n"
        "finished r1 \<or> (\<exists>s. pending r1 = Some s \<and> no_crlf s)" "consume b r1 = HRet (n - k, bump d r2)" by auto
      moreover from this(1) have "lines' a x r = HRet (k, r1)"
        using found(1) line(2,3,4,5) le by (simp add: lines_line)
      ultimately show ?thesis by blast
    qed
  qed
qed

text \<open>Any cut into reads, as long as the limit leaves three bytes for each.\<close>

lemma reads_finished:
  "finished r \<Longrightarrow> cs \<noteq> [] \<Longrightarrow> reads consume cs r = consume (concat cs) r"
proof (induction cs arbitrary: r)
  case Nil
  then show ?case by simp
next
  case (Cons c cs)
  show ?case
  proof (cases "cs = []")
    case True
    then show ?thesis by (cases "consume c r") auto
  next
    case False
    have "reads consume cs r' = consume (concat cs) r'" if "consume c r = HRet (n, r')" for n r'
      using Cons.IH finished_consume [OF Cons.prems(1) that] False by blast
    then show ?thesis
      by (simp add: finished_append [OF Cons.prems(1)]) (cases "consume c r"; auto)
  qed
qed

lemma reads_whole:
  "pending r = Some s \<Longrightarrow> no_crlf s \<Longrightarrow> cs \<noteq> [] \<Longrightarrow> [] \<notin> set cs \<Longrightarrow>
   consume (concat cs) r = HRet (n, r2) \<Longrightarrow>
   peak r2 + length cs * sizeof_delimiter \<le> max_header_size \<Longrightarrow>
   \<exists>d. reads consume cs r = HRet (n, bump d r2)"
proof (induction cs arbitrary: r s n r2)
  case Nil
  then show ?case by simp
next
  case (Cons c cs)
  show ?case
  proof (cases "cs = []")
    case True
    with Cons.prems show ?thesis by (auto intro!: exI [of _ 0] simp: bump_0)
  next
    case False
    then have "concat cs \<noteq> []" using Cons.prems(4) by (cases cs) auto
    have "lines' (c @ concat cs) ((s @ c) @ concat cs) r = HRet (n, r2)"
      using Cons.prems by (simp add: consume_pending)
    from lines_split [OF this _ \<open>concat cs \<noteq> []\<close>] Cons.prems
    obtain k r1 d where 1: "consume c r = HRet (k, r1)" "d \<le> sizeof_delimiter" "k \<le> n"
      "finished r1 \<or> (\<exists>s. pending r1 = Some s \<and> no_crlf s)" "consume (concat cs) r1 = HRet (n - k, bump d r2)"
      by (auto simp: consume_pending)
    have "\<exists>d'. reads consume cs r1 = HRet (n - k, bump d' (bump d r2))"
    proof (cases "finished r1")
      case True
      then show ?thesis using 1(5) False by (auto simp: reads_finished intro!: exI [of _ 0] simp: bump_0)
    next
      case nf: False
      with 1(4) obtain s' where s': "pending r1 = Some s'" "no_crlf s'" by auto
      have "peak (bump d r2) + length cs * sizeof_delimiter \<le> max_header_size"
        using Cons.prems(6) 1(2) by (simp add: peak_def hb_bump pending_bump)
      from Cons.IH [OF s' False _ 1(5) this] Cons.prems(4) show ?thesis by auto
    qed
    with 1 show ?thesis by (auto simp: bump_bump)
  qed
qed

text \<open>A block of lines, one after the other.\<close>

primrec block :: "bytes list \<Rightarrow> 'r \<Rightarrow> 'r http_result" where
  "block [] r = HRet r"
| "block (l # ls) r = hbind (line l (bump (length l + sizeof_delimiter) r)) (block ls)"

definition block_size :: "bytes list \<Rightarrow> nat" where
  "block_size ls = sum_list (map (\<lambda>l. length l + sizeof_delimiter) ls)"

lemma lines_block:
  "\<forall>l \<in> set ls. no_crlf l \<and> l \<noteq> [] \<Longrightarrow> hb r + block_size ls \<le> max_header_size \<Longrightarrow> block ls r = HRet q \<Longrightarrow>
   lines' buf (concat (map (\<lambda>l. l @ [13, 10]) ls) @ e) r = lines' buf e q \<and> hb q = hb r + block_size ls"
proof (induction ls arbitrary: r)
  case Nil
  then show ?case by (simp add: block_size_def)
next
  case (Cons l ls)
  then obtain r' where r': "line l (bump (length l + sizeof_delimiter) r) = HRet r'" "block ls r' = HRet q"
    by (auto simp: hbind_eq_HRet)
  then have "hb r' = hb r + (length l + sizeof_delimiter)" by (auto simp: hb_bump dest!: line_hb)
  then show ?case
    using Cons.IH [of r'] Cons.prems r' by (simp add: lines_line block_size_def)
qed

end

text \<open>Readers whose lines and bodies have defined behaviour have it for every sequence of reads.\<close>

locale safe_header_reader = header_reader +
  assumes line_defined: "no_crlf l \<Longrightarrow> line l r \<noteq> HUndefined"
    and blank_defined: "blank u r \<noteq> HUndefined"
    and finished_defined: "finished r \<Longrightarrow> consume u r \<noteq> HUndefined"
begin

lemma lines_defined:
  "pending r \<noteq> None \<Longrightarrow> lines' buf x r \<noteq> HUndefined \<and>
   (\<forall>n q. lines' buf x r = HRet (n, q) \<longrightarrow> pending q \<noteq> None \<or> finished q)"
proof (induction x arbitrary: r rule: measure_induct_rule [of length])
  case (less x)
  show ?case
  proof (cases rule: search_crlf_cases [of x])
    case none
    with less.prems show ?thesis
      by (subst (1 2) lines_unfold) (simp add: Let_def pending_pend pending_bump)
  next
    case (found l e)
    have p: "pending (bump d r) \<noteq> None" for d using less.prems by (simp add: pending_bump)
    show ?thesis
    proof (cases "l = []")
      case True
      with found p blank_defined show ?thesis
        by (subst (1 2) lines_unfold)
          (auto simp: Let_def hbind_eq_HUndefined hbind_eq_HRet dest: blank_finished [OF p])
    next
      case False
      have "lines' buf e q \<noteq> HUndefined \<and>
          (\<forall>n p. lines' buf e q = HRet (n, p) \<longrightarrow> pending p \<noteq> None \<or> finished p)"
        if "line l (bump (length l + sizeof_delimiter) r) = HRet q" for q
        using less.IH [of e q] found(1) line_hb [OF that] p by auto
      with found False line_defined [OF found(2)] show ?thesis
        by (subst (1 2) lines_unfold) (auto simp: Let_def hbind_eq_HUndefined hbind_eq_HRet)
    qed
  qed
qed

lemma reads_defined:
  "pending r \<noteq> None \<or> finished r \<Longrightarrow> reads consume cs r \<noteq> HUndefined"
proof (induction cs arbitrary: r)
  case Nil
  then show ?case by simp
next
  case (Cons c cs)
  have "consume c r \<noteq> HUndefined \<and> (\<forall>n q. consume c r = HRet (n, q) \<longrightarrow> pending q \<noteq> None \<or> finished q)"
  proof (cases "finished r")
    case True
    then show ?thesis using finished_defined finished_consume by blast
  next
    case False
    then obtain s where s: "pending r = Some s" using Cons.prems by auto
    then show ?thesis using lines_defined [of r c "s @ c"] by (simp add: consume_pending [OF s])
  qed
  then show ?case using Cons.IH by (auto simp: hbind_eq_HUndefined)
qed

end

text \<open>A header printed in order is read to the end of the list.\<close>

definition header_line :: "bytes \<times> bytes \<Rightarrow> bytes" where
  "header_line h = fst h @ str '': '' @ snd h"

definition headers_printable :: "header_list \<Rightarrow> bool" where
  "headers_printable hs \<longleftrightarrow>
     headers_ordered hs \<and> (\<forall>h \<in> set hs. header_name (fst h) \<and> header_value (snd h))"

lemma raw_headers_lines: "raw_headers p = concat (map (\<lambda>l. l @ [13, 10]) (map header_line (m_headers p)))"
  by (simp add: raw_headers_def header_line_def comp_def case_prod_unfold)

lemma header_find_above: "\<forall>h \<in> set hs. ci_less (fst h) k \<Longrightarrow> header_find k hs = None"
  by (induction hs) (auto simp: header_find_Cons ci_equal_def)

lemma process_header_last:
  assumes "header_name k" "header_value v" "\<forall>h \<in> set (m_headers p). ci_less (fst h) k"
  shows "process_header (header_line (k, v)) p = HRet (p\<lparr>m_headers := m_headers p @ [(k, v)]\<rparr>)"
proof -
  have "process_header (header_line (k, v)) p = append_header k v p"
    using process_header_line [OF assms(1,2)] by (simp add: header_line_def)
  also have "get_header p k = []" using assms(3) by (simp add: get_header_def header_find_above)
  with assms have "append_header k v p = HRet (p\<lparr>m_headers := m_headers p @ [(k, v)]\<rparr>)"
    by (simp add: append_header_new header_assign_last)
  finally show ?thesis .
qed

lemma header_line_no_crlf:
  "header_name (fst h) \<Longrightarrow> header_value (snd h) \<Longrightarrow> no_crlf (header_line h) \<and> header_line h \<noteq> []"
  by (auto simp: header_line_def no_crlf_append header_name_no_crlf header_value_def str_def byte_of_char_def
    no_crlf_Cons split: if_splits)

lemma no_crlf_no_cr: "13 \<notin> set s \<Longrightarrow> no_crlf s"
  by (induction s) (auto simp: no_crlf_Cons)

text \<open>\<open>Content-Length\<close> and the body of a message agree.\<close>

definition body_agrees :: "'a parser_scheme \<Rightarrow> bool" where
  "body_agrees p \<longleftrightarrow>
     (if get_header p (str ''Content-Length'') = [] then m_body p = []
      else get_header p (str ''Content-Length'') = str (udec (length (m_body p))))"

lemma set_body_agrees: "headers_ordered (m_headers p) \<Longrightarrow> body_agrees (set_body val p)"
  by (auto simp: body_agrees_def set_body_def remove_header_def replace_header_def get_header_def
    headers.find_assign_same headers.find_erase)

text \<open>What the limit counts for the header of a message.\<close>

definition header_size :: "bytes list \<Rightarrow> nat" where
  "header_size ls = sum_list (map (\<lambda>l. length l + sizeof_delimiter) ls) + sizeof_delimiter"

text \<open>The fields a header line may change.\<close>

lemma get_header_update [simp]:
  "get_header (p\<lparr>m_header_bytes := n\<rparr>) k = get_header p k"
  "get_header (p\<lparr>m_body_bytes_needed := n\<rparr>) k = get_header p k"
  by (simp_all add: get_header_def)

lemma append_header_update:
  "append_header k v (p\<lparr>m_header_bytes := n\<rparr>) = hmap (\<lambda>p. p\<lparr>m_header_bytes := n\<rparr>) (append_header k v p)"
  by (simp add: append_header_def)

lemma hmap_hbind: "hmap f (hbind m g) = hbind m (\<lambda>a. hmap f (g a))"
  by (cases m) auto

lemma process_header_update:
  "process_header l (p\<lparr>m_header_bytes := n\<rparr>) = hmap (\<lambda>p. p\<lparr>m_header_bytes := n\<rparr>) (process_header l p)"
  by (simp add: process_header_def Let_def append_header_update hmap_hbind)

lemma append_header_fields:
  "append_header k v p = HRet q \<Longrightarrow> \<exists>hs. q = p\<lparr>m_headers := hs\<rparr>"
  by (auto simp: append_header_def split: if_splits)

lemma process_header_fields: "process_header l p = HRet q \<Longrightarrow> \<exists>hs. q = p\<lparr>m_headers := hs\<rparr>"
  by (auto simp: process_header_def Let_def hbind_eq_HRet split: if_splits dest: append_header_fields)

end
