(* ===== verification/Ws_Http_Request.thy ===== *)
theory Ws_Http_Request
  imports Ws_Http_Reader
begin

text \<open>
  The class \<open>request\<close> of \<open>WebSocketPP/websocketpp/http/request.hpp\<close> and
  \<open>http/impl/request.hpp\<close>: reading a request from a connection and printing one. It is an
  interpretation of \<open>header_reader\<close>; a request that is printed is read back, in any cut.
\<close>

subsection \<open>State\<close>

text \<open>\<open>m_buf\<close> is a shared pointer, null once the header is complete.\<close>

record request = parser +
  req_buf :: "bytes option"
  m_method :: bytes
  m_uri :: bytes
  m_ready :: bool

definition request_init :: request where
  "request_init = \<lparr>m_version = [], m_headers = [], m_header_bytes = 0, m_body = [],
     m_body_bytes_needed = 0, m_body_bytes_max = max_body_size, m_body_encoding = Unknown_encoding,
     req_buf = Some [], m_method = [], m_uri = [], m_ready = False\<rparr>"

definition set_method :: "bytes \<Rightarrow> request \<Rightarrow> request http_result" where
  "set_method m r =
     (if list_ex is_not_token_char m then http_throw ''Invalid method token.'' sc_bad_request
      else HRet (r\<lparr>m_method := m\<rparr>))"

definition set_uri :: "bytes \<Rightarrow> request \<Rightarrow> request" where
  "set_uri u r = r\<lparr>m_uri := u\<rparr>"

definition request_process :: "bytes \<Rightarrow> request \<Rightarrow> request http_result" where
  "request_process line r =
     (let cursor_end = dropWhile (\<lambda>c. c \<noteq> 32) line in
      if cursor_end = [] then http_throw ''Invalid request line1'' sc_bad_request
      else hbind (set_method (takeWhile (\<lambda>c. c \<noteq> 32) line) r) (\<lambda>r.
        let cursor_start = tl cursor_end;
            cursor_end = dropWhile (\<lambda>c. c \<noteq> 32) cursor_start
        in if cursor_end = [] then http_throw ''Invalid request line2'' sc_bad_request
           else HRet (set_version (tl cursor_end)
                  (set_uri (takeWhile (\<lambda>c. c \<noteq> 32) cursor_start) r))))"

subsection \<open>Reading\<close>

text \<open>A line of the header, and what follows the blank line.\<close>

definition request_line :: "bytes \<Rightarrow> request \<Rightarrow> request http_result" where
  "request_line line r = (if m_method r = [] then request_process line r else process_header line r)"

definition request_body :: "bytes \<Rightarrow> request \<Rightarrow> (nat \<times> request) http_result" where
  "request_body buf r =
     hbind (parser_process_body buf r) (\<lambda>(n, r). HRet (n, if body_ready r then r\<lparr>m_ready := True\<rparr> else r))"

definition request_blank :: "bytes \<Rightarrow> request \<Rightarrow> (nat \<times> request) http_result" where
  "request_blank rest r =
     (if m_method r = [] \<or> get_header r (str ''Host'') = [] then http_throw ''Incomplete Request'' sc_bad_request
      else hbind (prepare_body (r\<lparr>req_buf := None\<rparr>)) (\<lambda>(more, r).
        if more then request_body rest r else HRet (0, r\<lparr>m_ready := True\<rparr>)))"

definition count_header :: "nat \<Rightarrow> 'a parser_scheme \<Rightarrow> 'a parser_scheme" where
  "count_header n p = p\<lparr>m_header_bytes := m_header_bytes p + n\<rparr>"

text \<open>
  The loop on the lines in the buffer; \<open>begin'\<close> is the suffix of the buffer that is left, and
  \<open>buf\<close> the bytes of this call. The number of bytes processed is computed modulo the word
  size in the source; the blank line ends in \<open>buf\<close>, so the sum is not negative. Copying the
  rest to the front of the buffer leaves the rest.
\<close>

function request_loop :: "bytes \<Rightarrow> bytes \<Rightarrow> request \<Rightarrow> (nat \<times> request) http_result" where
  "request_loop buf begin' r =
     (let end' = search_from (=) header_delimiter begin';
          k = length begin' - length end';
          r = count_header (k + sizeof_delimiter) r
      in if max_header_size < m_header_bytes r
         then http_throw ''Maximum header size exceeded.'' sc_request_header_fields_too_large
         else if end' = []
         then HRet (length buf, r\<lparr>req_buf := Some begin', m_header_bytes := m_header_bytes r - length begin'\<rparr>)
         else if k = 0 then
           (let bytes_processed = length buf + 2 - length end' in
            hbind (request_blank (drop bytes_processed buf) r)
              (\<lambda>(n, r). HRet (bytes_processed + n, r)))
         else hbind (request_line (take k begin') r) (request_loop buf (drop 2 end')))"
  by auto
termination
  by (relation "measure (\<lambda>(buf, x, r). length x)") (use drop_search_less in auto)

declare request_loop.simps [simp del]

definition request_consume :: "bytes \<Rightarrow> request \<Rightarrow> (nat \<times> request) http_result" where
  "request_consume buf r =
     (if m_ready r then HRet (0, r)
      else if 0 < m_body_bytes_needed r then request_body buf r
      else (case req_buf r of
              None \<Rightarrow> HUndefined
            | Some s \<Rightarrow> request_loop buf (s @ buf) r))"

subsection \<open>Printing\<close>

definition request_raw_head :: "request \<Rightarrow> bytes" where
  "request_raw_head r =
     m_method r @ [32] @ m_uri r @ [32] @ m_version r @ [13, 10] @ raw_headers r @ [13, 10]"

definition request_raw :: "request \<Rightarrow> bytes" where
  "request_raw r =
     m_method r @ [32] @ m_uri r @ [32] @ m_version r @ [13, 10] @ raw_headers r @ [13, 10] @ m_body r"

subsection \<open>The contract of readers\<close>

definition request_pending :: "request \<Rightarrow> bytes option" where
  "request_pending r = (if m_ready r \<or> 0 < m_body_bytes_needed r then None else req_buf r)"

definition request_finished :: "request \<Rightarrow> bool" where
  "request_finished r \<longleftrightarrow> m_ready r \<or> (0 < m_body_bytes_needed r \<and> m_body_encoding r = Plain)"

definition request_keep :: "nat \<Rightarrow> bytes \<Rightarrow> request \<Rightarrow> request" where
  "request_keep n s r = r\<lparr>req_buf := Some s\<rparr>"

text \<open>The fields a header line may change.\<close>

lemma get_header_req_buf [simp]: "get_header (r\<lparr>req_buf := b\<rparr>) k = get_header r k"
  by (simp add: get_header_def)

lemma append_header_req_buf:
  "append_header k v (r\<lparr>req_buf := b\<rparr>) = hmap (\<lambda>r. r\<lparr>req_buf := b\<rparr>) (append_header k v r)"
  by (simp add: append_header_def)

lemma process_header_req_buf:
  "process_header l (r\<lparr>req_buf := b\<rparr>) = hmap (\<lambda>r. r\<lparr>req_buf := b\<rparr>) (process_header l r)"
  by (simp add: process_header_def Let_def append_header_req_buf hmap_hbind)

lemma request_process_update:
  "request_process l (r\<lparr>m_header_bytes := n\<rparr>) = hmap (\<lambda>r. r\<lparr>m_header_bytes := n\<rparr>) (request_process l r)"
  "request_process l (r\<lparr>req_buf := b\<rparr>) = hmap (\<lambda>r. r\<lparr>req_buf := b\<rparr>) (request_process l r)"
  unfolding request_process_def set_method_def set_uri_def set_version_def Let_def
  by (simp_all del: dropWhile_eq_Nil_conv)

lemma request_process_HRet:
  "request_process l r = HRet q \<longleftrightarrow>
   (let m = takeWhile (\<lambda>c. c \<noteq> 32) l; s = dropWhile (\<lambda>c. c \<noteq> 32) l; u = takeWhile (\<lambda>c. c \<noteq> 32) (tl s);
        v = dropWhile (\<lambda>c. c \<noteq> 32) (tl s)
    in s \<noteq> [] \<and> \<not> list_ex is_not_token_char m \<and> v \<noteq> [] \<and>
       q = r\<lparr>m_method := m, m_uri := u, m_version := tl v\<rparr>)"
  unfolding request_process_def Let_def set_method_def set_uri_def set_version_def
  by (auto simp del: dropWhile_eq_Nil_conv)

lemma request_line_update:
  "request_line l (r\<lparr>m_header_bytes := n\<rparr>) = hmap (\<lambda>r. r\<lparr>m_header_bytes := n\<rparr>) (request_line l r)"
  "request_line l (r\<lparr>req_buf := b\<rparr>) = hmap (\<lambda>r. r\<lparr>req_buf := b\<rparr>) (request_line l r)"
  by (simp_all add: request_line_def request_process_update process_header_update process_header_req_buf)

lemma request_line_fields:
  assumes "request_line l r = HRet q"
  shows "m_header_bytes q = m_header_bytes r" "req_buf q = req_buf r" "m_ready q = m_ready r"
    "m_body q = m_body r" "m_body_bytes_needed q = m_body_bytes_needed r"
    "m_body_bytes_max q = m_body_bytes_max r" "m_body_encoding q = m_body_encoding r"
proof -
  have "m_header_bytes q = m_header_bytes r \<and> req_buf q = req_buf r \<and> m_ready q = m_ready r \<and>
    m_body q = m_body r \<and> m_body_bytes_needed q = m_body_bytes_needed r \<and>
    m_body_bytes_max q = m_body_bytes_max r \<and> m_body_encoding q = m_body_encoding r"
  proof (cases "m_method r = []")
    case True
    with assms show ?thesis by (auto simp: request_line_def request_process_HRet Let_def)
  next
    case False
    with assms show ?thesis by (auto simp: request_line_def dest!: process_header_fields)
  qed
  then show "m_header_bytes q = m_header_bytes r" "req_buf q = req_buf r" "m_ready q = m_ready r"
    "m_body q = m_body r" "m_body_bytes_needed q = m_body_bytes_needed r"
    "m_body_bytes_max q = m_body_bytes_max r" "m_body_encoding q = m_body_encoding r" by blast+
qed

lemma hmap_line_count:
  "request_line l (count_header d r) = hmap (count_header d) (request_line l r)"
  by (cases "request_line l r")
    (simp_all add: count_header_def request_line_update request_line_fields)

lemma request_line_keep: "request_line l (request_keep n s r) = hmap (request_keep n s) (request_line l r)"
  by (simp add: request_keep_def request_line_update hmap_def)

lemma prepare_body_HRet:
  "prepare_body p = HRet (needs, q) \<longleftrightarrow>
   (needs \<longleftrightarrow> get_header p (str ''Content-Length'') \<noteq> []) \<and>
   (needs \<longrightarrow> strtoul (get_header p (str ''Content-Length'')) \<le> m_body_bytes_max p) \<and>
   q = (if needs then p\<lparr>m_body_bytes_needed := strtoul (get_header p (str ''Content-Length'')), m_body_encoding := Plain\<rparr>
        else p)"
  by (auto simp: prepare_body_def Let_def)

lemma parser_process_body_cases:
  "parser_process_body u p = HRet (n, q) \<longleftrightarrow>
   m_body_encoding p = Plain \<and> n = min (m_body_bytes_needed p) (length u) \<and>
   q = p\<lparr>m_body := m_body p @ take n u, m_body_bytes_needed := m_body_bytes_needed p - n\<rparr>"
  by (auto simp: parser_process_body_def Let_def)

lemma request_body_plain: "m_body_encoding r = Plain \<Longrightarrow> request_body u r =
   HRet (min (m_body_bytes_needed r) (length u),
     r\<lparr>m_body := m_body r @ take (m_body_bytes_needed r) u,
       m_body_bytes_needed := m_body_bytes_needed r - length u,
       m_ready := m_ready r \<or> m_body_bytes_needed r \<le> length u\<rparr>)"
  by (auto simp: request_body_def parser_process_body_def body_ready_def Let_def min_def)

lemma request_body_append:
  "m_body_encoding r = Plain \<Longrightarrow> \<not> m_ready r \<Longrightarrow>
   request_body (u @ v) r = hbind (request_body u r) (\<lambda>(n, r). hbind (request_consume v r) (\<lambda>(m, r). HRet (n + m, r)))"
  by (auto simp: request_body_plain request_consume_def min_def)

lemma request_blank_bump:
  "request_blank u (count_header d r) = hmap (map_prod id (count_header d)) (request_blank u r)"
  by (auto simp: request_blank_def count_header_def prepare_body_def Let_def request_body_plain)

interpretation request: header_reader request_line request_blank request_keep count_header m_header_bytes
  request_pending request_finished request_loop request_consume
proof (unfold_locales, goal_cases)
  case (1 buf x r)
  have "search_from (=) header_delimiter x = [] \<Longrightarrow> length x - length (search_from (=) header_delimiter x) = length x" by simp
  then show ?case
    by (subst request_loop.simps) (auto simp: Let_def count_header_def request_keep_def)
next
  case (2 r s buf)
  then show ?case by (auto simp: request_pending_def request_consume_def split: if_splits)
next
  case (11 l d r)
  show ?case by (rule hmap_line_count)
next
  case (12 l n x r)
  show ?case by (rule request_line_keep)
next
  case (13 l r r')
  then show ?case by (simp add: request_pending_def request_line_fields)
next
  case (14 u d r)
  show ?case by (rule request_blank_bump)
next
  case (15 u n x r)
  then show ?case by (simp add: request_blank_def request_keep_def)
next
  case (16 u r n r')
  then show ?case
    by (auto simp: request_blank_def hbind_eq_HRet request_body_plain prepare_body_HRet split: if_splits)
next
  case (17 r u n r')
  then show ?case
    by (auto simp: request_blank_def hbind_eq_HRet request_body_plain prepare_body_HRet request_finished_def
      split: if_splits)
next
  case (18 r v u)
  then have "\<not> m_ready r" by (auto simp: request_pending_def)
  then show ?case
    by (auto simp: request_blank_def prepare_body_def Let_def request_body_append request_consume_def)
next
  case (19 r u v)
  then show ?case
    by (cases "m_ready r") (auto simp: request_finished_def request_consume_def [of "u @ v" r] request_consume_def [of u r]
        request_consume_def [of _ r] request_body_append)
next
  case (20 r u n r')
  then show ?case
    by (auto simp: request_finished_def request_consume_def request_body_plain split: if_splits)
qed (auto simp: count_header_def request_keep_def request_pending_def split: if_splits)

text \<open>No sequence of reads has undefined behaviour.\<close>

lemma request_line_defined: "no_crlf l \<Longrightarrow> request_line l r \<noteq> HUndefined"
  unfolding request_line_def request_process_def set_method_def set_uri_def set_version_def Let_def
  by (auto simp: process_header_defined hbind_eq_HUndefined simp del: dropWhile_eq_Nil_conv)

interpretation request: safe_header_reader request_line request_blank request_keep count_header m_header_bytes
  request_pending request_finished request_loop request_consume
proof (unfold_locales, goal_cases)
  case (1 l r)
  then show ?case by (rule request_line_defined)
next
  case (2 u r)
  show ?case
    by (auto simp: request_blank_def prepare_body_def Let_def hbind_eq_HUndefined request_body_plain)
next
  case (3 r u)
  then show ?case by (auto simp: request_finished_def request_consume_def request_body_plain)
qed

lemma request_reads_defined: "reads request_consume cs request_init \<noteq> HUndefined"
  by (rule request.reads_defined) (simp add: request_pending_def request_init_def)

subsection \<open>Printing and reading\<close>

definition request_line_text :: "request \<Rightarrow> bytes" where
  "request_line_text r = m_method r @ [32] @ m_uri r @ [32] @ m_version r"

definition request_lines :: "request \<Rightarrow> bytes list" where
  "request_lines r = request_line_text r # map header_line (m_headers r)"

definition request_printable :: "request \<Rightarrow> bool" where
  "request_printable r \<longleftrightarrow>
     m_method r \<noteq> [] \<and> header_name (m_method r) \<and> 32 \<notin> set (m_uri r) \<and> no_crlf (m_uri r) \<and>
     no_crlf (m_version r) \<and> headers_printable (m_headers r) \<and> get_header r (str ''Host'') \<noteq> [] \<and>
     body_agrees r \<and> length (m_body r) \<le> max_body_size"

definition request_read_back :: "request \<Rightarrow> request" where
  "request_read_back r = r\<lparr>m_header_bytes := header_size (request_lines r), m_body_bytes_needed := 0,
     m_body_bytes_max := max_body_size,
     m_body_encoding := (if get_header r (str ''Content-Length'') = [] then Unknown_encoding else Plain),
     req_buf := None, m_ready := True\<rparr>"

lemma request_raw_lines:
  "request_raw r = concat (map (\<lambda>l. l @ [13, 10]) (request_lines r)) @ 13 # 10 # m_body r"
  by (simp add: request_raw_def request_lines_def request_line_text_def raw_headers_lines)

lemma request_process_text:
  assumes "header_name (m_method r)" "32 \<notin> set (m_uri r)"
  shows "request_process (request_line_text r) q =
    HRet (q\<lparr>m_method := m_method r, m_uri := m_uri r, m_version := m_version r\<rparr>)"
proof -
  have "32 \<notin> set (m_method r)" using assms(1) by (auto simp: header_name_def list_ex_iff dest: token_char)
  then have "\<forall>c \<in> set (m_method r). c \<noteq> 32" "\<forall>c \<in> set (m_uri r). c \<noteq> 32" using assms(2) by auto
  then show ?thesis
    using assms(1)
    by (simp add: request_process_HRet request_line_text_def header_name_def Let_def
      takeWhile_append2 dropWhile_append2)
qed

lemma request_headers_block:
  "headers_ordered (m_headers q @ hs) \<Longrightarrow> \<forall>h \<in> set hs. header_name (fst h) \<and> header_value (snd h) \<Longrightarrow> m_method q \<noteq> [] \<Longrightarrow>
   request.block (map header_line hs) q =
     HRet (count_header (request.block_size (map header_line hs)) (q\<lparr>m_headers := m_headers q @ hs\<rparr>))"
proof (induction hs arbitrary: q)
  case Nil
  then show ?case by (simp add: request.block_size_def) (simp add: count_header_def)
next
  case (Cons h hs)
  obtain k v where h: "h = (k, v)" by fastforce
  let ?q = "count_header (length (header_line h) + sizeof_delimiter) q"
  let ?q' = "?q\<lparr>m_headers := m_headers q @ [h]\<rparr>"
  have "\<forall>h' \<in> set (m_headers ?q). ci_less (fst h') k"
    using Cons.prems(1) h by (auto simp: headers_ordered_def sorted_wrt_append count_header_def)
  then have "request_line (header_line h) ?q = HRet ?q'"
    using Cons.prems(2,3) h process_header_last [of k v ?q] by (simp add: request_line_def count_header_def)
  moreover have "request.block (map header_line hs) ?q' =
     HRet (count_header (request.block_size (map header_line hs)) (?q'\<lparr>m_headers := m_headers ?q' @ hs\<rparr>))"
    using Cons.prems by (intro Cons.IH) (simp_all add: count_header_def)
  ultimately have "request.block (map header_line (h # hs)) q =
     HRet (count_header (request.block_size (map header_line hs)) (?q'\<lparr>m_headers := m_headers ?q' @ hs\<rparr>))"
    by simp
  also have "count_header (request.block_size (map header_line hs)) (?q'\<lparr>m_headers := m_headers ?q' @ hs\<rparr>) =
     count_header (request.block_size (map header_line (h # hs))) (q\<lparr>m_headers := m_headers q @ h # hs\<rparr>)"
    by (simp add: count_header_def request.block_size_def)
  finally show ?case .
qed

lemma request_lines_no_crlf:
  "request_printable r \<Longrightarrow> \<forall>l \<in> set (request_lines r). no_crlf l \<and> l \<noteq> []"
  using header_line_no_crlf
  by (fastforce simp: request_lines_def request_line_text_def request_printable_def headers_printable_def no_crlf_append
    no_crlf_Cons header_name_no_crlf)

lemma request_roundtrip:
  assumes r: "request_printable r" and size: "header_size (request_lines r) \<le> max_header_size"
  shows "request_consume (request_raw r @ rest) request_init = HRet (length (request_raw r), request_read_back r)"
proof -
  let ?text = "request_line_text r" and ?hs = "map header_line (m_headers r)"
  let ?start = "request_init\<lparr>m_header_bytes := length ?text + sizeof_delimiter,
    m_method := m_method r, m_uri := m_uri r, m_version := m_version r\<rparr>"
  let ?q = "count_header (request.block_size ?hs) (?start\<lparr>m_headers := m_headers r\<rparr>)"
  have "request_line ?text (count_header (length ?text + sizeof_delimiter) request_init) = HRet ?start"
    using r request_process_text [of r] by (simp add: request_line_def request_init_def count_header_def request_printable_def)
  moreover have "request.block ?hs ?start = HRet ?q"
    using request_headers_block [of ?start "m_headers r"] r
    by (simp add: request_init_def request_printable_def headers_printable_def)
  ultimately have block: "request.block (request_lines r) request_init = HRet ?q"
    by (simp add: request_lines_def)
  have hb: "m_header_bytes ?q = request.block_size (request_lines r)"
    by (simp add: count_header_def request_lines_def request.block_size_def)
  have total: "request.block_size (request_lines r) + sizeof_delimiter = header_size (request_lines r)"
    by (simp add: header_size_def request.block_size_def)
  let ?x = "request_raw r @ rest" and ?e = "m_body r @ rest"
  have "request_loop ?x ?x request_init = request_loop ?x (13 # 10 # ?e) ?q"
    using request.lines_block [OF request_lines_no_crlf [OF r] _ block] size total
    by (simp add: request_raw_lines request_init_def)
  also have "\<dots> = hbind (request_blank ?e (count_header sizeof_delimiter ?q))
      (\<lambda>(n, q). HRet (length ?x - length ?e + n, q))"
  proof -
    have "drop (length ?x - length ?e) ?x = ?e" by (simp add: request_raw_lines)
    then show ?thesis using request.lines_blank [of ?q ?x ?e] size hb total by simp
  qed
  also have "request_blank ?e (count_header sizeof_delimiter ?q) = HRet (length (m_body r), request_read_back r)"
  proof -
    let ?cl = "str ''Content-Length''"
    have small: "length (m_body r) < 2 ^ 64" using r by (simp add: request_printable_def max_body_size_def)
    show ?thesis
    proof (cases "get_header r ?cl = []")
      case True
      with r hb total show ?thesis
        by (simp add: request_blank_def request_printable_def prepare_body_def body_agrees_def request_read_back_def
          count_header_def request_init_def get_header_def)
    next
      case False
      with r have cl: "get_header r ?cl = str (udec (length (m_body r)))"
        by (simp add: request_printable_def body_agrees_def)
      with r hb total small show ?thesis
        by (simp add: request_blank_def request_printable_def prepare_body_def Let_def strtoul_udec
          request_read_back_def request_body_plain count_header_def request_init_def get_header_def)
    qed
  qed
  finally have "request_loop ?x ?x request_init =
      HRet (length ?x - length ?e + length (m_body r), request_read_back r)" by simp
  moreover have "length ?x - length ?e + length (m_body r) = length (request_raw r)"
    by (simp add: request_raw_lines)
  ultimately show ?thesis
    by (simp add: request_consume_def request_init_def)
qed

text \<open>The same in any cut into reads for which the limit has room.\<close>

lemma request_in_reads:
  assumes "request_printable r" "concat cs = request_raw r @ rest" "cs \<noteq> []" "[] \<notin> set cs"
    "header_size (request_lines r) + length cs * sizeof_delimiter \<le> max_header_size"
  shows "\<exists>d. reads request_consume cs request_init = HRet (length (request_raw r), count_header d (request_read_back r))"
proof -
  have "request_pending request_init = Some []" by (simp add: request_pending_def request_init_def)
  moreover have "request_consume (concat cs) request_init = HRet (length (request_raw r), request_read_back r)"
    unfolding assms(2) using assms by (intro request_roundtrip) auto
  moreover have "request.peak (request_read_back r) = header_size (request_lines r)"
    by (simp add: request.peak_def request_read_back_def request_pending_def)
  ultimately show ?thesis
    using request.reads_whole [of request_init "[]" cs] assms(3-5) by simp
qed

text \<open>
  Every read that ends within a line counts \<open>sizeof_delimiter\<close> more bytes than it brings: a
  line read byte by byte meets the limit at a quarter of its size.
\<close>

lemma request_byte_read:
  assumes "req_buf r = Some p" "\<not> m_ready r" "m_body_bytes_needed r = 0" "no_crlf (p @ [c])"
  shows "request_consume [c] r =
    (if max_header_size < m_header_bytes r + length p + 4
     then http_throw ''Maximum header size exceeded.'' sc_request_header_fields_too_large
     else HRet (1, r\<lparr>req_buf := Some (p @ [c]), m_header_bytes := m_header_bytes r + 3\<rparr>))"
  using assms by (simp add: request_consume_def request_loop.simps [of _ "p @ [c]"] no_crlf_def Let_def
      count_header_def sizeof_delimiter_def ac_simps)

lemma request_bytes_read:
  "req_buf r = Some p \<Longrightarrow> \<not> m_ready r \<Longrightarrow> m_body_bytes_needed r = 0 \<Longrightarrow> no_crlf (p @ s) \<Longrightarrow>
   m_header_bytes r + length p \<le> max_header_size \<Longrightarrow>
   reads request_consume (map (\<lambda>c. [c]) s) r =
    (if max_header_size < m_header_bytes r + length p + 4 * length s
     then http_throw ''Maximum header size exceeded.'' sc_request_header_fields_too_large
     else HRet (length s, r\<lparr>req_buf := Some (p @ s), m_header_bytes := m_header_bytes r + 3 * length s\<rparr>))"
proof (induction s arbitrary: r p)
  case Nil
  then show ?case by simp
next
  case (Cons c s)
  then have nc: "no_crlf (p @ [c])" using no_crlf_append [of "p @ [c]" s] by simp
  let ?r = "r\<lparr>req_buf := Some (p @ [c]), m_header_bytes := m_header_bytes r + 3\<rparr>"
  show ?case
  proof (cases "max_header_size < m_header_bytes r + length p + 4")
    case True
    with Cons.prems nc show ?thesis by (simp add: request_byte_read)
  next
    case False
    with Cons.prems Cons.IH [of ?r "p @ [c]"] request_byte_read [of r p c] nc show ?thesis
      by (simp add: ac_simps)
  qed
qed

lemma slow_reads_rejected:
  assumes "no_crlf s" "max_header_size < 4 * length s" "length s + sizeof_delimiter \<le> max_header_size"
  shows "reads request_consume (map (\<lambda>c. [c]) s) request_init =
      http_throw ''Maximum header size exceeded.'' sc_request_header_fields_too_large"
    and "\<exists>r. reads request_consume [s] request_init = HRet (length s, r)"
  using request_bytes_read [of request_init "[]" s] assms
  by (auto simp: request_init_def request_consume_def request_loop.simps [of _ s] no_crlf_def Let_def
      count_header_def sizeof_delimiter_def)

text \<open>A first line with an empty method is taken for no request line at all.\<close>

lemma empty_method_skipped:
  "32 \<notin> set u \<Longrightarrow> request_line (32 # u @ 32 # v) r =
     (if m_method r = [] then HRet (r\<lparr>m_method := [], m_uri := u, m_version := v\<rparr>)
      else process_header (32 # u @ 32 # v) r)"
proof -
  assume "32 \<notin> set u"
  then have "\<forall>c \<in> set u. c \<noteq> 32" by auto
  then show ?thesis
    by (simp add: request_line_def request_process_HRet Let_def takeWhile_append2 dropWhile_append2)
qed

end
