(* ===== verification/Ws_Http_Response.thy ===== *)
theory Ws_Http_Response
  imports Ws_Http_Reader
begin

text \<open>
  The class \<open>response\<close> of \<open>WebSocketPP/websocketpp/http/response.hpp\<close> and
  \<open>http/impl/response.hpp\<close>: printing a response and reading one from a connection, the second
  interpretation of \<open>header_reader\<close>.
\<close>

subsection \<open>State\<close>

datatype response_state = RESPONSE_LINE | HEADERS | BODY | DONE

record response = parser +
  m_status_msg :: bytes
  m_read :: nat
  res_buf :: "bytes option"
  m_status_code :: status_code
  res_state :: response_state

definition response_init :: response where
  "response_init = \<lparr>m_version = [], m_headers = [], m_header_bytes = 0, m_body = [],
     m_body_bytes_needed = 0, m_body_bytes_max = max_body_size, m_body_encoding = Unknown_encoding,
     m_status_msg = [], m_read = 0, res_buf = Some [], m_status_code = sc_uninitialized,
     res_state = RESPONSE_LINE\<rparr>"

definition response_ready :: "response \<Rightarrow> bool" where
  "response_ready r \<longleftrightarrow> res_state r = DONE"

definition headers_ready :: "response \<Rightarrow> bool" where
  "headers_ready r \<longleftrightarrow> res_state r = BODY \<or> res_state r = DONE"

definition set_status_msg :: "status_code \<Rightarrow> bytes \<Rightarrow> response \<Rightarrow> response" where
  "set_status_msg code msg r = r\<lparr>m_status_code := code, m_status_msg := msg\<rparr>"

definition set_status :: "status_code \<Rightarrow> response \<Rightarrow> response" where
  "set_status code r = r\<lparr>m_status_code := code, m_status_msg := str (status_code_string code)\<rparr>"

subsection \<open>Reading\<close>

definition response_process :: "bytes \<Rightarrow> response \<Rightarrow> response http_result" where
  "response_process line r =
     (let cursor_end = dropWhile (\<lambda>c. c \<noteq> 32) line in
      if cursor_end = [] then http_throw ''Invalid response line'' sc_bad_request
      else
        (let r = set_version (takeWhile (\<lambda>c. c \<noteq> 32) line) r;
             cursor_start = tl cursor_end;
             cursor_end = dropWhile (\<lambda>c. c \<noteq> 32) cursor_start
         in if cursor_end = [] then http_throw ''Invalid request line'' sc_bad_request
            else (case read_int (takeWhile (\<lambda>c. c \<noteq> 32) cursor_start) of
                    None \<Rightarrow> http_throw ''Unable to parse response code'' sc_bad_request
                  | Some code \<Rightarrow> HRet (set_status_msg code (tl cursor_end) r))))"

text \<open>Without a content length, the first byte after the header ends the response.\<close>

definition response_process_body :: "bytes \<Rightarrow> response \<Rightarrow> nat \<times> response" where
  "response_process_body buf r =
     (if m_read r = 0 then (0, r\<lparr>res_state := DONE\<rparr>)
      else
        (let to_read = (if m_read r \<le> length buf then m_read r else length buf);
             r = (if m_read r \<le> length buf then r\<lparr>res_state := DONE\<rparr> else r)
         in (to_read, r\<lparr>m_body := m_body r @ take to_read buf, m_read := m_read r - to_read\<rparr>)))"

definition response_line :: "bytes \<Rightarrow> response \<Rightarrow> response http_result" where
  "response_line line r =
     (if res_state r = RESPONSE_LINE
      then hbind (response_process line r) (\<lambda>r. HRet (r\<lparr>res_state := HEADERS\<rparr>))
      else process_header line r)"

definition response_length :: "response \<Rightarrow> nat http_result" where
  "response_length r =
     (if get_header r (str ''Content-Length'') = [] then HRet 0
      else (case read_size (get_header r (str ''Content-Length'')) of
              None \<Rightarrow> http_throw ''Unable to parse Content-Length header'' sc_bad_request
            | Some n \<Rightarrow> HRet n))"

definition response_blank :: "bytes \<Rightarrow> response \<Rightarrow> (nat \<times> response) http_result" where
  "response_blank rest r =
     (if res_state r = RESPONSE_LINE then http_throw ''Incomplete Request'' sc_bad_request
      else hbind (response_length r) (\<lambda>n.
        let r = r\<lparr>m_read := n, res_state := BODY\<rparr>;
            (k, r) = (if rest \<noteq> [] then response_process_body rest r else (0, r))
        in HRet (k, r\<lparr>res_buf := None\<rparr>)))"

definition count_response :: "nat \<Rightarrow> response \<Rightarrow> response" where
  "count_response n r = r\<lparr>m_header_bytes := m_header_bytes r + n\<rparr>"

text \<open>As for requests: \<open>begin'\<close> is what is left of the buffer, \<open>buf\<close> the bytes of this call.\<close>

function response_loop :: "bytes \<Rightarrow> bytes \<Rightarrow> response \<Rightarrow> (nat \<times> response) http_result" where
  "response_loop buf begin' r =
     (let end' = search_from (=) header_delimiter begin';
          k = length begin' - length end';
          r = count_response (k + sizeof_delimiter) r
      in if max_header_size < m_header_bytes r
         then http_throw ''Maximum header size exceeded.'' sc_request_header_fields_too_large
         else if end' = []
         then HRet (length buf, r\<lparr>res_buf := Some begin', m_read := m_read r + length buf,
                                 m_header_bytes := m_header_bytes r - length begin'\<rparr>)
         else if k = 0 then
           (let bytes_processed = length buf + 2 - length end' in
            hbind (response_blank (drop bytes_processed buf) r)
              (\<lambda>(n, r). HRet (bytes_processed + n, r)))
         else hbind (response_line (take k begin') r) (response_loop buf (drop 2 end')))"
  by auto
termination
  by (relation "measure (\<lambda>(buf, x, r). length x)") (use drop_search_less in auto)

declare response_loop.simps [simp del]

definition response_consume :: "bytes \<Rightarrow> response \<Rightarrow> (nat \<times> response) http_result" where
  "response_consume buf r =
     (if res_state r = DONE then HRet (0, r)
      else if res_state r = BODY then HRet (response_process_body buf r)
      else (case res_buf r of
              None \<Rightarrow> HUndefined
            | Some s \<Rightarrow> response_loop buf (s @ buf) r))"

subsection \<open>Printing\<close>

definition print_int :: "int \<Rightarrow> bytes" where
  "print_int i = (if i < 0 then 45 # str (idec (- i)) else str (idec i))"

definition response_raw :: "response \<Rightarrow> bytes" where
  "response_raw r =
     m_version r @ [32] @ print_int (m_status_code r) @ [32] @ m_status_msg r @ [13, 10] @
     raw_headers r @ [13, 10] @ m_body r"

subsection \<open>The contract of readers\<close>

definition response_pending :: "response \<Rightarrow> bytes option" where
  "response_pending r = (if headers_ready r then None else res_buf r)"

definition response_keep :: "nat \<Rightarrow> bytes \<Rightarrow> response \<Rightarrow> response" where
  "response_keep n s r = r\<lparr>res_buf := Some s, m_read := m_read r + n\<rparr>"

lemma get_header_response_update [simp]:
  "get_header (r\<lparr>res_buf := b\<rparr>) k = get_header r k" "get_header (r\<lparr>m_read := n\<rparr>) k = get_header r k"
  by (simp_all add: get_header_def)

lemma append_header_response_update:
  "append_header k v (r\<lparr>res_buf := b, m_read := n\<rparr>) = hmap (\<lambda>r. r\<lparr>res_buf := b, m_read := n\<rparr>) (append_header k v r)"
  by (simp add: append_header_def)

lemma process_header_response_update:
  "process_header l (r\<lparr>res_buf := b, m_read := n\<rparr>) = hmap (\<lambda>r. r\<lparr>res_buf := b, m_read := n\<rparr>) (process_header l r)"
  by (simp add: process_header_def Let_def append_header_response_update hmap_hbind)

lemma response_process_update:
  "response_process l (r\<lparr>m_header_bytes := n\<rparr>) = hmap (\<lambda>r. r\<lparr>m_header_bytes := n\<rparr>) (response_process l r)"
  "response_process l (r\<lparr>res_buf := b, m_read := n\<rparr>) = hmap (\<lambda>r. r\<lparr>res_buf := b, m_read := n\<rparr>) (response_process l r)"
  unfolding response_process_def set_status_msg_def set_version_def Let_def
  by (simp_all del: dropWhile_eq_Nil_conv split: option.splits)

lemma response_process_HRet:
  "response_process l r = HRet q \<longleftrightarrow>
   (let v = takeWhile (\<lambda>c. c \<noteq> 32) l; s = dropWhile (\<lambda>c. c \<noteq> 32) l;
        c = read_int (takeWhile (\<lambda>c. c \<noteq> 32) (tl s)); m = dropWhile (\<lambda>c. c \<noteq> 32) (tl s)
    in s \<noteq> [] \<and> m \<noteq> [] \<and> c \<noteq> None \<and>
       q = r\<lparr>m_version := v, m_status_code := the c, m_status_msg := tl m\<rparr>)"
  unfolding response_process_def set_status_msg_def set_version_def Let_def
  by (auto simp del: dropWhile_eq_Nil_conv split: option.splits)

lemma response_line_fields:
  assumes "response_line l r = HRet q"
  shows "m_header_bytes q = m_header_bytes r" "res_buf q = res_buf r" "m_read q = m_read r" "m_body q = m_body r"
    "headers_ready q = headers_ready r"
proof -
  have "m_header_bytes q = m_header_bytes r \<and> res_buf q = res_buf r \<and> m_read q = m_read r \<and> m_body q = m_body r \<and>
    headers_ready q = headers_ready r"
  proof (cases "res_state r = RESPONSE_LINE")
    case True
    with assms show ?thesis
      by (auto simp: response_line_def response_process_HRet Let_def hbind_eq_HRet headers_ready_def)
  next
    case False
    with assms show ?thesis
      by (auto simp: response_line_def headers_ready_def dest!: process_header_fields)
  qed
  then show "m_header_bytes q = m_header_bytes r" "res_buf q = res_buf r" "m_read q = m_read r" "m_body q = m_body r"
    "headers_ready q = headers_ready r" by blast+
qed

lemma response_line_update:
  "response_line l (r\<lparr>m_header_bytes := n\<rparr>) = hmap (\<lambda>r. r\<lparr>m_header_bytes := n\<rparr>) (response_line l r)"
  "response_line l (r\<lparr>res_buf := b, m_read := n\<rparr>) = hmap (\<lambda>r. r\<lparr>res_buf := b, m_read := n\<rparr>) (response_line l r)"
  by (cases "response_process l r"; simp add: response_line_def response_process_update process_header_update)
    (cases "response_process l r"; simp add: response_line_def response_process_update process_header_response_update)

lemma response_line_count:
  "response_line l (count_response d r) = hmap (count_response d) (response_line l r)"
  by (cases "response_line l r")
    (simp_all add: count_response_def response_line_update response_line_fields)

lemma response_line_keep: "response_line l (response_keep n s r) = hmap (response_keep n s) (response_line l r)"
  by (cases "response_line l r")
    (simp_all add: response_keep_def response_line_update response_line_fields)

lemma response_length_update [simp]:
  "response_length (r\<lparr>m_header_bytes := n\<rparr>) = response_length r"
  "response_length (r\<lparr>res_buf := b\<rparr>) = response_length r" "response_length (r\<lparr>m_read := n\<rparr>) = response_length r"
  by (simp_all add: response_length_def)

lemma response_process_body_ready: "headers_ready r \<Longrightarrow> response_process_body u r = (n, q) \<Longrightarrow>
   headers_ready q \<and> m_header_bytes q = m_header_bytes r \<and> n \<le> length u"
  by (auto simp: response_process_body_def headers_ready_def Let_def split: if_splits)

lemma response_process_body_append:
  "res_state r = BODY \<Longrightarrow> response_process_body u r = (n, q) \<Longrightarrow>
   response_process_body (u @ v) r =
     map_prod (\<lambda>m. n + m) id (if res_state q = DONE then (0, q) else response_process_body v q)"
  by (cases "m_read r = 0"; cases "m_read r \<le> length u") (auto simp: response_process_body_def Let_def)

lemma response_process_body_buf:
  "response_process_body u (r\<lparr>res_buf := b\<rparr>) = map_prod id (\<lambda>r. r\<lparr>res_buf := b\<rparr>) (response_process_body u r)"
  by (simp add: response_process_body_def Let_def)

lemma response_consume_ready: "headers_ready r \<Longrightarrow>
   response_consume u r = HRet (if res_state r = DONE then (0, r) else response_process_body u r)"
  by (auto simp: response_consume_def headers_ready_def)

lemma response_blank_body: "res_state r \<noteq> RESPONSE_LINE \<Longrightarrow> response_length r = HRet k \<Longrightarrow>
   response_blank u r = HRet (map_prod id (\<lambda>r. r\<lparr>res_buf := None\<rparr>)
     (if u = [] then (0, r\<lparr>m_read := k, res_state := BODY\<rparr>)
      else response_process_body u (r\<lparr>m_read := k, res_state := BODY\<rparr>)))"
  by (simp add: response_blank_def Let_def case_prod_unfold map_prod_def)

lemma response_blank_append:
  assumes "res_state r \<noteq> RESPONSE_LINE" "response_length r = HRet k" "v \<noteq> []"
  shows "response_blank (u @ v) r =
    hbind (response_blank u r) (\<lambda>(n, r). hbind (response_consume v r) (\<lambda>(m, r). HRet (n + m, r)))"
proof -
  let ?r = "r\<lparr>m_read := k, res_state := BODY\<rparr>"
  have body: "res_state ?r = BODY" "headers_ready ?r" by (simp_all add: headers_ready_def)
  note blank = response_blank_body [OF assms(1,2)]
  show ?thesis
  proof (cases "u = []")
    case True
    have "response_consume v (?r\<lparr>res_buf := None\<rparr>) = HRet (response_process_body v (?r\<lparr>res_buf := None\<rparr>))"
      by (simp add: response_consume_ready headers_ready_def)
    with True assms(3) show ?thesis
      by (simp add: blank response_process_body_buf case_prod_unfold map_prod_def)
  next
    case False
    obtain n q where q: "response_process_body u ?r = (n, q)" by fastforce
    have "headers_ready q" using response_process_body_ready [OF body(2) q] by simp
    then have "response_consume v (q\<lparr>res_buf := None\<rparr>) =
        HRet (map_prod id (\<lambda>r. r\<lparr>res_buf := None\<rparr>) (if res_state q = DONE then (0, q) else response_process_body v q))"
      by (simp add: response_consume_ready headers_ready_def response_process_body_buf)
    with False q response_process_body_append [OF body(1) q, of v] show ?thesis
      by (simp add: blank case_prod_unfold map_prod_def)
  qed
qed

lemma response_blank_ready:
  assumes "response_blank u r = HRet (n, q)"
  shows "headers_ready q \<and> m_header_bytes q = m_header_bytes r \<and> n \<le> length u"
proof -
  from assms obtain k where k: "response_length r = HRet k"
    by (auto simp: response_blank_def hbind_eq_HRet split: if_splits)
  let ?r = "r\<lparr>m_read := k, res_state := BODY\<rparr>"
  obtain m p where mp: "(if u \<noteq> [] then response_process_body u ?r else (0, ?r)) = (m, p)" by fastforce
  with assms k have q: "n = m" "q = p\<lparr>res_buf := None\<rparr>"
    by (simp_all add: response_blank_def Let_def split: if_splits)
  have "headers_ready ?r" by (simp add: headers_ready_def)
  with mp response_process_body_ready [of ?r u m p] have "headers_ready p \<and> m_header_bytes p = m_header_bytes r \<and> m \<le> length u"
    by (auto split: if_splits)
  with q show ?thesis by (simp add: headers_ready_def)
qed

interpretation response: header_reader response_line response_blank response_keep count_response m_header_bytes
  response_pending headers_ready response_loop response_consume
proof (unfold_locales, goal_cases)
  case (1 buf x r)
  have "search_from (=) header_delimiter x = [] \<Longrightarrow> length x - length (search_from (=) header_delimiter x) = length x" by simp
  then show ?case
    by (subst response_loop.simps) (auto simp: Let_def count_response_def response_keep_def)
next
  case (2 r s buf)
  then show ?case
    by (auto simp: response_pending_def response_consume_def headers_ready_def split: if_splits)
next
  case (11 l d r)
  show ?case by (rule response_line_count)
next
  case (12 l n x r)
  show ?case by (rule response_line_keep)
next
  case (13 l r r')
  then show ?case by (simp add: response_pending_def response_line_fields)
next
  case (14 u d r)
  show ?case
    by (cases "response_length r")
      (auto simp: response_blank_def count_response_def response_process_body_def Let_def)
next
  case (15 u n x r)
  show ?case
    by (cases "response_length r") (auto simp: response_blank_def response_keep_def response_process_body_def Let_def)
next
  case (16 u r n r')
  then show ?case using response_blank_ready by blast
next
  case (17 r u n r')
  then show ?case using response_blank_ready by blast
next
  case (18 r v u)
  then show ?case
    using response_blank_append [of r _ v u]
    by (cases "res_state r = RESPONSE_LINE"; cases "response_length r") (simp_all add: response_blank_def)
next
  case (19 r u v)
  obtain n q where q: "response_process_body u r = (n, q)" by fastforce
  show ?case
  proof (cases "res_state r = DONE")
    case False
    with 19 have "res_state r = BODY" "headers_ready q"
      using response_process_body_ready [OF 19 q] by (auto simp: headers_ready_def)
    with 19 q response_process_body_append [OF this(1) q, of v] show ?thesis
      by (simp add: response_consume_ready case_prod_unfold map_prod_def)
  qed (simp add: response_consume_def)
next
  case (20 r u n r')
  then show ?case
    using response_process_body_ready [of r u n r']
    by (cases "res_state r = DONE") (auto simp: response_consume_def headers_ready_def)
qed (auto simp: count_response_def response_keep_def response_pending_def headers_ready_def split: if_splits)

text \<open>No sequence of reads has undefined behaviour.\<close>

lemma response_line_defined: "no_crlf l \<Longrightarrow> response_line l r \<noteq> HUndefined"
  unfolding response_line_def response_process_def set_status_msg_def set_version_def Let_def
  by (auto simp: process_header_defined hbind_eq_HUndefined simp del: dropWhile_eq_Nil_conv split: if_splits option.splits)

interpretation response: safe_header_reader response_line response_blank response_keep count_response m_header_bytes
  response_pending headers_ready response_loop response_consume
proof (unfold_locales, goal_cases)
  case (1 l r)
  then show ?case by (rule response_line_defined)
next
  case (2 u r)
  have "response_length r \<noteq> HUndefined" by (simp add: response_length_def split: option.splits)
  then show ?case by (simp add: response_blank_def Let_def hbind_eq_HUndefined split: prod.splits)
next
  case (3 r u)
  then show ?case by (simp add: response_consume_ready)
qed

lemma response_reads_defined: "reads response_consume cs response_init \<noteq> HUndefined"
  by (rule response.reads_defined) (simp add: response_pending_def response_init_def headers_ready_def)

subsection \<open>Printing and reading\<close>

definition response_line_text :: "response \<Rightarrow> bytes" where
  "response_line_text r = m_version r @ [32] @ print_int (m_status_code r) @ [32] @ m_status_msg r"

definition response_lines :: "response \<Rightarrow> bytes list" where
  "response_lines r = response_line_text r # map header_line (m_headers r)"

definition response_printable :: "response \<Rightarrow> bool" where
  "response_printable r \<longleftrightarrow>
     32 \<notin> set (m_version r) \<and> no_crlf (m_version r) \<and> in_int_range (m_status_code r) \<and> no_crlf (m_status_msg r) \<and>
     headers_printable (m_headers r) \<and> body_agrees r \<and> length (m_body r) < 2 ^ 64"

text \<open>A response without a body is complete with the first byte that follows it.\<close>

definition response_read_back :: "response \<Rightarrow> bytes \<Rightarrow> response" where
  "response_read_back r rest = r\<lparr>m_header_bytes := header_size (response_lines r),
     m_body_bytes_needed := 0, m_body_bytes_max := max_body_size, m_body_encoding := Unknown_encoding,
     m_read := 0, res_buf := None,
     res_state := (if m_body r = [] \<and> rest = [] then BODY else DONE)\<rparr>"

lemma response_raw_lines:
  "response_raw r = concat (map (\<lambda>l. l @ [13, 10]) (response_lines r)) @ 13 # 10 # m_body r"
  by (simp add: response_raw_def response_lines_def response_line_text_def raw_headers_lines)

lemma digits_are_digits: "0 \<le> n \<Longrightarrow> list_all is_digit (str (idec n))"
  using digits_of_idec by blast

lemma print_int_chars: "c \<in> set (print_int i) \<Longrightarrow> c \<noteq> 32 \<and> c \<noteq> 13 \<and> c \<noteq> 10"
proof -
  assume c: "c \<in> set (print_int i)"
  have "is_digit c \<or> c = 45"
  proof (cases "i < 0")
    case True
    with c digits_are_digits [of "- i"] show ?thesis by (auto simp: print_int_def list_all_iff)
  next
    case False
    with c digits_are_digits [of i] show ?thesis by (auto simp: print_int_def list_all_iff)
  qed
  then show ?thesis by (auto simp: is_digit_def)
qed

lemma idec_digits: "0 \<le> i \<Longrightarrow> str (idec i) = str (udec (nat i))"
  by (simp add: udec_def)

lemma split_number_minus: "split_number (45 # str (udec n)) = (True, str (udec n))"
proof -
  have "takeWhile is_digit (str (udec n)) = str (udec n)"
    using digits_of_udec(1) [of n] by (simp add: takeWhile_eq_all_conv list_all_iff)
  then show ?thesis by (simp add: split_number_def is_space_def)
qed

lemma read_int_print: "in_int_range i \<Longrightarrow> read_int (print_int i) = Some i"
proof (cases "i < 0")
  case True
  assume "in_int_range i"
  with True show ?thesis
    by (simp add: print_int_def idec_digits read_int_def signed_value_def split_number_minus digits_of_udec)
next
  case False
  assume "in_int_range i"
  with False show ?thesis
    by (simp add: print_int_def idec_digits read_int_def signed_value_def split_number_udec digits_of_udec)
qed

lemma response_process_text:
  assumes "32 \<notin> set (m_version r)" "in_int_range (m_status_code r)"
  shows "response_process (response_line_text r) q =
    HRet (q\<lparr>m_version := m_version r, m_status_code := m_status_code r, m_status_msg := m_status_msg r\<rparr>)"
proof -
  have "\<forall>c \<in> set (m_version r). c \<noteq> 32" "\<forall>c \<in> set (print_int (m_status_code r)). c \<noteq> 32"
    using assms(1) print_int_chars by auto
  then show ?thesis
    using assms(2)
    by (simp add: response_process_HRet response_line_text_def Let_def read_int_print takeWhile_append2 dropWhile_append2)
qed

lemma response_headers_block:
  "headers_ordered (m_headers q @ hs) \<Longrightarrow> \<forall>h \<in> set hs. header_name (fst h) \<and> header_value (snd h) \<Longrightarrow>
   res_state q = HEADERS \<Longrightarrow>
   response.block (map header_line hs) q =
     HRet (count_response (response.block_size (map header_line hs)) (q\<lparr>m_headers := m_headers q @ hs\<rparr>))"
proof (induction hs arbitrary: q)
  case Nil
  then show ?case by (simp add: response.block_size_def) (simp add: count_response_def)
next
  case (Cons h hs)
  obtain k v where h: "h = (k, v)" by fastforce
  let ?q = "count_response (length (header_line h) + sizeof_delimiter) q"
  let ?q' = "?q\<lparr>m_headers := m_headers q @ [h]\<rparr>"
  have "\<forall>h' \<in> set (m_headers ?q). ci_less (fst h') k"
    using Cons.prems(1) h by (auto simp: headers_ordered_def sorted_wrt_append count_response_def)
  then have "response_line (header_line h) ?q = HRet ?q'"
    using Cons.prems(2,3) h process_header_last [of k v ?q] by (simp add: response_line_def count_response_def)
  moreover have "response.block (map header_line hs) ?q' =
     HRet (count_response (response.block_size (map header_line hs)) (?q'\<lparr>m_headers := m_headers ?q' @ hs\<rparr>))"
    using Cons.prems by (intro Cons.IH) (simp_all add: count_response_def)
  ultimately have "response.block (map header_line (h # hs)) q =
     HRet (count_response (response.block_size (map header_line hs)) (?q'\<lparr>m_headers := m_headers ?q' @ hs\<rparr>))"
    by simp
  also have "count_response (response.block_size (map header_line hs)) (?q'\<lparr>m_headers := m_headers ?q' @ hs\<rparr>) =
     count_response (response.block_size (map header_line (h # hs))) (q\<lparr>m_headers := m_headers q @ h # hs\<rparr>)"
    by (simp add: count_response_def response.block_size_def)
  finally show ?case .
qed

lemma response_lines_no_crlf:
  assumes "response_printable r"
  shows "\<forall>l \<in> set (response_lines r). no_crlf l \<and> l \<noteq> []"
proof -
  have "no_crlf (print_int i)" for i
    using print_int_chars [where i = i] by (intro no_crlf_no_cr) auto
  then have "no_crlf (response_line_text r)" "response_line_text r \<noteq> []"
    using assms by (auto simp: response_line_text_def response_printable_def no_crlf_append no_crlf_Cons)
  moreover have "\<forall>h \<in> set (m_headers r). no_crlf (header_line h) \<and> header_line h \<noteq> []"
    using assms header_line_no_crlf by (auto simp: response_printable_def headers_printable_def)
  ultimately show ?thesis by (simp add: response_lines_def)
qed

lemma response_blank_read_back:
  assumes "response_printable r" "res_state q = HEADERS" "m_headers q = m_headers r" "m_body q = []"
  shows "response_blank (m_body r @ rest) q =
    HRet (length (m_body r), q\<lparr>m_read := 0, res_buf := None, m_body := m_body r,
      res_state := (if m_body r = [] \<and> rest = [] then BODY else DONE)\<rparr>)"
proof -
  have h: "get_header q k = get_header r k" for k using assms(3) by (simp add: get_header_def)
  have len: "response_length q = HRet (length (m_body r))"
    using assms(1) by (auto simp: response_length_def h response_printable_def body_agrees_def read_size_udec)
  show ?thesis
    using response_blank_body [OF _ len, of "m_body r @ rest"] assms(2,4)
    by (cases "m_body r = []") (simp_all add: response_process_body_def Let_def)
qed

lemma response_roundtrip:
  assumes r: "response_printable r" and size: "header_size (response_lines r) \<le> max_header_size"
  shows "response_consume (response_raw r @ rest) response_init =
    HRet (length (response_raw r), response_read_back r rest)"
proof -
  let ?text = "response_line_text r" and ?hs = "map header_line (m_headers r)"
  let ?start = "response_init\<lparr>m_header_bytes := length ?text + sizeof_delimiter,
    m_version := m_version r, m_status_code := m_status_code r, m_status_msg := m_status_msg r, res_state := HEADERS\<rparr>"
  let ?q = "count_response (response.block_size ?hs) (?start\<lparr>m_headers := m_headers r\<rparr>)"
  have "response_line ?text (count_response (length ?text + sizeof_delimiter) response_init) = HRet ?start"
    using r response_process_text [of r]
    by (simp add: response_line_def response_init_def count_response_def response_printable_def)
  moreover have "response.block ?hs ?start = HRet ?q"
    using response_headers_block [of ?start "m_headers r"] r
    by (simp add: response_init_def response_printable_def headers_printable_def)
  ultimately have block: "response.block (response_lines r) response_init = HRet ?q"
    by (simp add: response_lines_def)
  have hb: "m_header_bytes ?q = response.block_size (response_lines r)"
    by (simp add: count_response_def response_lines_def response.block_size_def)
  have total: "response.block_size (response_lines r) + sizeof_delimiter = header_size (response_lines r)"
    by (simp add: header_size_def response.block_size_def)
  let ?x = "response_raw r @ rest" and ?e = "m_body r @ rest"
  have "response_loop ?x ?x response_init = response_loop ?x (13 # 10 # ?e) ?q"
    using response.lines_block [OF response_lines_no_crlf [OF r] _ block] size total
    by (simp add: response_raw_lines response_init_def)
  also have "\<dots> = hbind (response_blank ?e (count_response sizeof_delimiter ?q))
      (\<lambda>(n, q). HRet (length ?x - length ?e + n, q))"
  proof -
    have "drop (length ?x - length ?e) ?x = ?e" by (simp add: response_raw_lines)
    then show ?thesis using response.lines_blank [of ?q ?x ?e] size hb total by simp
  qed
  also have "response_blank ?e (count_response sizeof_delimiter ?q) = HRet (length (m_body r), response_read_back r rest)"
    using response_blank_read_back [OF r, of "count_response sizeof_delimiter ?q"] hb total
    by (simp add: response_read_back_def count_response_def response_init_def)
  finally have "response_loop ?x ?x response_init =
      HRet (length ?x - length ?e + length (m_body r), response_read_back r rest)" by simp
  moreover have "length ?x - length ?e + length (m_body r) = length (response_raw r)"
    by (simp add: response_raw_lines)
  ultimately show ?thesis
    by (simp add: response_consume_def response_init_def)
qed

lemma response_in_reads:
  assumes "response_printable r" "concat cs = response_raw r @ rest" "cs \<noteq> []" "[] \<notin> set cs"
    "header_size (response_lines r) + length cs * sizeof_delimiter \<le> max_header_size"
  shows "\<exists>d. reads response_consume cs response_init =
    HRet (length (response_raw r), count_response d (response_read_back r rest))"
proof -
  have "response_pending response_init = Some []"
    by (simp add: response_pending_def response_init_def headers_ready_def)
  moreover have "response_consume (concat cs) response_init = HRet (length (response_raw r), response_read_back r rest)"
    unfolding assms(2) using assms by (intro response_roundtrip) auto
  moreover have "response.peak (response_read_back r rest) = header_size (response_lines r)"
    by (simp add: response.peak_def response_read_back_def response_pending_def headers_ready_def)
  ultimately show ?thesis
    using response.reads_whole [of response_init "[]" cs] assms(3-5) by simp
qed

text \<open>
  \<open>ready()\<close> is documented never to be true without a content length. It is, from the first
  byte after the header on; and with the content length 0 it is not before that byte.
\<close>

lemma response_ready_after_header:
  assumes "response_printable r" "header_size (response_lines r) \<le> max_header_size" "m_body r = []"
  shows "\<exists>q. response_consume (response_raw r @ rest) response_init = HRet (length (response_raw r), q) \<and>
    (response_ready q \<longleftrightarrow> rest \<noteq> []) \<and> headers_ready q"
  using response_roundtrip [OF assms(1,2), of rest] assms(3)
  by (auto simp: response_read_back_def response_ready_def headers_ready_def)

end
