(* ===== verification/Ws_Uri.thy ===== *)
theory Ws_Uri
  imports Ws_Http_Message Ws_Error
begin

text \<open>
  \<open>WebSocketPP/websocketpp/uri.hpp\<close>: reading a URI from a string, building one from its parts,
  and printing it. A host without brackets is read back with the rest of the URI; an IPv6
  literal loses its brackets and is not.
\<close>

subsection \<open>State\<close>

definition uri_default_port :: u16 where "uri_default_port = 80"
definition uri_default_secure_port :: u16 where "uri_default_secure_port = 443"

record uri =
  m_scheme :: bytes
  m_host :: bytes
  m_resource :: bytes
  m_port :: u16
  m_secure :: bool
  m_valid :: bool

definition uri_default :: "bool \<Rightarrow> u16" where
  "uri_default secure = (if secure then uri_default_secure_port else uri_default_port)"

text \<open>
  \<open>atoi\<close> leaves the behaviour undefined for a number no \<open>int\<close> holds. A negative number becomes
  a large unsigned one.
\<close>

definition get_port_from_string :: "bool \<Rightarrow> bytes \<Rightarrow> (u16 \<times> error_code) http_result" where
  "get_port_from_string secure port =
     (if port = [] then HRet (uri_default secure, NoError)
      else hbind (atoi port) (\<lambda>i.
        let t_port = (word_of_int i :: u32);
            ec = (if 65535 < t_port then WsError WE_invalid_port else NoError);
            ec = (if t_port = 0 then WsError WE_invalid_port else ec)
        in HRet (ucast t_port, ec)))"

subsection \<open>Construction\<close>

text \<open>The scheme, whether it is secure, and the rest of the string.\<close>

definition uri_scheme :: "bytes \<Rightarrow> (bool \<times> bytes \<times> bytes) option" where
  "uri_scheme s =
     (if 7 \<le> length s \<and> take 6 s = str ''wss://'' then Some (True, str ''wss'', drop 6 s)
      else if 6 \<le> length s \<and> take 5 s = str ''ws://'' then Some (False, str ''ws'', drop 5 s)
      else if 8 \<le> length s \<and> take 7 s = str ''http://'' then Some (False, str ''http'', drop 7 s)
      else if 9 \<le> length s \<and> take 8 s = str ''https://'' then Some (True, str ''https'', drop 8 s)
      else None)"

text \<open>
  The loops for a host name and a port: whether a port follows, the characters read, and the
  rest, behind the delimiter.
\<close>

fun host_scan :: "bytes \<Rightarrow> bool \<times> bytes \<times> bytes" where
  "host_scan [] = (False, [], [])"
| "host_scan (c # r) =
     (if c = 47 then (False, [], r)
      else if c = 58 then (True, [], r)
      else (case host_scan r of (s, h, t) \<Rightarrow> (s, c # h, t)))"

fun port_scan :: "bytes \<Rightarrow> bytes \<times> bytes" where
  "port_scan [] = ([], [])"
| "port_scan (c # r) = (if c = 47 then ([], r) else (case port_scan r of (p, t) \<Rightarrow> (c # p, t)))"

text \<open>An IPv6 literal, after its opening bracket; \<open>None\<close> where the constructor gives up.\<close>

definition ipv6_scan :: "bytes \<Rightarrow> (bool \<times> bytes \<times> bytes) option" where
  "ipv6_scan s =
     (let host = takeWhile (\<lambda>c. c \<noteq> 93) s in
      case dropWhile (\<lambda>c. c \<noteq> 93) s of
        [] \<Rightarrow> None
      | [_] \<Rightarrow> Some (False, host, [])
      | _ # c # r \<Rightarrow> if c = 47 then Some (False, host, r) else if c = 58 then Some (True, host, r) else None)"

text \<open>
  \<open>uri(std::string const &)\<close>. A URI that is not valid has members without a value; it is \<open>None\<close>.
\<close>

definition uri_parse :: "bytes \<Rightarrow> uri option http_result" where
  "uri_parse s =
     (case uri_scheme s of
        None \<Rightarrow> HRet None
      | Some (secure, scheme, it) \<Rightarrow>
          (case (if hd it = 91 then ipv6_scan (tl it) else Some (host_scan it)) of
             None \<Rightarrow> HRet None
           | Some (with_port, host, it) \<Rightarrow>
               (let (port, it) = (if with_port then port_scan it else ([], it)) in
                hbind (get_port_from_string secure port) (\<lambda>(p, ec).
                  HRet (if has_error ec then None
                    else Some \<lparr>m_scheme = scheme, m_host = host, m_resource = 47 # it, m_port = p,
                      m_secure = secure, m_valid = True\<rparr>)))))"

definition scheme_secure :: "bytes \<Rightarrow> bool" where
  "scheme_secure scheme \<longleftrightarrow> scheme = str ''wss'' \<or> scheme = str ''https''"

definition uri_resource :: "bytes \<Rightarrow> bytes" where
  "uri_resource resource = (if resource = [] then [47] else resource)"

definition uri_scheme_port :: "bytes \<Rightarrow> bytes \<Rightarrow> u16 \<Rightarrow> bytes \<Rightarrow> uri" where
  "uri_scheme_port scheme host port resource =
     \<lparr>m_scheme = scheme, m_host = host, m_resource = uri_resource resource, m_port = port,
      m_secure = scheme_secure scheme, m_valid = True\<rparr>"

definition uri_scheme_default :: "bytes \<Rightarrow> bytes \<Rightarrow> bytes \<Rightarrow> uri" where
  "uri_scheme_default scheme host resource =
     \<lparr>m_scheme = scheme, m_host = host, m_resource = uri_resource resource,
      m_port = uri_default (scheme_secure scheme), m_secure = scheme_secure scheme, m_valid = True\<rparr>"

definition uri_scheme_string :: "bytes \<Rightarrow> bytes \<Rightarrow> bytes \<Rightarrow> bytes \<Rightarrow> uri http_result" where
  "uri_scheme_string scheme host port resource =
     hbind (get_port_from_string (scheme_secure scheme) port) (\<lambda>(p, ec).
       HRet \<lparr>m_scheme = scheme, m_host = host, m_resource = uri_resource resource, m_port = p,
         m_secure = scheme_secure scheme, m_valid = (\<not> has_error ec)\<rparr>)"

definition secure_scheme :: "bool \<Rightarrow> bytes" where
  "secure_scheme secure = (if secure then str ''wss'' else str ''ws'')"

definition uri_secure_port :: "bool \<Rightarrow> bytes \<Rightarrow> u16 \<Rightarrow> bytes \<Rightarrow> uri" where
  "uri_secure_port secure host port resource =
     \<lparr>m_scheme = secure_scheme secure, m_host = host, m_resource = uri_resource resource, m_port = port,
      m_secure = secure, m_valid = True\<rparr>"

definition uri_secure_default :: "bool \<Rightarrow> bytes \<Rightarrow> bytes \<Rightarrow> uri" where
  "uri_secure_default secure host resource =
     \<lparr>m_scheme = secure_scheme secure, m_host = host, m_resource = uri_resource resource,
      m_port = uri_default secure, m_secure = secure, m_valid = True\<rparr>"

definition uri_secure_string :: "bool \<Rightarrow> bytes \<Rightarrow> bytes \<Rightarrow> bytes \<Rightarrow> uri http_result" where
  "uri_secure_string secure host port resource =
     hbind (get_port_from_string secure port) (\<lambda>(p, ec).
       HRet \<lparr>m_scheme = secure_scheme secure, m_host = host, m_resource = uri_resource resource, m_port = p,
         m_secure = secure, m_valid = (\<not> has_error ec)\<rparr>)"

subsection \<open>Parts and printing\<close>

definition print_port :: "u16 \<Rightarrow> bytes" where
  "print_port p = str (udec (unat p))"

definition get_host_port :: "uri \<Rightarrow> bytes" where
  "get_host_port u =
     (if m_port u = uri_default (m_secure u) then m_host u else m_host u @ [58] @ print_port (m_port u))"

definition get_authority :: "uri \<Rightarrow> bytes" where
  "get_authority u = m_host u @ [58] @ print_port (m_port u)"

definition get_port_str :: "uri \<Rightarrow> bytes" where
  "get_port_str u = print_port (m_port u)"

definition uri_str :: "uri \<Rightarrow> bytes" where
  "uri_str u = m_scheme u @ str ''://'' @ m_host u @
     (if m_port u \<noteq> uri_default (m_secure u) then [58] @ print_port (m_port u) else []) @ m_resource u"

definition get_query :: "uri \<Rightarrow> bytes" where
  "get_query u =
     (let found = dropWhile (\<lambda>c. c \<noteq> 63) (m_resource u) in if found = [] then [] else tl found)"

subsection \<open>Reading what was printed\<close>

lemma get_port_printed: "p \<noteq> 0 \<Longrightarrow> get_port_from_string secure (print_port p) = HRet (p, NoError)"
proof -
  assume p: "p \<noteq> 0"
  have b: "unat p < 65536" using unsigned_less [of p] by simp
  have "atoi (str (udec n)) = HRet (int n)" if "n < 65536" for n
    using that by (simp add: atoi_def signed_value_udec in_int_range_def)
  from this [OF b] have "atoi (print_port p) = HRet (int (unat p))" by (simp add: print_port_def)
  moreover have "(word_of_int (int (unat p)) :: u32) = ucast p" by (metis of_int_of_nat_eq of_nat_unat)
  moreover have "(ucast p :: u32) \<noteq> 0" "\<not> 65535 < (ucast p :: u32)" "ucast (ucast p :: u32) = p"
  proof -
    have u: "unat (ucast p :: u32) = unat p" using b by (simp add: unsigned_ucast_eq take_bit_eq_mod)
    show "(ucast p :: u32) \<noteq> 0" using p u by (metis unat_0 unat_eq_zero)
    show "\<not> 65535 < (ucast p :: u32)" using b u by (simp add: word_less_nat_alt)
    show "ucast (ucast p :: u32) = p" by (rule bit_word_eqI) (auto simp: bit_simps dest: bit_imp_le_length)
  qed
  ultimately show ?thesis
    by (simp add: get_port_from_string_def Let_def print_port_def)
qed

lemma host_scan_name: "\<forall>c \<in> set h. c \<noteq> 47 \<and> c \<noteq> 58 \<Longrightarrow>
   host_scan (h @ 47 # r) = (False, h, r) \<and> host_scan (h @ 58 # r) = (True, h, r)"
  by (induction h) auto

lemma port_scan_printed: "\<forall>c \<in> set s. c \<noteq> 47 \<Longrightarrow> port_scan (s @ 47 # r) = (s, r)"
  by (induction s) auto

lemma print_port_chars: "\<forall>c \<in> set (print_port p). c \<noteq> 47"
  using digits_of_udec(1) [of "unat p"] by (auto simp: print_port_def list_all_iff is_digit_def)

definition uri_name :: "uri \<Rightarrow> bool" where
  "uri_name u \<longleftrightarrow>
     (m_scheme u, m_secure u) \<in> {(str ''ws'', False), (str ''wss'', True), (str ''http'', False), (str ''https'', True)} \<and>
     (\<forall>c \<in> set (m_host u). c \<noteq> 47 \<and> c \<noteq> 58) \<and> (m_host u \<noteq> [] \<longrightarrow> hd (m_host u) \<noteq> 91) \<and>
     m_resource u \<noteq> [] \<and> hd (m_resource u) = 47 \<and> m_port u \<noteq> 0 \<and> m_valid u"

lemma scheme_bytes:
  "str ''ws'' = [119, 115]" "str ''wss'' = [119, 115, 115]" "str ''http'' = [104, 116, 116, 112]"
  "str ''https'' = [104, 116, 116, 112, 115]" "str ''://'' = [58, 47, 47]"
  "str ''ws://'' = [119, 115, 58, 47, 47]" "str ''wss://'' = [119, 115, 115, 58, 47, 47]"
  "str ''http://'' = [104, 116, 116, 112, 58, 47, 47]" "str ''https://'' = [104, 116, 116, 112, 115, 58, 47, 47]"
  by (simp_all add: str_def byte_of_char_def)

lemma uri_scheme_printed:
  assumes "(scheme, secure) \<in> {(str ''ws'', False), (str ''wss'', True), (str ''http'', False), (str ''https'', True)}" "s \<noteq> []"
  shows "uri_scheme (scheme @ str ''://'' @ s) = Some (secure, scheme, s)"
proof -
  have len: "1 \<le> length s" using assms(2) by (cases s) auto
  consider "scheme = str ''ws''" "\<not> secure" | "scheme = str ''wss''" secure
    | "scheme = str ''http''" "\<not> secure" | "scheme = str ''https''" secure
    using assms(1) by auto
  then show ?thesis
    using len by cases (simp_all add: uri_scheme_def scheme_bytes)
qed

lemma uri_roundtrip:
  assumes "uri_name u"
  shows "uri_parse (uri_str u) = HRet (Some u)"
proof -
  obtain r where r: "m_resource u = 47 # r" using assms by (cases "m_resource u") (auto simp: uri_name_def)
  let ?rest = "m_host u @ (if m_port u \<noteq> uri_default (m_secure u) then [58] @ print_port (m_port u) else []) @ 47 # r"
  have "uri_scheme (uri_str u) = Some (m_secure u, m_scheme u, ?rest)"
    using uri_scheme_printed [of "m_scheme u" "m_secure u" ?rest] assms r by (simp add: uri_name_def uri_str_def)
  moreover have "hd ?rest \<noteq> 91" using assms by (cases "m_host u") (auto simp: uri_name_def)
  moreover have "host_scan ?rest = (m_port u \<noteq> uri_default (m_secure u), m_host u,
      (if m_port u \<noteq> uri_default (m_secure u) then print_port (m_port u) @ 47 # r else r))"
    using host_scan_name [of "m_host u"] assms by (simp add: uri_name_def)
  moreover have "port_scan (print_port (m_port u) @ 47 # r) = (print_port (m_port u), r)"
    using port_scan_printed print_port_chars by blast
  moreover have "get_port_from_string (m_secure u) (print_port (m_port u)) = HRet (m_port u, NoError)"
    "get_port_from_string (m_secure u) [] = HRet (uri_default (m_secure u), NoError)"
    using assms get_port_printed by (simp_all add: uri_name_def get_port_from_string_def)
  ultimately show ?thesis
    using assms r by (simp add: uri_parse_def uri_name_def has_error_def)
qed

text \<open>
  A host that was an IPv6 literal is printed without its brackets, here and in the \<open>Host\<close> header,
  and is never read back.
\<close>

lemma host_scan_no_colon: "host_scan s = (p, h, t) \<Longrightarrow> 58 \<notin> set h"
  by (induction s arbitrary: p h t) (auto split: if_splits prod.splits)

lemma uri_ipv6:
  assumes "93 \<notin> set h"
  shows "uri_parse (str ''ws://['' @ h @ 93 # 47 # r) =
    HRet (Some \<lparr>m_scheme = str ''ws'', m_host = h, m_resource = 47 # r, m_port = uri_default_port,
      m_secure = False, m_valid = True\<rparr>)"
proof -
  have "\<forall>c \<in> set h. c \<noteq> 93" using assms by auto
  moreover have "str ''ws://['' @ h @ 93 # 47 # r = str ''ws'' @ str ''://'' @ (91 # h @ 93 # 47 # r)"
    by (simp add: str_def byte_of_char_def)
  moreover have "uri_scheme (str ''ws'' @ str ''://'' @ (91 # h @ 93 # 47 # r)) =
      Some (False, str ''ws'', 91 # h @ 93 # 47 # r)" by (rule uri_scheme_printed) simp_all
  ultimately show ?thesis
    by (simp add: uri_parse_def ipv6_scan_def get_port_from_string_def has_error_def uri_default_def takeWhile_append2 dropWhile_append2)
qed

lemma uri_colon_lost:
  assumes "(m_scheme u, m_secure u) \<in> {(str ''ws'', False), (str ''wss'', True), (str ''http'', False), (str ''https'', True)}"
    and "58 \<in> set (m_host u)" "hd (m_host u) \<noteq> 91"
  shows "uri_parse (uri_str u) \<noteq> HRet (Some u)"
proof
  assume parse: "uri_parse (uri_str u) = HRet (Some u)"
  let ?rest = "m_host u @ (if m_port u \<noteq> uri_default (m_secure u) then [58] @ print_port (m_port u) else []) @ m_resource u"
  have "m_host u \<noteq> []" using assms(2) by auto
  then have "uri_scheme (uri_str u) = Some (m_secure u, m_scheme u, ?rest)" "hd ?rest \<noteq> 91"
    using uri_scheme_printed [of "m_scheme u" "m_secure u" ?rest] assms(1,3) by (simp_all add: uri_str_def)
  moreover obtain p h t where "host_scan ?rest = (p, h, t)" by (cases "host_scan ?rest")
  ultimately have "m_host u = h \<and> 58 \<notin> set h"
    using parse host_scan_no_colon [of ?rest p h t]
    by (cases u) (auto simp: uri_parse_def hbind_eq_HRet split: if_splits prod.splits)
  then show False using assms(2) by simp
qed

end
