(* ===== verification/Ws_Sha1.thy ===== *)
theory Ws_Sha1
  imports R2CP_Prelude
begin

text \<open>
  \<open>WebSocketPP/websocketpp/sha1/sha1.hpp\<close>, and FIPS 180-4 beside it: the message padding, the
  message schedule as a recursion and the eighty rounds. The buffer \<open>w\<close> of 80 words is threaded
  through, with whatever it holds when it is declared.
\<close>

subsection \<open>The program\<close>

type_synonym sha1_vars = "u32 \<times> u32 \<times> u32 \<times> u32 \<times> u32"

definition rol :: "u32 \<Rightarrow> nat \<Rightarrow> u32" where
  "rol v steps = push_bit steps v OR drop_bit (32 - steps) v"

definition clearWBuffert :: "u32 list \<Rightarrow> u32 list" where
  "clearWBuffert buffert = fold (\<lambda>pos w. w[pos := 0]) (rev [0..<16]) buffert"

definition sha1macro :: "(u32 \<Rightarrow> u32 \<Rightarrow> u32 \<Rightarrow> u32) \<Rightarrow> u32 \<Rightarrow> u32 list \<Rightarrow> nat \<Rightarrow> sha1_vars \<Rightarrow> sha1_vars" where
  "sha1macro func val w round v =
     (case v of (a, b, c, d, e) \<Rightarrow>
        let t = rol a 5 + func b c d + e + val + w ! round
        in (t, a, rol b 30, c, d))"

definition sha1_expand :: "u32 list \<Rightarrow> nat \<Rightarrow> u32 list" where
  "sha1_expand w round =
     w[round := rol (w ! (round - 3) XOR w ! (round - 8) XOR w ! (round - 14) XOR w ! (round - 16)) 1]"

text \<open>A loop \<open>while(round < stop)\<close> that fills \<open>w[round]\<close> and applies the macro.\<close>

definition sha1_rounds ::
  "(u32 \<Rightarrow> u32 \<Rightarrow> u32 \<Rightarrow> u32) \<Rightarrow> u32 \<Rightarrow> nat \<Rightarrow> nat \<Rightarrow> u32 list \<times> sha1_vars \<Rightarrow> u32 list \<times> sha1_vars" where
  "sha1_rounds func val round stop s =
     fold (\<lambda>round (w, v). let w' = sha1_expand w round in (w', sha1macro func val w' round v))
       [round..<stop] s"

definition innerHash :: "u32 list \<Rightarrow> u32 list \<Rightarrow> u32 list \<times> u32 list" where
  "innerHash result w =
     (let v = (result ! 0, result ! 1, result ! 2, result ! 3, result ! 4);
          ch = (\<lambda>b c d. (b AND c) OR (NOT b AND d));
          par = (\<lambda>b c d. b XOR c XOR d);
          maj = (\<lambda>b c d. (b AND c) OR (b AND d) OR (c AND d));
          v = fold (\<lambda>round. sha1macro ch 0x5a827999 w round) [0..<16] v;
          s = sha1_rounds ch 0x5a827999 16 20 (w, v);
          s = sha1_rounds par 0x6ed9eba1 20 40 s;
          s = sha1_rounds maj 0x8f1bbcdc 40 60 s;
          s = sha1_rounds par 0xca62c1d6 60 80 s
      in case s of (w, (a, b, c, d, e)) \<Rightarrow>
           (result[0 := result ! 0 + a, 1 := result ! 1 + b, 2 := result ! 2 + c,
                   3 := result ! 3 + d, 4 := result ! 4 + e], w))"

text \<open>The word that the round buffer takes from four bytes of the source.\<close>

definition sha1_load :: "bytes \<Rightarrow> nat \<Rightarrow> u32" where
  "sha1_load sarray i =
     ucast (sarray ! (i + 3)) OR push_bit 8 (ucast (sarray ! (i + 2)))
       OR push_bit 16 (ucast (sarray ! (i + 1))) OR push_bit 24 (ucast (sarray ! i))"

function sha1_full_blocks :: "bytes \<Rightarrow> nat \<Rightarrow> u32 list \<Rightarrow> u32 list \<Rightarrow> nat \<times> u32 list \<times> u32 list" where
  "sha1_full_blocks sarray currentBlock result w =
     (if length sarray \<ge> 64 \<and> currentBlock \<le> length sarray - 64 then
        (let w = fold (\<lambda>roundPos w. w[roundPos := sha1_load sarray (currentBlock + 4 * roundPos)]) [0..<16] w
         in case innerHash result w of
              (result, w) \<Rightarrow> sha1_full_blocks sarray (currentBlock + 64) result w)
      else (currentBlock, result, w))"
  by auto
termination
  by (relation "measure (\<lambda>(sarray, currentBlock, result, w). length sarray - currentBlock)") auto

text \<open>\<open>w[n >> 2] |= b << ((3 - (n & 3)) << 3)\<close>.\<close>

definition sha1_or_byte :: "u32 \<Rightarrow> nat \<Rightarrow> u32 list \<Rightarrow> u32 list" where
  "sha1_or_byte b n w = w[n div 4 := w ! (n div 4) OR push_bit ((3 - n mod 4) * 8) b]"

definition sha1_store :: "u32 list \<Rightarrow> bytes" where
  "sha1_store result =
     map (\<lambda>hashByte. ucast (drop_bit (nat ((3 - int hashByte) AND 3) * 8) (result ! (hashByte div 4)) AND 0xff))
       [0..<20]"

definition sha1_calc :: "u32 list \<Rightarrow> bytes \<Rightarrow> bytes" where
  "sha1_calc w sarray =
     (let result = [0x67452301, 0xefcdab89, 0x98badcfe, 0x10325476, 0xc3d2e1f0] in
      case sha1_full_blocks sarray 0 result w of
        (currentBlock, result, w) \<Rightarrow>
          (let endCurrentBlock = length sarray - currentBlock;
               w = clearWBuffert w;
               w = fold (\<lambda>n. sha1_or_byte (ucast (sarray ! (n + currentBlock))) n) [0..<endCurrentBlock] w;
               w = sha1_or_byte 0x80 endCurrentBlock w;
               (result, w) = (if endCurrentBlock \<ge> 56
                              then (case innerHash result w of (result, w) \<Rightarrow> (result, clearWBuffert w))
                              else (result, w));
               w = w[15 := word_of_nat (length sarray * 8)]
           in sha1_store (fst (innerHash result w))))"

subsection \<open>FIPS 180-4\<close>

definition fips_ch :: "u32 \<Rightarrow> u32 \<Rightarrow> u32 \<Rightarrow> u32" where
  "fips_ch x y z = (x AND y) XOR (NOT x AND z)"

definition fips_parity :: "u32 \<Rightarrow> u32 \<Rightarrow> u32 \<Rightarrow> u32" where
  "fips_parity x y z = x XOR y XOR z"

definition fips_maj :: "u32 \<Rightarrow> u32 \<Rightarrow> u32 \<Rightarrow> u32" where
  "fips_maj x y z = (x AND y) XOR (x AND z) XOR (y AND z)"

definition fips_f :: "nat \<Rightarrow> u32 \<Rightarrow> u32 \<Rightarrow> u32 \<Rightarrow> u32" where
  "fips_f t = (if t < 20 then fips_ch else if t < 40 then fips_parity else if t < 60 then fips_maj else fips_parity)"

definition fips_K :: "nat \<Rightarrow> u32" where
  "fips_K t = (if t < 20 then 0x5a827999 else if t < 40 then 0x6ed9eba1 else if t < 60 then 0x8f1bbcdc else 0xca62c1d6)"

text \<open>The message schedule of a block of sixteen words.\<close>

fun fips_W :: "u32 list \<Rightarrow> nat \<Rightarrow> u32" where
  "fips_W M t =
     (if t < 16 then M ! t
      else word_rotl 1 (fips_W M (t - 3) XOR fips_W M (t - 8) XOR fips_W M (t - 14) XOR fips_W M (t - 16)))"

declare fips_W.simps [simp del]

definition fips_round :: "u32 list \<Rightarrow> nat \<Rightarrow> sha1_vars \<Rightarrow> sha1_vars" where
  "fips_round M t v =
     (case v of (a, b, c, d, e) \<Rightarrow>
        (word_rotl 5 a + fips_f t b c d + e + fips_K t + fips_W M t, a, word_rotl 30 b, c, d))"

definition fips_block :: "u32 list \<Rightarrow> u32 list \<Rightarrow> u32 list" where
  "fips_block H M =
     (case fold (fips_round M) [0..<80] (H ! 0, H ! 1, H ! 2, H ! 3, H ! 4) of
        (a, b, c, d, e) \<Rightarrow> [a + H ! 0, b + H ! 1, c + H ! 2, d + H ! 3, e + H ! 4])"

text \<open>Big-endian words, the padding and the blocks of a message.\<close>

definition be_word :: "u8 \<Rightarrow> u8 \<Rightarrow> u8 \<Rightarrow> u8 \<Rightarrow> u32" where
  "be_word a b c d = push_bit 24 (ucast a) OR push_bit 16 (ucast b) OR push_bit 8 (ucast c) OR ucast d"

fun be_words :: "bytes \<Rightarrow> u32 list" where
  "be_words (a # b # c # d # r) = be_word a b c d # be_words r"
| "be_words _ = []"

definition be_bytes :: "nat \<Rightarrow> nat \<Rightarrow> bytes" where
  "be_bytes k n = map (\<lambda>i. word_of_nat (n div 256 ^ i)) (rev [0..<k])"

definition fips_pad :: "bytes \<Rightarrow> bytes" where
  "fips_pad m = m @ [0x80] @ replicate ((119 - length m mod 64) mod 64) 0 @ be_bytes 8 (length m * 8)"

fun fips_blocks :: "u32 list \<Rightarrow> bytes \<Rightarrow> u32 list" where
  "fips_blocks H m =
     (if length m < 64 then H else fips_blocks (fips_block H (be_words (take 64 m))) (drop 64 m))"

declare fips_blocks.simps [simp del]

definition fips_sha1 :: "bytes \<Rightarrow> bytes" where
  "fips_sha1 m =
     concat (map (\<lambda>w. [ucast (drop_bit 24 w), ucast (drop_bit 16 w), ucast (drop_bit 8 w), ucast w])
       (fips_blocks [0x67452301, 0xefcdab89, 0x98badcfe, 0x10325476, 0xc3d2e1f0] (fips_pad m)))"

subsection \<open>The compression function\<close>

lemma rol_word_rotl:
  assumes "0 < n" and "n < 32"
  shows "rol v n = word_rotl n v"
proof (rule bit_word_eqI)
  fix i assume "i < LENGTH(32)"
  then have i: "i < 32" by simp
  show "bit (rol v n) i = bit (word_rotl n v) i"
  proof (cases "n \<le> i")
    case True
    then have "(i + (32 - n)) mod 32 = i - n" using i assms by (simp add: mod_if)
    with True i assms show ?thesis
      by (auto simp: rol_def bit_word_rotl_iff bit_simps dest: bit_imp_le_length)
  next
    case False
    define k where "k = 32 - n"
    have k: "i + k < 32" using False assms by (simp add: k_def)
    have "bit (rol v n) i \<longleftrightarrow> bit v (k + i)"
      using False i by (simp add: rol_def bit_simps k_def [symmetric] del: add_diff_assoc2)
    moreover have "bit (word_rotl n v) i \<longleftrightarrow> bit v (i + k)"
      using k i assms by (simp add: bit_word_rotl_iff k_def [symmetric])
    ultimately show ?thesis by (simp add: add.commute)
  qed
qed

lemma ch_eq: "(b AND c) OR (NOT b AND d) = fips_ch b c d"
  by (rule bit_word_eqI) (auto simp: fips_ch_def bit_simps)

lemma maj_eq: "(b AND c) OR (b AND d) OR (c AND d) = fips_maj b c d"
  by (rule bit_word_eqI) (auto simp: fips_maj_def bit_simps)

text \<open>The buffer holds the schedule of \<open>M\<close> up to \<open>t\<close>.\<close>

definition scheduled :: "u32 list \<Rightarrow> nat \<Rightarrow> u32 list \<Rightarrow> bool" where
  "scheduled M t w \<longleftrightarrow> length w = 80 \<and> (\<forall>i < t. w ! i = fips_W M i)"

lemma scheduled_expand:
  assumes "scheduled M t w" and "16 \<le> t" and "t < 80"
  shows "scheduled M (Suc t) (sha1_expand w t)"
  using assms fips_W.simps [of M t]
  by (auto simp: scheduled_def sha1_expand_def nth_list_update less_Suc_eq rol_word_rotl)

lemma sha1macro_round:
  assumes "scheduled M (Suc t) w" and "func = fips_f t" and "val = fips_K t"
  shows "sha1macro func val w t v = fips_round M t v"
  using assms by (simp add: sha1macro_def fips_round_def scheduled_def rol_word_rotl Let_def split: prod.split)

lemma sha1_rounds_eq:
  assumes "scheduled M m w" and "16 \<le> m" and "m \<le> n" and "n \<le> 80"
    and "\<And>t. m \<le> t \<Longrightarrow> t < n \<Longrightarrow> func = fips_f t \<and> val = fips_K t"
  shows "\<exists>w'. sha1_rounds func val m n (w, v) = (w', fold (fips_round M) [m..<n] v) \<and> scheduled M n w'"
  using assms(3,4,5)
proof (induction n rule: dec_induct)
  case base
  then show ?case using assms(1) by (simp add: sha1_rounds_def)
next
  case (step n)
  then obtain w' where w': "sha1_rounds func val m n (w, v) = (w', fold (fips_round M) [m..<n] v)" "scheduled M n w'"
    by auto
  have "scheduled M (Suc n) (sha1_expand w' n)"
    using scheduled_expand [OF w'(2)] step assms(2) by simp
  moreover from this have "sha1macro func val (sha1_expand w' n) n v = fips_round M n v" for v
    using step by (intro sha1macro_round) auto
  ultimately show ?case
    using w' step by (simp add: sha1_rounds_def Let_def)
qed

lemma sha1_first_rounds:
  assumes "scheduled M 16 w" and "n \<le> 16"
  shows "fold (\<lambda>round. sha1macro fips_ch 0x5a827999 w round) [0..<n] v = fold (fips_round M) [0..<n] v"
  using assms(2)
proof (induction n)
  case (Suc n)
  have "scheduled M (Suc n) w" using assms(1) Suc.prems by (auto simp: scheduled_def)
  then have "sha1macro fips_ch 0x5a827999 w n v = fips_round M n v" for v
    using Suc.prems by (intro sha1macro_round) (simp_all add: fips_f_def fips_K_def)
  with Suc show ?case by simp
qed simp

lemma length_5: "length xs = 5 \<Longrightarrow> xs = [xs ! 0, xs ! 1, xs ! 2, xs ! 3, xs ! 4]"
  by (auto simp: numeral_eq_Suc length_Suc_conv)

lemma innerHash_eq:
  assumes "take 16 w = M" and "length w = 80" and "length result = 5"
  shows "\<exists>w'. innerHash result w = (fips_block result M, w') \<and> length w' = 80"
proof -
  let ?v = "(result ! 0, result ! 1, result ! 2, result ! 3, result ! 4)"
  have s0: "scheduled M 16 w"
    using assms(1,2) fips_W.simps [of M] by (auto simp: scheduled_def)
  obtain w1 where w1: "sha1_rounds fips_ch 0x5a827999 16 20 (w, fold (fips_round M) [0..<16] ?v) =
      (w1, fold (fips_round M) [16..<20] (fold (fips_round M) [0..<16] ?v))" "scheduled M 20 w1"
    using sha1_rounds_eq [OF s0, of 20 fips_ch "0x5a827999" "fold (fips_round M) [0..<16] ?v"]
    by (auto simp: fips_f_def fips_K_def)
  let ?v1 = "fold (fips_round M) [16..<20] (fold (fips_round M) [0..<16] ?v)"
  obtain w2 where w2: "sha1_rounds fips_parity 0x6ed9eba1 20 40 (w1, ?v1) = (w2, fold (fips_round M) [20..<40] ?v1)"
      "scheduled M 40 w2"
    using sha1_rounds_eq [OF w1(2), of 40 fips_parity "0x6ed9eba1" ?v1] by (auto simp: fips_f_def fips_K_def)
  let ?v2 = "fold (fips_round M) [20..<40] ?v1"
  obtain w3 where w3: "sha1_rounds fips_maj 0x8f1bbcdc 40 60 (w2, ?v2) = (w3, fold (fips_round M) [40..<60] ?v2)"
      "scheduled M 60 w3"
    using sha1_rounds_eq [OF w2(2), of 60 fips_maj "0x8f1bbcdc" ?v2] by (auto simp: fips_f_def fips_K_def)
  let ?v3 = "fold (fips_round M) [40..<60] ?v2"
  obtain w4 where w4: "sha1_rounds fips_parity 0xca62c1d6 60 80 (w3, ?v3) = (w4, fold (fips_round M) [60..<80] ?v3)"
      "scheduled M 80 w4"
    using sha1_rounds_eq [OF w3(2), of 80 fips_parity "0xca62c1d6" ?v3] by (auto simp: fips_f_def fips_K_def)
  have "[0..<80] = [0..<16] @ [16..<20] @ [20..<40] @ [40..<60] @ [60..<80]"
    by code_simp
  then have v4: "fold (fips_round M) [0..<80] ?v = fold (fips_round M) [60..<80] ?v3"
    by (simp only: fold_append comp_apply)
  have funs: "(\<lambda>b c d. (b AND c) OR (NOT b AND d)) = fips_ch" "(\<lambda>b c d. b XOR c XOR d) = fips_parity"
    "(\<lambda>b c d. (b AND c) OR (b AND d) OR (c AND d)) = fips_maj"
    by (simp_all add: fun_eq_iff ch_eq maj_eq fips_parity_def)
  obtain a b c d e where v: "fold (fips_round M) [60..<80] ?v3 = (a, b, c, d, e)" by (metis prod_cases5)
  have list: "result[0 := result ! 0 + a, 1 := result ! 1 + b, 2 := result ! 2 + c, 3 := result ! 3 + d, 4 := result ! 4 + e] =
      [a + result ! 0, b + result ! 1, c + result ! 2, d + result ! 3, e + result ! 4]"
    by (subst (1) length_5 [OF assms(3)]) (simp add: add.commute)
  show ?thesis
    using w4(2)
    by (simp only: innerHash_def Let_def funs sha1_first_rounds [OF s0 order_refl] w1(1) w2(1) w3(1) w4(1)
      fips_block_def v4 v prod.case list scheduled_def) simp
qed

subsection \<open>Blocks\<close>

lemma fold_update_upt:
  "n \<le> length w \<Longrightarrow> fold (\<lambda>p w. w[p := g p]) [0..<n] w = map g [0..<n] @ drop n w"
proof (induction n)
  case (Suc n)
  then have "drop n w = w ! n # drop (Suc n) w" by (simp add: Cons_nth_drop_Suc)
  with Suc show ?case by (simp add: list_update_append)
qed simp

lemma nth_fold_clear:
  "i < length w \<Longrightarrow> fold (\<lambda>p w. w[p := 0]) xs w ! i = (if i \<in> set xs then 0 else w ! i)"
  "length (fold (\<lambda>p w. w[p := 0]) xs w) = length w"
  by (induction xs arbitrary: w) (auto simp: nth_list_update)

lemma clearWBuffert_eq:
  assumes "length w = 80"
  shows "take 16 (clearWBuffert w) = replicate 16 0" "length (clearWBuffert w) = 80"
proof -
  show len: "length (clearWBuffert w) = 80" by (simp only: clearWBuffert_def nth_fold_clear(2) assms)
  have "clearWBuffert w ! i = 0" if "i < 16" for i
    using that assms nth_fold_clear(1) [of i w "rev [0..<16]"] by (simp only: clearWBuffert_def) simp
  then show "take 16 (clearWBuffert w) = replicate 16 0"
    using len by (intro nth_equalityI) simp_all
qed

lemma length_be_words: "length (be_words m) = length m div 4"
  by (induction m rule: be_words.induct) simp_all

lemma nth_be_words:
  "4 * i + 3 < length m \<Longrightarrow>
   be_words m ! i = be_word (m ! (4 * i)) (m ! (4 * i + 1)) (m ! (4 * i + 2)) (m ! (4 * i + 3))"
proof (induction m arbitrary: i rule: be_words.induct)
  case (1 a b c d r)
  then show ?case by (cases i) (simp_all add: numeral_eq_Suc)
qed simp_all

lemma sha1_load_be_word: "sha1_load m i = be_word (m ! i) (m ! (i + 1)) (m ! (i + 2)) (m ! (i + 3))"
  by (simp only: sha1_load_def be_word_def or.assoc or.commute or.left_commute)

lemma loaded_block:
  assumes "cb + 64 \<le> length m" and "length w = 80"
  shows "take 16 (fold (\<lambda>p w. w[p := sha1_load m (cb + 4 * p)]) [0..<16] w) = be_words (take 64 (drop cb m))"
    and "length (fold (\<lambda>p w. w[p := sha1_load m (cb + 4 * p)]) [0..<16] w) = 80"
proof -
  have "map (\<lambda>p. sha1_load m (cb + 4 * p)) [0..<16] = be_words (take 64 (drop cb m))"
    by (rule nth_equalityI) (use assms(1) in \<open>simp_all add: length_be_words nth_be_words sha1_load_be_word add.assoc\<close>)
  moreover have "fold (\<lambda>p w. w[p := sha1_load m (cb + 4 * p)]) [0..<16] w =
      map (\<lambda>p. sha1_load m (cb + 4 * p)) [0..<16] @ drop 16 w"
    by (rule fold_update_upt) (simp add: assms(2))
  ultimately show "take 16 (fold (\<lambda>p w. w[p := sha1_load m (cb + 4 * p)]) [0..<16] w) = be_words (take 64 (drop cb m))"
    and "length (fold (\<lambda>p w. w[p := sha1_load m (cb + 4 * p)]) [0..<16] w) = 80"
    using assms by (simp_all add: length_be_words min_absorb2)
qed

lemma length_fips_block: "length (fips_block H M) = 5"
  by (simp add: fips_block_def split: prod.split)

lemma fips_blocks_block:
  "length b = 64 \<Longrightarrow> fips_blocks H (b @ r) = fips_blocks (fips_block H (be_words b)) r"
  by (subst fips_blocks.simps) simp

lemma fips_blocks_one: "length b = 64 \<Longrightarrow> fips_blocks H b = fips_block H (be_words b)"
  using fips_blocks_block [of b H "[]"] by (simp add: fips_blocks.simps [of _ "[]"])

declare sha1_full_blocks.simps [simp del]

lemma sha1_full_blocks_eq:
  assumes "length result = 5" and "length w = 80" and "cb \<le> length m"
  shows "\<exists>cb' result' w'. sha1_full_blocks m cb result w = (cb', result', w') \<and> length result' = 5 \<and> length w' = 80 \<and>
    cb' \<le> length m \<and> length m - cb' < 64 \<and> cb' mod 64 = cb mod 64 \<and>
    (\<forall>r. fips_blocks result (drop cb m @ r) = fips_blocks result' (drop cb' m @ r))"
  using assms
proof (induction m cb result w rule: sha1_full_blocks.induct)
  case (1 m cb result w)
  show ?case
  proof (cases "length m \<ge> 64 \<and> cb \<le> length m - 64")
    case True
    let ?w = "fold (\<lambda>p w. w[p := sha1_load m (cb + 4 * p)]) [0..<16] w"
    have cb: "cb + 64 \<le> length m" using True by linarith
    note load = loaded_block [OF cb "1.prems"(2)]
    obtain w' where w': "innerHash result ?w = (fips_block result (be_words (take 64 (drop cb m))), w')" "length w' = 80"
      using innerHash_eq [OF load "1.prems"(1)] by auto
    have "drop cb m = take 64 (drop cb m) @ drop (cb + 64) m" using append_take_drop_id [of 64 "drop cb m"] by (simp add: add.commute)
    then have split: "drop cb m @ r = take 64 (drop cb m) @ (drop (cb + 64) m @ r)" for r
      by (metis append_assoc)
    have blocks: "fips_blocks result (drop cb m @ r) =
        fips_blocks (fips_block result (be_words (take 64 (drop cb m)))) (drop (cb + 64) m @ r)" for r
      unfolding split by (rule fips_blocks_block) (use cb in simp)
    show ?thesis
      using "1.IH" [OF True refl w'(1) [symmetric]] w' cb length_fips_block
      by (subst sha1_full_blocks.simps) (simp add: True Let_def blocks)
  next
    case False
    with "1.prems" show ?thesis by (subst sha1_full_blocks.simps) auto
  qed
qed

subsection \<open>Padding\<close>

lemma sha1_or_byte_eq:
  assumes "take 16 w = be_words xs" and "length xs = 64" and "length w = 80" and "n < 64" and "xs ! n = 0"
  shows "take 16 (sha1_or_byte (ucast b) n w) = be_words (xs[n := b])" "length (sha1_or_byte (ucast b) n w) = 80"
proof -
  have wi: "w ! i = be_words xs ! i" if "i < 16" for i
    using that assms(1) by (metis nth_take)
  show "take 16 (sha1_or_byte (ucast b) n w) = be_words (xs[n := b])"
  proof (rule nth_equalityI)
    fix i assume "i < length (take 16 (sha1_or_byte (ucast b) n w))"
    then have i: "i < 16" by simp
    show "take 16 (sha1_or_byte (ucast b) n w) ! i = be_words (xs[n := b]) ! i"
    proof (cases "i = n div 4")
      case False
      then have "n \<notin> {4 * i, 4 * i + 1, 4 * i + 2, 4 * i + 3}" by auto
      with False i assms show ?thesis by (simp add: sha1_or_byte_def nth_be_words wi)
    next
      case True
      define k where "k = n mod 4"
      have n: "n = 4 * i + k" and k: "k < 4" using True by (simp_all add: k_def)
      have xs: "xs[n := b] ! (4 * i + j) = (if j = k then b else xs ! (4 * i + j))" if "j < 4" for j
        using n assms(2,4) that by (auto simp: nth_list_update)
      have zero: "xs ! (4 * i + k) = 0" using assms(5) n by simp
      have "take 16 (sha1_or_byte (ucast b) n w) ! i = be_words xs ! i OR push_bit ((3 - k) * 8) (ucast b)"
        using i assms(3) by (simp add: sha1_or_byte_def True [symmetric] k_def wi)
      also have "be_words xs ! i = be_word (xs ! (4 * i + 0)) (xs ! (4 * i + 1)) (xs ! (4 * i + 2)) (xs ! (4 * i + 3))"
        using i assms(2) by (simp add: nth_be_words)
      also have "\<dots> OR push_bit ((3 - k) * 8) (ucast b) =
          be_word (xs[n := b] ! (4 * i + 0)) (xs[n := b] ! (4 * i + 1)) (xs[n := b] ! (4 * i + 2)) (xs[n := b] ! (4 * i + 3))"
      proof -
        consider "k = 0" | "k = 1" | "k = 2" | "k = 3" using k by linarith
        then show ?thesis
          using zero by cases (simp_all only: xs, simp_all add: be_word_def or.assoc or.commute or.left_commute)
      qed
      also have "\<dots> = be_words (xs[n := b]) ! i"
        using i assms(2) by (simp add: nth_be_words)
      finally show ?thesis .
    qed
  qed (simp add: sha1_or_byte_def length_be_words assms)
  show "length (sha1_or_byte (ucast b) n w) = 80" by (simp add: sha1_or_byte_def assms)
qed

lemma be_words_zero: "be_words (replicate 64 0) = replicate 16 0"
  by code_simp

lemma sha1_or_bytes_eq:
  assumes "take 16 w = replicate 16 0" and "length w = 80" and "length rest < 64" and "k \<le> length rest"
  shows "take 16 (fold (\<lambda>n. sha1_or_byte (ucast (rest ! n)) n) [0..<k] w) = be_words (take k rest @ replicate (64 - k) 0) \<and>
    length (fold (\<lambda>n. sha1_or_byte (ucast (rest ! n)) n) [0..<k] w) = 80"
  using assms(4)
proof (induction k)
  case 0
  then show ?case using assms(1,2) be_words_zero by simp
next
  case (Suc k)
  let ?xs = "take k rest @ replicate (64 - k) 0" and ?w = "fold (\<lambda>n. sha1_or_byte (ucast (rest ! n)) n) [0..<k] w"
  have k: "k < length rest" using Suc.prems by simp
  have "64 - k = Suc (64 - Suc k)" using assms(3) k by simp
  then have upd: "?xs[k := rest ! k] = take (Suc k) rest @ replicate (64 - Suc k) 0"
    using k by (simp add: list_update_append take_Suc_conv_app_nth)
  have w: "take 16 ?w = be_words ?xs" "length ?w = 80" using Suc by simp_all
  have "length ?xs = 64" "k < 64" "?xs ! k = 0" using assms(3) k by (simp_all add: nth_append)
  from sha1_or_byte_eq [OF w(1) this(1) w(2) this(2,3), of "rest ! k"] show ?case
    by (simp only: upd) simp
qed

lemma upt_8: "rev [0..<8] = [7, 6, 5, 4, 3, 2, 1, 0 :: nat]"
  by code_simp

lemma replicate_4: "replicate 4 x = [x, x, x, x]"
  by (simp add: numeral_eq_Suc)

lemma upt_4: "rev [0..<4] = [3, 2, 1, 0 :: nat]"
  by code_simp

lemma be_bytes_8:
  assumes "n < 2 ^ 32"
  shows "be_bytes 8 n = replicate 4 0 @ be_bytes 4 n"
proof -
  have zero: "n div 256 ^ k = 0" if "4 \<le> k" for k
  proof (rule div_less)
    have "(256 :: nat) ^ 4 \<le> 256 ^ k" using that by (intro power_increasing) simp_all
    with assms show "n < 256 ^ k" by simp
  qed
  have "n div 256 ^ 4 = 0" "n div 256 ^ 5 = 0" "n div 256 ^ 6 = 0" "n div 256 ^ 7 = 0"
    by (rule zero, simp)+
  then show ?thesis
    unfolding be_bytes_def upt_8 upt_4 replicate_4 by (simp only: list.map append.simps) simp
qed

lemma be_word_be_bytes: "be_words (be_bytes 4 n) = [word_of_nat n]"
proof -
  have "word_of_nat n = be_word (word_of_nat (drop_bit 24 n)) (word_of_nat (drop_bit 16 n)) (word_of_nat (drop_bit 8 n)) (word_of_nat n)"
  proof (rule bit_word_eqI)
    fix i assume "i < LENGTH(32)"
    then have i: "i < 32" by simp
    consider "i < 8" | "8 \<le> i" "i < 16" | "16 \<le> i" "i < 24" | "24 \<le> i" by linarith
    then show "bit (word_of_nat n :: u32) i = bit (be_word (word_of_nat (drop_bit 24 n))
        (word_of_nat (drop_bit 16 n)) (word_of_nat (drop_bit 8 n)) (word_of_nat n)) i"
      using i by cases (simp_all add: be_word_def bit_simps less_diff_conv2)
  qed
  then show ?thesis
    unfolding be_bytes_def upt_4 by (simp add: drop_bit_eq_div)
qed

subsection \<open>The program computes FIPS 180-4\<close>

lemma upt_20: "[0..<20] = [0, 1, 2, 3, 4, 5, 6, 7, 8, 9, 10, 11, 12, 13, 14, 15, 16, 17, 18, 19 :: nat]"
  by code_simp

lemma ucast_and_ff: "ucast ((w :: u32) AND 0xff) = (ucast w :: u8)"
  by (rule u8_eqI; simp add: bit_simps)

lemma sha1_store_eq:
  assumes "length result = 5"
  shows "sha1_store result =
    concat (map (\<lambda>w. [ucast (drop_bit 24 w), ucast (drop_bit 16 w), ucast (drop_bit 8 w), ucast w]) result)"
proof -
  obtain a b c d e where "result = [a, b, c, d, e]" using length_5 [OF assms] by blast
  then show ?thesis unfolding sha1_store_def upt_20 ucast_and_ff by simp
qed

lemma be_words_append: "length xs = 4 * k \<Longrightarrow> be_words (xs @ ys) = be_words xs @ be_words ys"
proof (induction k arbitrary: xs)
  case (Suc k)
  then obtain a b c d r where "xs = a # b # c # d # r" "length r = 4 * k"
    by (auto simp: length_Suc_conv numeral_eq_Suc)
  with Suc.IH show ?case by simp
qed simp

text \<open>The length in the last two words of the last block.\<close>

lemma length_word:
  assumes "take 16 w = be_words (p @ replicate 4 0)" and "length p = 60" and "length w = 80"
  shows "take 16 (w[15 := word_of_nat n]) = be_words (p @ be_bytes 4 n)"
proof -
  have p: "length p = 4 * 15" using assms(2) by simp
  have "take 16 (w[15 := word_of_nat n]) = (take 16 w)[15 := word_of_nat n]" by (simp add: take_update_swap)
  also have "\<dots> = be_words p @ [word_of_nat n]"
    using assms(2) unfolding assms(1) be_words_append [OF p] by (simp add: list_update_append length_be_words replicate_4)
  finally show ?thesis by (simp add: be_words_append [OF p] be_word_be_bytes)
qed

lemma fips_pad_split:
  assumes "m = q @ rest" and "length q mod 64 = 0" and "length rest = e" and "e < 64" and "length m * 8 < 2 ^ 32"
  shows "fips_pad m = q @
    (if e < 56 then (rest @ [0x80] @ replicate (59 - e) 0) @ be_bytes 4 (length m * 8)
     else (rest @ [0x80] @ replicate (63 - e) 0) @ replicate 60 0 @ be_bytes 4 (length m * 8))"
proof -
  have mod: "length m mod 64 = e"
    using assms by (metis add_0 length_append mod_add_left_eq mod_less)
  have pad: "fips_pad m = q @ rest @ [0x80] @ replicate ((119 - e) mod 64) 0 @ replicate 4 0 @ be_bytes 4 (length m * 8)"
    by (simp only: fips_pad_def mod be_bytes_8 [OF assms(5)] append_assoc) (simp add: assms(1))
  have zeros: "replicate a 0 @ replicate b 0 @ x = replicate (a + b) (0 :: u8) @ x" for a b x
    by (simp add: replicate_add)
  show ?thesis
  proof (cases "e < 56")
    case True
    then have "(119 - e) mod 64 = 55 - e" "55 - e + 4 = 59 - e" by (simp_all add: mod_if)
    with True show ?thesis by (simp only: pad zeros append_assoc if_True)
  next
    case False
    then have "(119 - e) mod 64 = 119 - e" "119 - e + 4 = 63 - e + 60" using assms(4) by (simp_all add: mod_if)
    with False show ?thesis by (simp only: pad zeros append_assoc if_False)
  qed
qed

lemma sha1_calc_eq:
  assumes "length w = 80" and "length m < 2 ^ 29"
  shows "sha1_calc w m = fips_sha1 m"
proof -
  let ?H = "[0x67452301, 0xefcdab89, 0x98badcfe, 0x10325476, 0xc3d2e1f0] :: u32 list" and ?L = "length m * 8"
  obtain cb H w1 where full: "sha1_full_blocks m 0 ?H w = (cb, H, w1)" and H: "length H = 5" and w1: "length w1 = 80"
    and cb: "cb \<le> length m" "length m - cb < 64" "cb mod 64 = 0"
    and blocks: "\<And>r. fips_blocks ?H (m @ r) = fips_blocks H (drop cb m @ r)"
    using sha1_full_blocks_eq [of ?H w 0 m] assms(1) by auto
  define rest e where "rest = drop cb m" and "e = length m - cb"
  have e: "length rest = e" "e < 64" using cb by (simp_all add: rest_def e_def)
  have m: "m = take cb m @ rest" by (simp add: rest_def)
  let ?w2 = "fold (\<lambda>n. sha1_or_byte (ucast (rest ! n)) n) [0..<e] (clearWBuffert w1)"
  have "(\<lambda>n. sha1_or_byte (ucast (m ! (n + cb))) n) k = (\<lambda>n. sha1_or_byte (ucast (rest ! n)) n) k" if "k \<in> set [0..<e]" for k
    using that cb by (simp add: rest_def add.commute)
  then have copy: "fold (\<lambda>n. sha1_or_byte (ucast (m ! (n + cb))) n) [0..<e] (clearWBuffert w1) = ?w2"
    by (intro fold_cong) auto
  have w2: "take 16 ?w2 = be_words (rest @ replicate (64 - e) 0)" "length ?w2 = 80"
    using sha1_or_bytes_eq [OF clearWBuffert_eq [OF w1], of rest e] e by simp_all
  define b where "b = rest @ [0x80] @ replicate (63 - e) 0"
  have "64 - e = Suc (63 - e)" using e by simp
  then have "(rest @ replicate (64 - e) 0)[e := 0x80] = b" using e by (simp add: b_def list_update_append)
  then have w3: "take 16 (sha1_or_byte 0x80 e ?w2) = be_words b" "length (sha1_or_byte 0x80 e ?w2) = 80"
    using sha1_or_byte_eq [OF w2(1) _ w2(2), of e "0x80"] e by (simp_all add: nth_append)
  define hw where "hw = (if e \<ge> 56
    then (case innerHash H (sha1_or_byte 0x80 e ?w2) of (H, w) \<Rightarrow> (H, clearWBuffert w))
    else (H, sha1_or_byte 0x80 e ?w2))"
  have calc: "sha1_calc w m = sha1_store (fst (innerHash (fst hw) ((snd hw)[15 := word_of_nat ?L])))"
    by (simp add: sha1_calc_def full Let_def copy hw_def flip: e_def split: prod.split)
  have q: "length (take cb m) mod 64 = 0" and L: "?L < 2 ^ 32" using cb assms(2) by (simp_all add: min_absorb2)
  note pad = fips_pad_split [OF m q e L]
  have hash: "fips_sha1 m = sha1_store (fips_blocks ?H (fips_pad m))" if "length (fips_blocks ?H (fips_pad m)) = 5"
    using that by (simp only: fips_sha1_def sha1_store_eq)
  have tail: "fips_blocks ?H (take cb m @ rest @ y) = fips_blocks H (rest @ y)" for y
    using blocks [of y] m by (metis append_assoc rest_def)
  show ?thesis
  proof (cases "e < 56")
    case True
    define p where "p = rest @ [0x80] @ replicate (59 - e) 0"
    have p: "length p = 60" using True e by (simp add: p_def)
    have "63 - e = 59 - e + 4" using True by simp
    then have "b = p @ replicate 4 0" by (simp only: b_def p_def replicate_add append_assoc)
    note word = length_word [OF w3(1) [unfolded this] p w3(2)]
    from innerHash_eq [OF word [of ?L] _ H] w3(2)
    obtain w5 where "innerHash H ((sha1_or_byte 0x80 e ?w2)[15 := word_of_nat ?L]) = (fips_block H (be_words (p @ be_bytes 4 ?L)), w5)"
      by (auto simp del: of_nat_mult)
    then have "sha1_calc w m = sha1_store (fips_block H (be_words (p @ be_bytes 4 ?L)))"
      using calc True by (simp add: hw_def del: of_nat_mult)
    moreover have "fips_blocks ?H (fips_pad m) = fips_block H (be_words (p @ be_bytes 4 ?L))"
      using pad True p tail fips_blocks_one [of "p @ be_bytes 4 ?L" H]
      by (simp add: p_def be_bytes_def)
    ultimately show ?thesis using hash length_fips_block by simp
  next
    case False
    obtain w4 where w4: "innerHash H (sha1_or_byte 0x80 e ?w2) = (fips_block H (be_words b), w4)" "length w4 = 80"
      using innerHash_eq [OF w3 H] by auto
    have "be_words (replicate 60 0 @ replicate 4 0) = replicate 16 0"
      using be_words_zero by (simp flip: replicate_add)
    with clearWBuffert_eq [OF w4(2)]
    have word: "take 16 ((clearWBuffert w4)[15 := word_of_nat ?L]) = be_words (replicate 60 0 @ be_bytes 4 ?L)"
      by (intro length_word) simp_all
    from innerHash_eq [OF word _ length_fips_block] clearWBuffert_eq [OF w4(2)]
    obtain w5 where "innerHash (fips_block H (be_words b)) ((clearWBuffert w4)[15 := word_of_nat ?L]) =
        (fips_block (fips_block H (be_words b)) (be_words (replicate 60 0 @ be_bytes 4 ?L)), w5)"
      by (auto simp del: of_nat_mult)
    then have "sha1_calc w m = sha1_store (fips_block (fips_block H (be_words b)) (be_words (replicate 60 0 @ be_bytes 4 ?L)))"
      using calc False w4(1) by (simp add: hw_def del: of_nat_mult)
    moreover have "fips_blocks ?H (fips_pad m) = fips_block (fips_block H (be_words b)) (be_words (replicate 60 0 @ be_bytes 4 ?L))"
    proof -
      have "length b = 64" using e by (simp add: b_def)
      then show ?thesis
        using pad False tail fips_blocks_block [of b H "replicate 60 0 @ be_bytes 4 ?L"]
          fips_blocks_one [of "replicate 60 0 @ be_bytes 4 ?L" "fips_block H (be_words b)"]
        by (simp add: b_def be_bytes_def)
    qed
    ultimately show ?thesis using hash length_fips_block by simp
  qed
qed

end
