(* ===== verification/Ws_Handshake.thy ===== *)
theory Ws_Handshake
  imports Ws_Http_Request Ws_Http_Response Ws_Uri Ws_Hybi13 Ws_Sha1
begin

text \<open>
  The opening handshake of RFC 6455: the functions of
  \<open>WebSocketPP/websocketpp/processors/processor.hpp\<close> on requests, and the handshake part of
  \<open>processors/hybi13.hpp\<close>. What a client asks for, the server reads and accepts, and the client
  accepts the server's answer, however both are cut into reads.
\<close>

subsection \<open>Requests\<close>

definition upgrade_token :: bytes where "upgrade_token = str ''websocket''"
definition connection_token :: bytes where "connection_token = str ''Upgrade''"
definition handshake_guid :: bytes where "handshake_guid = str ''258EAFA5-E914-47DA-95CA-C5AB0DC85B11''"

definition is_websocket_handshake :: "'a parser_scheme \<Rightarrow> bool" where
  "is_websocket_handshake r \<longleftrightarrow>
     ci_find_substr (get_header r (str ''Upgrade'')) upgrade_token \<noteq> [] \<and>
     ci_find_substr (get_header r (str ''Connection'')) connection_token \<noteq> []"

definition get_websocket_version :: "request \<Rightarrow> int" where
  "get_websocket_version r =
     (if \<not> m_ready r then - 2
      else if get_header r (str ''Sec-WebSocket-Version'') = [] then 0
      else (case read_int (get_header r (str ''Sec-WebSocket-Version'')) of
              None \<Rightarrow> - 1
            | Some version \<Rightarrow> version))"

text \<open>\<open>std::string::rfind\<close>, \<open>None\<close> for \<open>npos\<close>.\<close>

definition rfind :: "u8 \<Rightarrow> bytes \<Rightarrow> nat option" where
  "rfind c s = (case dropWhile (\<lambda>x. x \<noteq> c) (rev s) of [] \<Rightarrow> None | x # t \<Rightarrow> Some (length t))"

definition get_uri_from_host :: "request \<Rightarrow> bytes \<Rightarrow> uri http_result" where
  "get_uri_from_host r scheme =
     (let h = get_header r (str ''Host'') in
      case rfind 58 h of
        None \<Rightarrow> HRet (uri_scheme_default scheme h (m_uri r))
      | Some last_colon \<Rightarrow>
          if (case rfind 93 h of None \<Rightarrow> False | Some last_sbrace \<Rightarrow> last_colon < last_sbrace)
          then HRet (uri_scheme_default scheme h (m_uri r))
          else uri_scheme_string scheme (take last_colon h) (drop (last_colon + 1) h) (m_uri r))"

subsection \<open>The processor of RFC 6455\<close>

definition enable_extensions :: bool where "enable_extensions \<longleftrightarrow> True"

text \<open>
  The compression extension is the disabled one: it is not implemented, so that no offer of the
  client is looked at, and negotiating one would fail.
\<close>

definition pmd_negotiate :: "attribute_list \<Rightarrow> error_code \<times> bytes" where
  "pmd_negotiate offer = (ExtensionError XE_disabled, [])"

definition pmd_init :: "bool \<Rightarrow> error_code" where
  "pmd_init server = NoError"

definition pmd_generate_offer :: bytes where
  "pmd_generate_offer = []"

fun negotiate_offers :: "bool \<Rightarrow> parameter_list \<Rightarrow> error_code \<times> bytes" where
  "negotiate_offers server [] = (NoError, [])"
| "negotiate_offers server ((name, offer) # p) =
     (if name \<noteq> str ''permessage-deflate'' then negotiate_offers server p
      else if pmd_is_enabled then negotiate_offers server p
      else (case pmd_negotiate offer of (ec, reply) \<Rightarrow>
        if has_error ec then negotiate_offers server p
        else if has_error (pmd_init server) then (pmd_init server, [])
        else (NoError, reply)))"

definition negotiate_extensions :: "bool \<Rightarrow> 'a parser_scheme \<Rightarrow> error_code \<times> bytes" where
  "negotiate_extensions server header =
     (if \<not> enable_extensions then (ProcessorError PE_extensions_disabled, [])
      else (case get_header_as_plist (str ''Sec-WebSocket-Extensions'') header [] of (error, p) \<Rightarrow>
        if error then (ProcessorError PE_extension_parse_error, [])
        else if length p = 0 then (NoError, [])
        else if pmd_is_implemented then negotiate_offers server p
        else (NoError, [])))"

definition validate_handshake :: "request \<Rightarrow> error_code" where
  "validate_handshake r =
     (if m_method r \<noteq> str ''GET'' then ProcessorError PE_invalid_http_method
      else if m_version r \<noteq> str ''HTTP/1.1'' then ProcessorError PE_invalid_http_version
      else if get_header r (str ''Sec-WebSocket-Key'') = [] then ProcessorError PE_missing_required_header
      else NoError)"

text \<open>\<open>w\<close> is what the work area of the hash holds before, which does not matter.\<close>

definition process_handshake_key :: "u32 list \<Rightarrow> bytes \<Rightarrow> bytes" where
  "process_handshake_key w key = str (ws_base64_encode (sha1_calc w (key @ handshake_guid)))"

definition process_handshake ::
  "u32 list \<Rightarrow> request \<Rightarrow> bytes \<Rightarrow> response \<Rightarrow> (error_code \<times> response) http_result" where
  "process_handshake w request subprotocol response =
     (let server_key = process_handshake_key w (get_header request (str ''Sec-WebSocket-Key''));
          response = replace_header (str ''Sec-WebSocket-Accept'') server_key response
      in hbind (append_header (str ''Upgrade'') upgrade_token response) (\<lambda>response.
         hbind (append_header (str ''Connection'') connection_token response) (\<lambda>response.
           HRet (NoError,
             if subprotocol \<noteq> [] then replace_header (str ''Sec-WebSocket-Protocol'') subprotocol response
             else response))))"

fun join_list :: "bytes list \<Rightarrow> bytes" where
  "join_list [] = []"
| "join_list [p] = p"
| "join_list (p # ps) = p @ str '', '' @ join_list ps"

text \<open>\<open>m_rng\<close> is the sequence of numbers the generator gives, the next of them number \<open>k\<close>.\<close>

definition raw_key :: "bool \<Rightarrow> (nat \<Rightarrow> u32) \<Rightarrow> nat \<Rightarrow> bytes" where
  "raw_key le rng k = concat (map (\<lambda>i. word_bytes le 4 (rng (k + i))) [0..<4])"

definition client_handshake_request ::
  "bool \<Rightarrow> (nat \<Rightarrow> u32) \<Rightarrow> nat \<Rightarrow> request \<Rightarrow> uri \<Rightarrow> bytes list \<Rightarrow> (error_code \<times> request) http_result" where
  "client_handshake_request le rng k req u subprotocols =
     hbind (set_method (str ''GET'') req) (\<lambda>req.
       let req = set_version (str ''HTTP/1.1'') (set_uri (m_resource u) req) in
       hbind (append_header (str ''Upgrade'') (str ''websocket'') req) (\<lambda>req.
       hbind (append_header (str ''Connection'') (str ''Upgrade'') req) (\<lambda>req.
         let req = replace_header (str ''Sec-WebSocket-Version'') (str ''13'') req;
             req = replace_header (str ''Host'') (get_host_port u) req;
             req = (if subprotocols \<noteq> []
                    then replace_header (str ''Sec-WebSocket-Protocol'') (join_list subprotocols) req
                    else req);
             req = replace_header (str ''Sec-WebSocket-Key'') (str (ws_base64_encode (raw_key le rng k))) req;
             req = (if pmd_is_implemented \<and> pmd_generate_offer \<noteq> []
                    then replace_header (str ''Sec-WebSocket-Extensions'') pmd_generate_offer req
                    else req)
         in HRet (NoError, req))))"

definition validate_server_handshake_response :: "u32 list \<Rightarrow> request \<Rightarrow> response \<Rightarrow> error_code" where
  "validate_server_handshake_response w req res =
     (if m_status_code res \<noteq> sc_switching_protocols then ProcessorError PE_invalid_http_status
      else if ci_find_substr (get_header res (str ''Upgrade'')) upgrade_token = []
      then ProcessorError PE_missing_required_header
      else if ci_find_substr (get_header res (str ''Connection'')) connection_token = []
      then ProcessorError PE_missing_required_header
      else if process_handshake_key w (get_header req (str ''Sec-WebSocket-Key'')) \<noteq>
              get_header res (str ''Sec-WebSocket-Accept'')
      then ProcessorError PE_missing_required_header
      else NoError)"

definition get_raw :: "response \<Rightarrow> bytes" where
  "get_raw res = response_raw res"

definition get_origin :: "request \<Rightarrow> bytes" where
  "get_origin r = get_header r (str ''Origin'')"

definition extract_subprotocols :: "request \<Rightarrow> bytes list \<Rightarrow> error_code \<times> bytes list" where
  "extract_subprotocols req subprotocol_list =
     (if get_header req (str ''Sec-WebSocket-Protocol'') \<noteq> [] then
        (case get_header_as_plist (str ''Sec-WebSocket-Protocol'') req [] of (error, p) \<Rightarrow>
           if \<not> error then (NoError, subprotocol_list @ map fst p)
           else (ProcessorError PE_subprotocol_parse_error, subprotocol_list))
      else (NoError, subprotocol_list))"

definition hybi13_get_uri :: "bool \<Rightarrow> request \<Rightarrow> uri http_result" where
  "hybi13_get_uri secure request = get_uri_from_host request (if secure then str ''wss'' else str ''ws'')"

subsection \<open>Headers by name\<close>

lemma get_header_replace: "headers_ordered (m_headers p) \<Longrightarrow>
   get_header (replace_header k v p) k' = (if ci_equal k' k then v else get_header p k')"
  by (simp add: get_header_def replace_header_def headers.find_assign)

lemma headers_ordered_replace: "headers_ordered (m_headers p) \<Longrightarrow> headers_ordered (m_headers (replace_header k v p))"
  by (simp add: replace_header_def headers_ordered_assign)

lemma append_header_replace:
  "header_name k \<Longrightarrow> get_header p k = [] \<Longrightarrow> append_header k v p = HRet (replace_header k v p)"
  by (simp add: append_header_new replace_header_def)

lemma headers_printable_assign:
  assumes "headers_printable hs" "header_name k" "header_value v"
  shows "headers_printable (header_assign k v hs)"
proof -
  have "\<forall>h \<in> set (header_assign k v hs). header_name (fst h) \<and> header_value (snd h)"
    using assms unfolding headers_printable_def
    by (induction k v hs rule: header_assign.induct) (auto simp: headers_ordered_def)
  then show ?thesis
    using assms by (simp add: headers_printable_def headers_ordered_assign)
qed

definition headers_size :: "header_list \<Rightarrow> nat" where
  "headers_size hs = sum_list (map (\<lambda>h. length (header_line h) + sizeof_delimiter) hs)"

lemma headers_size_assign: "headers_size (header_assign k v hs) \<le> headers_size hs + length k + length v + 5"
  by (induction k v hs rule: header_assign.induct)
    (auto simp: headers_size_def header_line_def sizeof_delimiter_def str_def)

text \<open>The names the handshake uses are different, whatever their case.\<close>

lemma names_lower:
  "to_lower (str ''Upgrade'') = [117, 112, 103, 114, 97, 100, 101]"
  "to_lower (str ''Connection'') = [99, 111, 110, 110, 101, 99, 116, 105, 111, 110]"
  "to_lower (str ''Host'') = [104, 111, 115, 116]"
  "to_lower (str ''Server'') = [115, 101, 114, 118, 101, 114]"
  "to_lower (str ''Content-Length'') = [99, 111, 110, 116, 101, 110, 116, 45, 108, 101, 110, 103, 116, 104]"
  "to_lower (str ''User-Agent'') = [117, 115, 101, 114, 45, 97, 103, 101, 110, 116]"
  "to_lower (str ''Sec-WebSocket-Key'') = [115, 101, 99, 45, 119, 101, 98, 115, 111, 99, 107, 101, 116, 45, 107, 101, 121]"
  "to_lower (str ''Sec-WebSocket-Accept'') = [115, 101, 99, 45, 119, 101, 98, 115, 111, 99, 107, 101, 116, 45, 97, 99, 99, 101, 112, 116]"
  "to_lower (str ''Sec-WebSocket-Version'') = [115, 101, 99, 45, 119, 101, 98, 115, 111, 99, 107, 101, 116, 45, 118, 101, 114, 115, 105, 111, 110]"
  "to_lower (str ''Sec-WebSocket-Protocol'') = [115, 101, 99, 45, 119, 101, 98, 115, 111, 99, 107, 101, 116, 45, 112, 114, 111, 116, 111, 99, 111, 108]"
  "to_lower (str ''Sec-WebSocket-Extensions'') = [115, 101, 99, 45, 119, 101, 98, 115, 111, 99, 107, 101, 116, 45, 101, 120, 116, 101, 110, 115, 105, 111, 110, 115]"
  by code_simp+

lemmas ci_names = ci_equal_iff names_lower

lemma names_are_names:
  "header_name (str ''Upgrade'')" "header_name (str ''Connection'')" "header_name (str ''Host'')"
  "header_name (str ''Server'')" "header_name (str ''User-Agent'')" "header_name (str ''Sec-WebSocket-Key'')"
  "header_name (str ''Sec-WebSocket-Accept'')" "header_name (str ''Sec-WebSocket-Version'')"
  "header_name (str ''Sec-WebSocket-Protocol'')" "header_name (str ''GET'')" "header_name (str ''websocket'')"
  "header_name (str ''13'')"
  by code_simp+

subsection \<open>Lists of tokens\<close>

definition is_token :: "bytes \<Rightarrow> bool" where
  "is_token p \<longleftrightarrow> p \<noteq> [] \<and> header_name p"

declare parameters_loop.simps [simp del]

lemma extract_token_at: "is_token p \<Longrightarrow> r = [] \<or> is_not_token_char (hd r) \<Longrightarrow> extract_token (p @ r) = (p, r)"
  by (cases r) (auto simp: is_token_def header_name_def list_ex_iff extract_token_def takeWhile_append2 dropWhile_append2)

lemma token_hd: "is_token p \<Longrightarrow> p \<noteq> [] \<and> hd p \<noteq> 13 \<and> \<not> is_whitespace_char (hd p)"
proof -
  assume p: "is_token p"
  then have "\<not> is_not_token_char (hd p)" by (auto simp: is_token_def header_name_def list_ex_iff)
  with p show ?thesis by (auto simp: is_token_def is_whitespace_char_def dest: token_char)
qed

lemma comma_no_token: "is_not_token_char 44" "\<not> is_whitespace_char 44"
  by code_simp+

lemma join_list_token: "is_token p \<Longrightarrow> \<exists>r. join_list (p # ps) = p @ r \<and>
    (if ps = [] then r = [] else r = 44 # 32 # join_list ps)"
  by (cases ps) (simp_all add: str_def byte_of_char_def)

lemma extract_lws_join:
  assumes "ps \<noteq> []" "list_all is_token ps"
  shows "extract_all_lws (join_list ps) = join_list ps" "extract_all_lws (32 # join_list ps) = join_list ps"
proof -
  obtain p qs where ps: "ps = p # qs" using assms(1) by (cases ps) auto
  obtain r where r: "join_list ps = p @ r" using join_list_token [of p qs] assms ps by auto
  have hd: "join_list ps \<noteq> []" "hd (join_list ps) \<noteq> 13" "\<not> is_whitespace_char (hd (join_list ps))"
    using token_hd [of p] assms(2) ps r by auto
  then show 1: "extract_all_lws (join_list ps) = join_list ps" by (rule extract_all_lws_id)
  have "extract_lws (32 # join_list ps) = join_list ps"
    using hd by (cases "join_list ps") (auto simp: extract_lws_def is_whitespace_char_def)
  then show "extract_all_lws (32 # join_list ps) = join_list ps"
    using 1 by (subst extract_all_lws.simps) (simp add: Let_def)
qed

lemma parameters_loop_tokens:
  "ps \<noteq> [] \<Longrightarrow> list_all is_token ps \<Longrightarrow> cursor = join_list ps \<or> cursor = 32 # join_list ps \<Longrightarrow>
   parameters_loop b cursor acc = ([], acc @ map (\<lambda>p. (p, Map.empty)) ps)"
proof (induction ps arbitrary: cursor acc)
  case Nil
  then show ?case by simp
next
  case (Cons p ps)
  have p: "is_token p" using Cons.prems(2) by simp
  obtain r where r: "join_list (p # ps) = p @ r" "if ps = [] then r = [] else r = 44 # 32 # join_list ps"
    using join_list_token [OF p] by blast
  have tok: "extract_token (join_list (p # ps)) = (p, r)"
    unfolding r(1) using r(2) comma_no_token(1) by (intro extract_token_at [OF p]) (auto split: if_splits)
  have lws: "extract_all_lws cursor = p @ r" "cursor \<noteq> []"
    using extract_lws_join [OF Cons.prems(1,2)] Cons.prems(3) r(1) token_hd [OF p] by auto
  have r_lws: "extract_all_lws r = r"
    using r(2) comma_no_token by (cases "ps = []") (auto simp: extract_all_lws_id extract_all_lws.simps [of "[]"] extract_lws_def)
  show ?case
  proof (cases "ps = []")
    case True
    with r(2) lws tok r(1) p r_lws show ?thesis
      by (subst parameters_loop.simps) (simp add: is_token_def)
  next
    case False
    then have "parameters_loop b (32 # join_list ps) (acc @ [(p, Map.empty)]) = ([], (acc @ [(p, Map.empty)]) @ map (\<lambda>p. (p, Map.empty)) ps)"
      using Cons.prems(2) by (intro Cons.IH) auto
    with r(2) lws tok r(1) p r_lws False show ?thesis
      by (subst parameters_loop.simps) (simp add: is_token_def)
  qed
qed

lemma parse_join_list:
  assumes "ps \<noteq> []" "list_all is_token ps"
  shows "parse_parameter_list (join_list ps) out = (False, out @ map (\<lambda>p. (p, Map.empty)) ps)"
proof -
  have "join_list ps \<noteq> []"
    using assms join_list_token [of "hd ps" "tl ps"] by (cases ps) (auto simp: is_token_def)
  then show ?thesis
    using parameters_loop_tokens [OF assms] by (simp add: parse_parameter_list_def extract_parameters_def)
qed

lemma join_list_value: "list_all is_token ps \<Longrightarrow> header_value (join_list ps)"
proof (induction ps rule: join_list.induct)
  case (3 p q ps)
  then have v: "header_value p" "header_value (join_list (q # ps))" "p \<noteq> []" "join_list (q # ps) \<noteq> []"
    using join_list_token [of q ps] by (auto simp: is_token_def header_name_value)
  then have "no_crlf (44 # 32 # join_list (q # ps))" by (simp add: no_crlf_Cons header_value_def)
  moreover have "join_list (p # q # ps) = p @ 44 # 32 # join_list (q # ps)"
    by (simp add: str_def byte_of_char_def)
  ultimately show ?case
    using v by (simp add: header_value_def no_crlf_append del: join_list.simps)
qed (auto simp: header_value_def [of "[]"] is_token_def header_name_value)

subsection \<open>Keys\<close>

lemma base64_text: "g < 64 \<Longrightarrow> 32 < byte_of_char (base64_char g)"
  using alphabet(2) [of g]
  by (auto simp: is_base64_def isalnum_def word_less_nat_alt word_le_nat_alt)

lemma base64_tail_text: "c \<in> set (base64_encode_tail bs) \<Longrightarrow> length bs < 3 \<Longrightarrow> 32 < byte_of_char c"
proof -
  assume c: "c \<in> set (base64_encode_tail bs)" and len: "length bs < 3"
  have eq: "32 < byte_of_char (CHR ''='')" by code_simp
  obtain x y z where xyz: "bs @ replicate (3 - length bs) 0 = [x, y, z]"
    using len by (cases bs; cases "tl bs"; cases "tl (tl bs)") (auto simp: numeral_3_eq_3)
  have "32 < byte_of_char d" if "d \<in> set (map base64_char (encode_group [x, y, z]))" for d
    using that encode_group_small [of _ x y z] base64_text by (auto simp del: encode_group.simps)
  with c eq show ?thesis
    unfolding base64_encode_tail_def Let_def xyz
    by (auto simp del: encode_group.simps split: if_splits dest: in_set_takeD)
qed

lemma rfc4648_text: "c \<in> set (rfc4648 bs) \<Longrightarrow> 32 < byte_of_char c"
proof (induction bs rule: rfc4648.induct)
  case (1 x y z r)
  then show ?case
    using encode_group_small [of _ x y z] base64_text by (auto simp del: encode_group.simps)
qed (auto dest!: base64_tail_text)

lemma key_text: "c \<in> set (str (ws_base64_encode bs)) \<Longrightarrow> 32 < c"
  by (auto simp: str_def ws_base64_encode_eq dest: rfc4648_text)

lemma text_value: "\<forall>c \<in> set s. 32 < (c :: u8) \<Longrightarrow> header_value s"
proof -
  assume s: "\<forall>c \<in> set s. 32 < c"
  then have "no_crlf s" by (intro no_crlf_no_cr) auto
  moreover have "32 < c \<Longrightarrow> \<not> is_whitespace_char c \<and> c \<noteq> 13" for c :: u8 by (auto simp: is_whitespace_char_def)
  moreover have "s \<noteq> [] \<Longrightarrow> 32 < hd s \<and> 32 < last s" using s by simp
  ultimately show ?thesis by (auto simp: header_value_def)
qed

lemma key_value: "header_value (str (ws_base64_encode bs))"
  using key_text text_value by blast

lemma length_key: "length (str (ws_base64_encode bs)) = 4 * ((length bs + 2) div 3)"
  by (simp add: str_def ws_base64_encode_eq length_rfc4648)

subsection \<open>The client's request\<close>

text \<open>The request a client without headers of its own sends.\<close>

definition client_request :: "bool \<Rightarrow> (nat \<Rightarrow> u32) \<Rightarrow> nat \<Rightarrow> uri \<Rightarrow> bytes list \<Rightarrow> request" where
  "client_request le rng k u ps =
     (let r = request_init\<lparr>m_method := str ''GET'', m_uri := m_resource u, m_version := str ''HTTP/1.1''\<rparr>;
          r = replace_header (str ''Upgrade'') (str ''websocket'') r;
          r = replace_header (str ''Connection'') (str ''Upgrade'') r;
          r = replace_header (str ''Sec-WebSocket-Version'') (str ''13'') r;
          r = replace_header (str ''Host'') (get_host_port u) r;
          r = (if ps \<noteq> [] then replace_header (str ''Sec-WebSocket-Protocol'') (join_list ps) r else r)
      in replace_header (str ''Sec-WebSocket-Key'') (str (ws_base64_encode (raw_key le rng k))) r)"

declare header_assign.simps [simp del]

lemma headers_ordered_Nil [simp]: "headers_ordered []"
  by (simp add: headers_ordered_def)

lemma get_header_fields [simp]:
  "get_header (r\<lparr>m_method := m\<rparr>) k = get_header r k" "get_header (r\<lparr>m_uri := u\<rparr>) k = get_header r k"
  "get_header (p\<lparr>m_version := v\<rparr>) k = get_header p k" "get_header request_init k = []"
  by (simp_all add: get_header_def request_init_def)

lemma replace_header_fields [simp]:
  "m_method (replace_header k v r) = m_method r" "m_uri (replace_header k v r) = m_uri r"
  "m_version (replace_header k v p) = m_version p" "m_body (replace_header k v p) = m_body p"
  "m_headers (replace_header k v p) = header_assign k v (m_headers p)"
  "m_status_code (replace_header k v s) = m_status_code s" "m_status_msg (replace_header k v s) = m_status_msg s"
  by (simp_all add: replace_header_def)

lemma ordered_init [simp]: "headers_ordered (m_headers request_init)"
  by (simp add: request_init_def headers_ordered_def)

lemmas header_simps = get_header_replace headers_ordered_assign ci_names names_are_names

lemma client_handshake_request_eq:
  "client_handshake_request le rng k request_init u ps = HRet (NoError, client_request le rng k u ps)"
proof -
  let ?r = "request_init\<lparr>m_method := str ''GET'', m_uri := m_resource u, m_version := str ''HTTP/1.1''\<rparr>"
  let ?r1 = "replace_header (str ''Upgrade'') (str ''websocket'') ?r"
  have "set_method (str ''GET'') request_init = HRet (request_init\<lparr>m_method := str ''GET''\<rparr>)"
    using names_are_names by (simp add: set_method_def header_name_def)
  moreover have "set_version (str ''HTTP/1.1'') (set_uri (m_resource u) (request_init\<lparr>m_method := str ''GET''\<rparr>)) = ?r"
    by (simp add: set_version_def set_uri_def)
  moreover have "append_header (str ''Upgrade'') (str ''websocket'') ?r = HRet ?r1"
    by (rule append_header_replace) (simp_all add: header_simps)
  moreover have "append_header (str ''Connection'') (str ''Upgrade'') ?r1 =
      HRet (replace_header (str ''Connection'') (str ''Upgrade'') ?r1)"
    by (rule append_header_replace) (simp_all add: header_simps)
  ultimately show ?thesis
    by (simp add: client_handshake_request_def client_request_def Let_def pmd_is_implemented_def)
qed

lemma client_request_headers:
  "headers_ordered (m_headers (client_request le rng k u ps))"
  "get_header (client_request le rng k u ps) (str ''Upgrade'') = str ''websocket''"
  "get_header (client_request le rng k u ps) (str ''Connection'') = str ''Upgrade''"
  "get_header (client_request le rng k u ps) (str ''Sec-WebSocket-Version'') = str ''13''"
  "get_header (client_request le rng k u ps) (str ''Host'') = get_host_port u"
  "get_header (client_request le rng k u ps) (str ''Sec-WebSocket-Protocol'') = join_list ps"
  "get_header (client_request le rng k u ps) (str ''Sec-WebSocket-Key'') = str (ws_base64_encode (raw_key le rng k))"
  "get_header (client_request le rng k u ps) (str ''Content-Length'') = []"
  "get_header (client_request le rng k u ps) (str ''Sec-WebSocket-Extensions'') = []"
  by (auto simp: client_request_def Let_def header_simps)

lemma client_request_fields:
  "m_method (client_request le rng k u ps) = str ''GET''" "m_uri (client_request le rng k u ps) = m_resource u"
  "m_version (client_request le rng k u ps) = str ''HTTP/1.1''" "m_body (client_request le rng k u ps) = []"
  by (auto simp: client_request_def Let_def request_init_def)

definition client_uri :: "uri \<Rightarrow> bool" where
  "client_uri u \<longleftrightarrow> 32 \<notin> set (m_resource u) \<and> no_crlf (m_resource u) \<and>
     header_value (get_host_port u) \<and> get_host_port u \<noteq> []"

lemma str_nonempty [simp]: "str s = [] \<longleftrightarrow> s = []"
  by (simp add: str_def)

lemma http_version_text: "no_crlf (str ''HTTP/1.1'')" "32 \<notin> set (str ''HTTP/1.1'')"
  by code_simp+

lemma headers_printable_Nil [simp]: "headers_printable []"
  by (simp add: headers_printable_def headers_ordered_def)

lemma client_request_printable:
  assumes "client_uri u" "list_all is_token ps"
  shows "request_printable (client_request le rng k u ps)"
proof -
  have "headers_printable (m_headers (client_request le rng k u ps))"
    unfolding client_request_def Let_def using assms join_list_value [of ps]
    by (auto simp: request_init_def client_uri_def intro!: headers_printable_assign names_are_names key_value
      names_are_names [THEN header_name_value])
  moreover have "body_agrees (client_request le rng k u ps)"
    by (simp add: body_agrees_def client_request_headers client_request_fields)
  ultimately show ?thesis
    using assms names_are_names http_version_text
    by (simp add: request_printable_def client_request_fields client_request_headers client_uri_def max_body_size_def)
qed

lemma length_str: "length (str s) = length s"
  by (simp add: str_def)

lemma length_raw_key: "length (raw_key le rng k) = 16"
  by (simp add: raw_key_def upt_rec word_bytes_def Let_def)

lemma client_request_size:
  "header_size (request_lines (client_request le rng k u ps)) \<le>
     250 + length (m_resource u) + length (get_host_port u) + length (join_list ps)"
proof -
  note a = headers_size_assign
  let ?h1 = "header_assign (str ''Upgrade'') (str ''websocket'') []"
  let ?h2 = "header_assign (str ''Connection'') (str ''Upgrade'') ?h1"
  let ?h3 = "header_assign (str ''Sec-WebSocket-Version'') (str ''13'') ?h2"
  let ?h4 = "header_assign (str ''Host'') (get_host_port u) ?h3"
  let ?h5 = "if ps \<noteq> [] then header_assign (str ''Sec-WebSocket-Protocol'') (join_list ps) ?h4 else ?h4"
  let ?key = "str (ws_base64_encode (raw_key le rng k))"
  have "headers_size [] = 0" by (simp add: headers_size_def)
  then have "headers_size ?h4 \<le> length (get_host_port u) + 100"
    using a [of "str ''Upgrade''" "str ''websocket''" "[]"] a [of "str ''Connection''" "str ''Upgrade''" ?h1]
      a [of "str ''Sec-WebSocket-Version''" "str ''13''" ?h2] a [of "str ''Host''" "get_host_port u" ?h3]
    by (simp add: length_str)
  then have "headers_size ?h5 \<le> length (get_host_port u) + length (join_list ps) + 130"
    using a [of "str ''Sec-WebSocket-Protocol''" "join_list ps" ?h4] by (simp add: length_str)
  moreover have "length (str ''Sec-WebSocket-Key'') = 17" by (simp add: length_str)
  moreover have "length ?key = 24" by (simp add: length_key length_raw_key)
  moreover have all: "m_headers (client_request le rng k u ps) = header_assign (str ''Sec-WebSocket-Key'') ?key ?h5"
    by (simp add: client_request_def Let_def request_init_def)
  ultimately have "headers_size (m_headers (client_request le rng k u ps)) \<le> length (get_host_port u) + length (join_list ps) + 180"
    unfolding all using a [of "str ''Sec-WebSocket-Key''" ?key ?h5] by linarith
  then show ?thesis
    by (simp add: header_size_def request_lines_def headers_size_def request_line_text_def client_request_fields
      sizeof_delimiter_def comp_def length_str)
qed

subsection \<open>The server's answer\<close>

lemma ci_find_itself: "s \<noteq> [] \<Longrightarrow> ci_find_substr s s \<noteq> []"
  by (cases s) (simp_all add: ci_find_substr_def search_from.simps(2) list_all2_refl)

text \<open>What the functions of the server see of a request, its headers and its first line.\<close>

definition same_head :: "request \<Rightarrow> request \<Rightarrow> bool" where
  "same_head q r \<longleftrightarrow> m_headers q = m_headers r \<and> m_method q = m_method r \<and> m_uri q = m_uri r \<and> m_version q = m_version r"

lemma same_head_read: "same_head (count_header d (request_read_back r)) r" "m_ready (count_header d (request_read_back r))"
  by (simp_all add: same_head_def count_header_def request_read_back_def)

lemma same_head_header: "same_head q r \<Longrightarrow> get_header q k = get_header r k"
  by (simp add: same_head_def get_header_def)

lemma server_accepts:
  assumes q: "same_head q (client_request le rng k u ps)" "m_ready q" and ps: "list_all is_token ps"
  shows "is_websocket_handshake q" "get_websocket_version q = 13" "validate_handshake q = NoError"
    "negotiate_extensions True q = (NoError, [])" "extract_subprotocols q acc = (NoError, acc @ ps)"
proof -
  note h = same_head_header [OF q(1)] client_request_headers
  have f: "m_method q = str ''GET''" "m_version q = str ''HTTP/1.1''" "m_headers q = m_headers (client_request le rng k u ps)"
    using q(1) by (simp_all add: same_head_def client_request_fields)
  show "is_websocket_handshake q"
    using ci_find_itself [of upgrade_token] ci_find_itself [of connection_token]
    by (simp add: is_websocket_handshake_def h) (simp add: upgrade_token_def connection_token_def)
  have "read_int (str ''13'') = Some 13"
    by code_simp
  then show "get_websocket_version q = 13"
    using q(2) by (simp add: get_websocket_version_def h)
  have "length (str (ws_base64_encode (raw_key le rng k))) = 24"
    by (simp add: length_key length_raw_key)
  then have "str (ws_base64_encode (raw_key le rng k)) \<noteq> []" by (metis list.size(3) zero_neq_numeral)
  then show "validate_handshake q = NoError" by (simp add: validate_handshake_def f h)
  have ext: "get_header q (str ''Sec-WebSocket-Extensions'') = []" by (simp add: h)
  then show "negotiate_extensions True q = (NoError, [])"
    by (auto simp: negotiate_extensions_def enable_extensions_def get_header_as_plist_def get_header_def split: option.splits)
  have proto: "get_header q (str ''Sec-WebSocket-Protocol'') = join_list ps" by (simp add: h)
  show "extract_subprotocols q acc = (NoError, acc @ ps)"
  proof (cases "ps = []")
    case True
    then show ?thesis using proto by (simp add: extract_subprotocols_def)
  next
    case False
    have ne: "join_list ps \<noteq> []"
      using False ps join_list_token [of "hd ps" "tl ps"] by (cases ps) (auto simp: is_token_def)
    with proto have "header_find (str ''Sec-WebSocket-Protocol'') (m_headers q) = Some (join_list ps)"
      by (simp add: get_header_def split: option.splits)
    with ne proto parse_join_list [OF False ps] show ?thesis
      by (simp add: extract_subprotocols_def get_header_as_plist_def comp_def)
  qed
qed

definition server_response :: "bytes \<Rightarrow> bytes \<Rightarrow> response" where
  "server_response key sub =
     (let r = set_status sc_switching_protocols response_init;
          r = replace_header (str ''Sec-WebSocket-Accept'') key r;
          r = replace_header (str ''Upgrade'') upgrade_token r;
          r = replace_header (str ''Connection'') connection_token r
      in if sub \<noteq> [] then replace_header (str ''Sec-WebSocket-Protocol'') sub r else r)"

lemma response_init_headers [simp]:
  "headers_ordered (m_headers response_init)" "get_header response_init k = []"
  "headers_ordered (m_headers (set_status c response_init))" "get_header (set_status c response_init) k = []"
  "m_headers (set_status c response_init) = []"
  by (simp_all add: set_status_def response_init_def headers_ordered_def get_header_def)

lemma process_handshake_eq:
  "process_handshake w q sub (set_status sc_switching_protocols response_init) =
     HRet (NoError, server_response (process_handshake_key w (get_header q (str ''Sec-WebSocket-Key''))) sub)"
proof -
  let ?key = "process_handshake_key w (get_header q (str ''Sec-WebSocket-Key''))"
  let ?r = "replace_header (str ''Sec-WebSocket-Accept'') ?key (set_status sc_switching_protocols response_init)"
  let ?r1 = "replace_header (str ''Upgrade'') upgrade_token ?r"
  have "append_header (str ''Upgrade'') upgrade_token ?r = HRet ?r1"
    by (rule append_header_replace) (simp_all add: header_simps)
  moreover have "append_header (str ''Connection'') connection_token ?r1 =
      HRet (replace_header (str ''Connection'') connection_token ?r1)"
    by (rule append_header_replace)
      (simp_all add: header_simps)
  ultimately show ?thesis
    by (simp add: process_handshake_def server_response_def Let_def)
qed

lemma server_response_headers:
  "headers_ordered (m_headers (server_response key sub))"
  "get_header (server_response key sub) (str ''Upgrade'') = upgrade_token"
  "get_header (server_response key sub) (str ''Connection'') = connection_token"
  "get_header (server_response key sub) (str ''Sec-WebSocket-Accept'') = key"
  "get_header (server_response key sub) (str ''Sec-WebSocket-Protocol'') = sub"
  "get_header (server_response key sub) (str ''Content-Length'') = []"
  by (auto simp: server_response_def Let_def header_simps)

lemma server_response_fields:
  "m_status_code (server_response key sub) = sc_switching_protocols"
  "m_status_msg (server_response key sub) = str ''Switching Protocols''" "m_body (server_response key sub) = []"
proof -
  have "status_code_string sc_switching_protocols = ''Switching Protocols''" by code_simp
  then show "m_status_code (server_response key sub) = sc_switching_protocols"
    "m_status_msg (server_response key sub) = str ''Switching Protocols''" "m_body (server_response key sub) = []"
    by (auto simp: server_response_def Let_def set_status_def response_init_def)
qed

lemma server_response_printable:
  assumes "header_value key" "header_value sub"
  shows "response_printable (set_version (str ''HTTP/1.1'') (server_response key sub))"
proof -
  have "headers_printable (m_headers (server_response key sub))"
    unfolding server_response_def Let_def using assms
    by (auto simp: upgrade_token_def connection_token_def intro!: headers_printable_assign names_are_names
      names_are_names [THEN header_name_value])
  moreover have "no_crlf (str ''Switching Protocols'')" by code_simp
  ultimately show ?thesis
    using http_version_text
    by (simp add: response_printable_def set_version_def server_response_headers server_response_fields
      body_agrees_def in_int_range_def sc_switching_protocols_def)
qed

lemma server_response_size:
  "header_size (response_lines (set_version (str ''HTTP/1.1'') (server_response key sub))) \<le> 200 + length key + length sub"
proof -
  let ?r = "server_response key sub"
  have "headers_size (m_headers ?r) \<le> length key + length sub + 120"
  proof -
    note a = headers_size_assign
    let ?h1 = "header_assign (str ''Sec-WebSocket-Accept'') key []"
    let ?h2 = "header_assign (str ''Upgrade'') upgrade_token ?h1"
    let ?h3 = "header_assign (str ''Connection'') connection_token ?h2"
    let ?h4 = "header_assign (str ''Sec-WebSocket-Protocol'') sub ?h3"
    have "headers_size [] = 0" by (simp add: headers_size_def)
    then have h3: "headers_size ?h3 \<le> length key + 90"
      using a [of "str ''Sec-WebSocket-Accept''" key "[]"] a [of "str ''Upgrade''" upgrade_token ?h1]
        a [of "str ''Connection''" connection_token ?h2]
      by (simp add: upgrade_token_def connection_token_def length_str)
    then have "headers_size ?h4 \<le> length key + length sub + 120"
      using a [of "str ''Sec-WebSocket-Protocol''" sub ?h3] by (simp add: length_str)
    with h3 show ?thesis by (simp add: server_response_def Let_def)
  qed
  moreover have "length (response_line_text (set_version (str ''HTTP/1.1'') ?r)) \<le> 40"
  proof -
    have "length (print_int 101) = 3" by code_simp
    then show ?thesis
      by (simp add: response_line_text_def set_version_def server_response_fields sc_switching_protocols_def str_def)
  qed
  ultimately show ?thesis
    by (simp add: header_size_def response_lines_def headers_size_def set_version_def sizeof_delimiter_def comp_def)
qed

subsection \<open>Both sides\<close>

lemma same_key:
  "same_head q r \<Longrightarrow> process_handshake_key w (get_header q k) = process_handshake_key w (get_header r k)"
  by (simp add: same_head_header)

text \<open>The work area of the hash has no influence on a key of this size.\<close>

lemma process_handshake_key_eq:
  "length w = 80 \<Longrightarrow> length key < 2 ^ 28 \<Longrightarrow>
   process_handshake_key w key = str (rfc4648 (fips_sha1 (key @ handshake_guid)))"
  by (simp add: process_handshake_key_def sha1_calc_eq ws_base64_encode_eq handshake_guid_def str_def)

lemma client_accepts:
  assumes res: "m_headers res = m_headers (server_response (process_handshake_key w (get_header req (str ''Sec-WebSocket-Key''))) sub)"
    "m_status_code res = sc_switching_protocols"
    and w: "length w = 80" "length w' = 80" and key: "length (get_header req (str ''Sec-WebSocket-Key'')) < 2 ^ 28"
  shows "validate_server_handshake_response w' req res = NoError"
proof -
  have h: "get_header res k = get_header (server_response (process_handshake_key w (get_header req (str ''Sec-WebSocket-Key''))) sub) k"
    for k using res(1) by (simp add: get_header_def)
  have "upgrade_token \<noteq> []" "connection_token \<noteq> []" by (simp_all add: upgrade_token_def connection_token_def)
  then show ?thesis
    using w key res(2)
    by (simp add: validate_server_handshake_response_def h server_response_headers ci_find_itself process_handshake_key_eq)
qed

lemma handshake_in_reads:
  assumes u: "client_uri u" and ps: "list_all is_token ps" and sub: "sub \<in> insert [] (set ps)"
    and w: "length w = 80" "length w' = 80"
    and cs: "concat cs = request_raw (client_request le rng k u ps) @ rest" "cs \<noteq> []" "[] \<notin> set cs"
    and cs_size: "250 + length (m_resource u) + length (get_host_port u) + length (join_list ps) +
      length cs * sizeof_delimiter \<le> max_header_size"
  shows "\<exists>q res. reads request_consume cs request_init = HRet (length (request_raw (client_request le rng k u ps)), q) \<and>
    m_ready q \<and> is_websocket_handshake q \<and> get_websocket_version q = 13 \<and> validate_handshake q = NoError \<and>
    negotiate_extensions True q = (NoError, []) \<and> extract_subprotocols q [] = (NoError, ps) \<and>
    process_handshake w q sub (set_status sc_switching_protocols response_init) = HRet (NoError, res) \<and>
    get_header res (str ''Sec-WebSocket-Protocol'') = sub \<and>
    (\<forall>ds rest'. concat ds = response_raw (set_version (str ''HTTP/1.1'') res) @ rest' \<longrightarrow> ds \<noteq> [] \<longrightarrow> [] \<notin> set ds \<longrightarrow>
      228 + length sub + length ds * sizeof_delimiter \<le> max_header_size \<longrightarrow>
      (\<exists>r. reads response_consume ds response_init =
            HRet (length (response_raw (set_version (str ''HTTP/1.1'') res)), r) \<and>
          headers_ready r \<and> negotiate_extensions False r = (NoError, []) \<and>
          validate_server_handshake_response w' (client_request le rng k u ps) r = NoError))"
proof -
  let ?req = "client_request le rng k u ps"
  obtain d where d: "reads request_consume cs request_init =
      HRet (length (request_raw ?req), count_header d (request_read_back ?req))"
    using request_in_reads [OF client_request_printable [OF u ps] cs] client_request_size [of le rng k u ps] cs_size
    by fastforce
  let ?q = "count_header d (request_read_back ?req)"
  let ?key = "process_handshake_key w (get_header ?req (str ''Sec-WebSocket-Key''))"
  let ?res = "server_response ?key sub"
  have key: "length (get_header ?req (str ''Sec-WebSocket-Key'')) = 24"
    by (simp add: client_request_headers length_key length_raw_key)
  have res: "process_handshake w ?q sub (set_status sc_switching_protocols response_init) = HRet (NoError, ?res)"
    by (simp add: process_handshake_eq same_head_header [OF same_head_read(1)])
  have good: "header_value ?key" "length ?key = 28"
  proof -
    show "header_value ?key" by (simp add: process_handshake_key_def key_value)
    have "length (sha1_calc w x) = 20" for x by (simp add: sha1_calc_def Let_def sha1_store_def split: prod.splits)
    then show "length ?key = 28" by (simp add: process_handshake_key_def length_key)
  qed
  have sub_value: "header_value sub"
    using sub ps by (auto simp: header_value_def [of "[]"] list_all_iff is_token_def header_name_value)
  let ?out = "set_version (str ''HTTP/1.1'') ?res"
  have size: "header_size (response_lines ?out) \<le> 228 + length sub"
    using server_response_size [of ?key sub] good(2) by simp
  have client: "\<exists>r. reads response_consume ds response_init = HRet (length (response_raw ?out), r) \<and> headers_ready r \<and>
      negotiate_extensions False r = (NoError, []) \<and> validate_server_handshake_response w' ?req r = NoError"
    if ds: "concat ds = response_raw ?out @ rest'" "ds \<noteq> []" "[] \<notin> set ds"
      "228 + length sub + length ds * sizeof_delimiter \<le> max_header_size" for ds rest'
  proof -
    have "header_size (response_lines ?out) + length ds * sizeof_delimiter \<le> max_header_size"
      using size ds(4) by simp
    from response_in_reads [OF server_response_printable [OF good(1) sub_value] ds(1-3) this]
    obtain e where e: "reads response_consume ds response_init =
        HRet (length (response_raw ?out), count_response e (response_read_back ?out rest'))" by blast
    let ?r = "count_response e (response_read_back ?out rest')"
    have heads: "m_headers ?r = m_headers ?res" "m_status_code ?r = sc_switching_protocols"
      by (simp_all add: count_response_def response_read_back_def set_version_def server_response_fields)
    then have "validate_server_handshake_response w' ?req ?r = NoError"
      using client_accepts [OF heads(1) heads(2) w] key by simp
    moreover have "get_header ?r (str ''Sec-WebSocket-Extensions'') = []"
      using heads(1) by (simp add: get_header_def server_response_def Let_def headers.find_assign header_simps)
    then have "negotiate_extensions False ?r = (NoError, [])"
      by (auto simp: negotiate_extensions_def enable_extensions_def get_header_as_plist_def get_header_def split: option.splits)
    moreover have "headers_ready ?r" by (simp add: headers_ready_def count_response_def response_read_back_def)
    ultimately show ?thesis using e by blast
  qed
  have "get_header ?res (str ''Sec-WebSocket-Protocol'') = sub" by (rule server_response_headers)
  then show ?thesis
    using d res server_accepts(1-4) [OF same_head_read ps] server_accepts(5) [where acc = "[]", OF same_head_read ps]
      same_head_read(2) client
    by (intro exI [of _ ?q] exI [of _ ?res]) simp
qed

subsection \<open>The URI of a request\<close>

lemma udec_nonempty [simp]: "udec n \<noteq> []"
  by (simp add: udec_def)

lemma rfind_last: "c \<notin> set t \<Longrightarrow> rfind c (s @ c # t) = Some (length s)"
proof -
  assume "c \<notin> set t"
  then have "dropWhile (\<lambda>x. x \<noteq> c) (rev t @ c # rev s) = c # rev s" by (subst dropWhile_append2) auto
  then show ?thesis by (simp add: rfind_def)
qed

lemma rfind_none: "c \<notin> set s \<Longrightarrow> rfind c s = None"
proof -
  assume "c \<notin> set s"
  then have "\<forall>x \<in> set (rev s). x \<noteq> c" by auto
  then have "dropWhile (\<lambda>x. x \<noteq> c) (rev s) = []" by (simp only: dropWhile_eq_Nil_conv)
  then show ?thesis by (simp only: rfind_def list.case)
qed

lemma digits_no_colon: "list_all is_digit s \<Longrightarrow> 58 \<notin> set s \<and> 93 \<notin> set s"
  by (auto simp: list_all_iff is_digit_def)

lemma host_with_port:
  assumes "get_header r (str ''Host'') = h @ 58 # str (udec n)" "93 \<notin> set h"
  shows "get_uri_from_host r scheme = uri_scheme_string scheme h (str (udec n)) (m_uri r)"
proof -
  have "58 \<notin> set (str (udec n))" "93 \<notin> set (str (udec n))"
    using digits_no_colon digits_of_udec(1) [of n] by blast+
  then show ?thesis
    using assms by (simp add: get_uri_from_host_def rfind_last rfind_none)
qed

text \<open>The server finds the host, port and resource the client connected to.\<close>

lemma server_uri:
  assumes "same_head q (client_request le rng k u ps)" "58 \<notin> set (m_host u)" "93 \<notin> set (m_host u)" "m_port u \<noteq> 0"
    "m_resource u \<noteq> []"
  shows "hybi13_get_uri (m_secure u) q =
    HRet (u\<lparr>m_scheme := (if m_secure u then str ''wss'' else str ''ws''), m_valid := True\<rparr>)"
proof -
  let ?scheme = "if m_secure u then str ''wss'' else str ''ws''"
  have host: "get_header q (str ''Host'') = get_host_port u"
    using same_head_header [OF assms(1)] client_request_headers by simp
  have res: "m_uri q = m_resource u" using assms(1) by (simp add: same_head_def client_request_fields)
  have secure: "scheme_secure ?scheme = m_secure u" by (auto simp: scheme_secure_def scheme_bytes)
  show ?thesis
  proof (cases "m_port u = uri_default (m_secure u)")
    case True
    with host have "get_header q (str ''Host'') = m_host u" by (simp add: get_host_port_def)
    then have "get_uri_from_host q ?scheme = HRet (uri_scheme_default ?scheme (m_host u) (m_resource u))"
      using assms(2) res by (simp add: get_uri_from_host_def rfind_none)
    with True assms(5) secure show ?thesis
      by (cases u) (simp add: hybi13_get_uri_def uri_scheme_default_def uri_resource_def)
  next
    case False
    with host have "get_header q (str ''Host'') = m_host u @ 58 # str (udec (unat (m_port u)))"
      by (simp add: get_host_port_def print_port_def)
    from host_with_port [OF this assms(3)]
    have "get_uri_from_host q ?scheme = uri_scheme_string ?scheme (m_host u) (print_port (m_port u)) (m_resource u)"
      by (simp add: print_port_def res)
    with assms(4,5) secure show ?thesis
      by (cases u) (simp add: hybi13_get_uri_def uri_scheme_string_def get_port_printed has_error_def uri_resource_def)
  qed
qed

text \<open>A port that no \<open>int\<close> holds, which any client can send, leaves the behaviour undefined.\<close>

lemma huge_port_undefined:
  assumes "get_header r (str ''Host'') = h @ 58 # str (udec n)" "93 \<notin> set h" "2 ^ 31 \<le> n"
  shows "hybi13_get_uri secure r = HUndefined"
proof -
  have "atoi (str (udec n)) = HUndefined"
    using assms(3) by (simp add: atoi_def signed_value_udec in_int_range_def)
  then show ?thesis
    by (simp add: hybi13_get_uri_def host_with_port [OF assms(1,2)] uri_scheme_string_def get_port_from_string_def)
qed

end
