(* ===== verification/Spec2Isabelle.thy ===== *)
theory Spec2Isabelle
  imports R2CPRuntimeBroker Ws_Connection_Closing Ws_Handshake
begin

text \<open>
  R2CP, a server for the Remote Robot Control Protocol: an operator connects over WebSockets and
  sends packets of commands, robot modules react to them. This library models the program under
  \<open>src/\<close> and states what is correct in it and what is not.

  Parts and theories, in the order of a packet's way through the program:

  \<^item> \<open>R2CP_Prelude\<close>: machine integers, outcomes of a C++ call (returned, thrown, undefined
    behaviour), programs over a state, vectors, decimal printing; the locales \<open>codec\<close> (an encoder
    whose outputs are decoded back) and \<open>invariant\<close> (an invariant of a step relation).
  \<^item> \<open>Logger\<close> (\<open>Logger/\<close>): severities, \<open>convertformattostring\<close> with its buffer, the logger object.
    The other components record the calls they make to it.
  \<^item> \<open>Base64\<close> (\<open>Base64/Base64.cpp\<close>): the encoder and decoder between packets and messages,
    equal to a recursion on groups of three bytes; an interpretation of \<open>codec\<close>.
  \<^item> \<open>R2CPTransceiverQueue\<close>: the two queues between the threads; their operations, the locale
    \<open>packet_queue\<close> both interpret, and the interleavings of the sections under the mutex.
  \<^item> \<open>R2CPCommandDictionary\<close>, \<open>R2CPCommand\<close>: codes, content types, commands and parameters.
  \<^item> \<open>R2CPParser\<close>: validation and parsing with the stack of offsets, 32-bit arithmetic, and
    every logging call and exception. Validation is shown to be total.
  \<^item> \<open>R2CPWireFormat\<close>: the packet format as a specification; the parser returns what a packet of
    the format encodes and returns nothing ill-formed. An interpretation of \<open>codec\<close>.
  \<^item> \<open>R2CPSerializer\<close>: sizes and serialisation; the sizes are those of the format, but the
    serialisation itself always throws.
  \<^item> \<open>R2CPPacketProcessor\<close>: the registry of robot modules (parameters of the model: what their
    virtual functions do is the user's) and the round that handles one packet.
  \<^item> \<open>R2CPWebSocketServer\<close>: the handlers of the server and its two threads, over the connections
    of the WebSocket library; reachable states and their invariant.
  \<^item> \<open>R2CPRuntimeBroker\<close>: server and processor on one queue, the input loop, halting.
  The library WebSocket++ under \<open>src/WebSocketPP\<close>, which the server is built on:

  \<^item> \<open>Ws_Utf8\<close> (\<open>utf8_validator.hpp\<close>): the automaton and the validator, shown to accept exactly the
    encodings of RFC 3629.
  \<^item> \<open>Ws_Frame\<close> (\<open>frame.hpp\<close>, \<open>common/network.hpp\<close>): headers, their accessors and the masking
    routines, by bytes and by words of eight bytes, on machines of either byte order.
  \<^item> \<open>Ws_Error\<close>, \<open>Ws_Close\<close>, \<open>Ws_Message\<close>: error codes, close codes and their payloads, messages.
  \<^item> \<open>Ws_Sha1\<close>, \<open>Ws_Base64\<close>: the digest of the handshake, equal to FIPS 180-4 on messages below
    \<open>2 ^ 29\<close> bytes, and the second copy of the Base64 code.
  \<^item> \<open>Ws_Hybi13\<close> (\<open>processors/hybi13.hpp\<close>): reading and writing of frames. The loop of \<open>consume\<close>
    is a function with a termination proof; no input makes its behaviour undefined, and what
    one endpoint writes the other delivers.
  \<^item> \<open>Ws_Stream\<close>, \<open>Ws_Stream_Errors\<close>: \<open>consume\<close> over a sequence of reads. How the bytes are cut
    into reads changes neither the messages delivered nor the protocol error met.
  \<^item> \<open>Ws_Connection\<close> (\<open>connection.hpp\<close>, \<open>impl/connection_impl.hpp\<close>): the connection once its opening
    handshake is over: sending, the write queue and its completions, reading, control frames, the
    closing handshake, timers, termination. \<open>Ws_Connection_States\<close>: the calls of the user and of
    the transport as a step relation, an interpretation of \<open>invariant\<close>, and the induction over the
    read loop. \<open>Ws_Connection_Runs\<close>: the transport's steps alone; after at most
    \<open>3 * queued + 2 * writing + posted\<close> of them everything queued is written.
    \<open>Ws_Connection_Stream\<close>: what one connection queues, the other's message handler receives, in
    order, for every cut into reads. \<open>Ws_Connection_Closing\<close>: protocol errors are answered with a
    close frame, both sides agree on the code, and the race of a send with a close.
  \<^item> \<open>Ws_Http_Constants\<close>, \<open>Ws_Http_Parser\<close>, \<open>Ws_Http_Message\<close> (\<open>http/\<close>): tokens, status codes,
    attribute lists, headers and bodies. The map of headers is a sorted list, an interpretation of
    the locale \<open>dictionary\<close>.
  \<^item> \<open>Ws_Http_Reader\<close>: the contract of a reader of headers, as the locales \<open>header_reader\<close> and
    \<open>safe_header_reader\<close>; \<open>Ws_Http_Request\<close> and \<open>Ws_Http_Response\<close> interpret both. Reading is
    independent of the cut into reads as long as the limit has three bytes for each read, has
    defined behaviour for all bytes, and gives back what was printed.
  \<^item> \<open>Ws_Uri\<close> (\<open>uri.hpp\<close>): construction and printing of URIs.
  \<^item> \<open>Ws_Handshake\<close> (\<open>processors/processor.hpp\<close>, \<open>hybi13.hpp\<close>): the opening handshake; a client's
    request and a server's answer are accepted by the other side.
  A program is a function \<open>'s \<Rightarrow> 'a outcome \<times> 's\<close>: it returns the state also when it throws. A call
  whose behaviour C++ leaves undefined has the outcome \<open>Undefined\<close>. Loops that count up to a
  32-bit bound are functions with a termination proof; the loop on standard input is a
  \<open>partial_function\<close>, so that not returning is the value \<open>None\<close>. The loops of the threads are
  unrolled as often as they find \<open>isrunning\<close> set, and the threads of the broker take turns by
  whole rounds; the finer interleavings of the queue's sections are in \<open>queue_step\<close>.

  The handlers of a connection are parameters of the model; they return and throw nothing. Timers
  and the transport are steps that may come whenever the code has asked for them.

  Not modelled: ASIO and the transports (input and output of sockets), the clock and the file
  system behind the logger, the source of random numbers, allocation failure, and data races on
  plain members (\<open>isrunning\<close>, \<open>hasconnection\<close>), which C++ leaves undefined. Of the WebSocket
  library: the endpoints, the draft protocols and the compression extension, neither of which the
  server's configuration uses.
\<close>

section \<open>The packet layer\<close>

text \<open>
  C2: the parser accepts every packet that encodes well-formed commands under one of the two
  magic numbers and returns exactly those commands.
\<close>

theorem parse_wire_roundtrip:
  assumes "wire_encodable m cs"
  shows "parser2cppacket (wire_packet m cs) s = (Ret cs, s\<lparr>parsingoffsetstack := []\<rparr>)"
  using assms by (simp add: wire_encodable_def parser2cppacket_wire)

definition sample_commands :: "r2cpcommand list" where
  "sample_commands = [R2CPCommand_init MOTORPWMENABLE [],
     R2CPCommand_init MOTORDUTYCYCLE [R2CPParameter_init MOTORRIGHT [1, 2], R2CPParameter_init MOTORLEFT []],
     R2CPCommand_init PRINTMESSAGE [R2CPParameter_init NOPARAMETERS [104, 105]]]"

lemma sample_encodable: "wire_encodable R2CPMAGICNUMBER sample_commands"
proof -
  have "length (wire_packet R2CPMAGICNUMBER sample_commands) = 60" by code_simp
  moreover have "list_all wf_command sample_commands" by code_simp
  ultimately show ?thesis by (simp add: wire_encodable_def is_magic_def list_all_iff)
qed

theorem parse_wire_roundtrip_witness:
  "fst (parser2cppacket (wire_packet R2CPMAGICNUMBER sample_commands) R2CPParser_init) = Ret sample_commands"
  using parse_wire_roundtrip [OF sample_encodable, of R2CPParser_init] by simp



text \<open>
  C14: whatever packet the parser returns commands for, they are well-formed: valid codes, a
  direct content as one parameter, only parameters the dictionary accepts.
\<close>

theorem parsed_commands_wf:
  assumes "parser2cppacket p s = (Ret cs, t)"
  shows "list_all wf_command cs \<and> parsingoffsetstack t = []"
  using parser2cppacket_wf [OF assms] by (simp add: list_all_iff)

theorem parsed_commands_wf_witness: "list_all wf_command sample_commands"
proof -
  have "parser2cppacket (wire_packet R2CPMAGICNUMBER sample_commands) R2CPParser_init =
      (Ret sample_commands, R2CPParser_init\<lparr>parsingoffsetstack := []\<rparr>)"
    using sample_encodable by (simp add: wire_encodable_def parser2cppacket_wire)
  from parsed_commands_wf [OF this] show ?thesis ..
qed



definition empty_packet :: bytes where
  "empty_packet = be32 1379025744 @ be32 0"


text \<open>
  The message logged for a command with an undefined parameter fits its buffer exactly
  when the code of the parameter has at most five digits.
\<close>

lemma faulty_command_log_overflow:
  assumes "uint commandcode < 10"
  shows "fst (log_faulty_command (undefined_parameter_what parametercode commandcode) commandcode s) =
    (if uint parametercode < 100000 then Ret () else Undefined)"
  using assms by (rule log_faulty_command_outcome)

theorem faulty_command_log_overflow_witness:
  "fst (log_faulty_command (undefined_parameter_what 100000 4) 4 R2CPParser_init) = Undefined"
  using faulty_command_log_overflow [of 4 100000 R2CPParser_init] by simp



text \<open>
  C9: the parameters a command accepts: the image parameters are accepted by the motor command
  and \<open>IMAGEHEIGHT\<close> by no command at all.
\<close>

theorem accepted_parameters:
  "getcommandparameters rcd MOTORDUTYCYCLE = getcommandparameters rcd IMAGESEND \<and>
   IMAGEDATA \<in> getcommandparameters rcd MOTORDUTYCYCLE \<and>
   IMAGEHEIGHT \<notin> getcommandparameters rcd commandcode"
  by (simp add: parameters_eq MOTORDUTYCYCLE_def IMAGESEND_def IMAGEDATA_def IMAGEHEIGHT_def)

section \<open>Serialising\<close>

text \<open>
  C10: whatever the commands, serialising them throws \<open>std::out_of_range\<close> at the first write
  into the empty packet.
\<close>

theorem serializecommands_throws:
  "fst (serializecommands cs s) = Throw no_more_bytes_to_write"
  by (simp add: serializecommands_throws_OutOfRange)

text \<open>
  C26: the size the serializer computes beforehand is the size of the wire format, for commands
  it can represent.
\<close>

theorem precomputed_size_is_wire_size:
  assumes "list_all serializable cs"
  shows "precomputer2cppacketsize cs = size32 (wire_commands cs)"
  using assms by (intro precomputer2cppacketsize_eq) (simp add: list_all_iff)

theorem precomputed_size_is_wire_size_witness:
  "precomputer2cppacketsize sample_commands = size32 (wire_commands sample_commands)"
proof (rule precomputed_size_is_wire_size)
  have "list_all wf_command sample_commands" by code_simp
  moreover have "getcommandcontenttype rcd MOTORPWMENABLE \<noteq> PARAMETERIZEDCONTENT" by code_simp
  ultimately show "list_all serializable sample_commands"
    by (simp add: sample_commands_def serializable_def R2CPCommand_init_def)
qed

text \<open>
  C25: the content serialised for a parameterised command is as many zero bytes as the content
  should have, followed by the parameters without their count.
\<close>

theorem serialized_content_shape:
  assumes "2 * parameters_size ps < 2 ^ 32"
  shows "serializeparameterizedcommandcontent ps s =
    (Ret (replicate (length (wire_parameters ps)) 0 @ drop 4 (wire_parameters ps)), s)"
  using serializeparameterizedcommandcontent_eq [OF assms]
  by (simp add: length_wire_parameters_size) (simp add: wire_parameters_def)

theorem serialized_content_shape_witness:
  "fst (serializeparameterizedcommandcontent [R2CPParameter_init MOTORLEFT [7]] R2CPSerializer_init) =
    Ret (replicate 13 0 @ [0, 0, 0, 2, 0, 0, 0, 1, 7])"
proof -
  let ?ps = "[R2CPParameter_init MOTORLEFT [7]]"
  have "length (wire_parameters ?ps) = 13" and "drop 4 (wire_parameters ?ps) = [0, 0, 0, 2, 0, 0, 0, 1, 7]"
    by code_simp+
  moreover have "2 * parameters_size ?ps < 2 ^ 32"
    by (simp add: parameters_size_def R2CPParameter_init_def)
  ultimately show ?thesis
    using serialized_content_shape [of ?ps R2CPSerializer_init] by (simp only: fst_conv)
qed

text \<open>The deep copies write into a vector without elements unless there is nothing to copy.\<close>

lemma deep_copies_undefined:
  assumes "length (cmd_params c) < 2 ^ 32"
    and "list_all (\<lambda>p. length (param_data p) < 2 ^ 32) (cmd_params c)"
  shows "getcommandparametersdeepcopy c = (if cmd_params c = [] then Ret [] else Undefined)"
  using assms by (intro getcommandparametersdeepcopy_cases) (simp_all add: list_all_iff)

theorem deep_copies_undefined_witness:
  "getcommandparametersdeepcopy (R2CPCommand_init PRINTMESSAGE [R2CPParameter_init NOPARAMETERS [1]]) = Undefined"
  using deep_copies_undefined [of "R2CPCommand_init PRINTMESSAGE [R2CPParameter_init NOPARAMETERS [1]]"]
  by (simp add: R2CPCommand_init_def R2CPParameter_init_def)

section \<open>The queues between the threads\<close>

text \<open>
  A push is accepted exactly when the bytes held and the packet's bytes fit the maximum;
  a refused push throws and changes nothing.
\<close>

lemma push_contract:
  assumes "receptionqueuesize s = word_of_nat (total_bytes (receptionqueue s))"
    and "total_bytes (receptionqueue s) + length p < 2 ^ 32"
  shows "if total_bytes (receptionqueue s) + length p \<le> unat (maxreceptionqueuesize s)
    then \<exists>t. pushtoreceptionqueue p s = (Ret (), t) \<and> receptionqueue t = receptionqueue s @ [p] \<and>
           receptionqueuesize t = word_of_nat (total_bytes (receptionqueue t))
    else pushtoreceptionqueue p s =
      (Throw (Exn OverflowError ''Out of memory in reception queue.''), s)"
  using reception.push_result [of s p] assms by (auto simp: reception.counted_def)

theorem push_contract_witness:
  "\<exists>t. pushtoreceptionqueue [1, 2] R2CPTransceiverQueue_init = (Ret (), t) \<and> receptionqueue t = [[1, 2]]"
  using push_contract [of R2CPTransceiverQueue_init "[1, 2]"]
  by (auto simp: R2CPTransceiverQueue_init_def DEFAULTMAXQUEUESIZE_def)

text \<open>
  Packets that fit together are all accepted, and as many pops return them in the order
  they were pushed and leave the queue empty.
\<close>

lemma queue_first_in_first_out:
  assumes "total_bytes ps \<le> unat DEFAULTMAXQUEUESIZE" and "length ps < 2 ^ 32"
  shows "\<exists>t. bindM (push_all pushtotransmissionqueue ps) (\<lambda>_. pop_n popfromtransmissionqueue (length ps))
      R2CPTransceiverQueue_init = (Ret ps, t) \<and> transmissionqueue t = []"
  using assms transmission.first_in_first_out [of R2CPTransceiverQueue_init ps]
  by (simp add: transmission.counted_def R2CPTransceiverQueue_init_def)

theorem queue_first_in_first_out_witness:
  "\<exists>t. bindM (push_all pushtotransmissionqueue [[1], [], [2, 3]]) (\<lambda>_. pop_n popfromtransmissionqueue 3)
      R2CPTransceiverQueue_init = (Ret [[1], [], [2, 3]], t) \<and> transmissionqueue t = []"
proof -
  have three: "length [[1], [], [2, 3 :: u8]] = 3" by simp
  have "total_bytes [[1], [], [2, 3]] \<le> unat DEFAULTMAXQUEUESIZE" by (simp add: DEFAULTMAXQUEUESIZE_def)
  then show ?thesis by (rule queue_first_in_first_out [of "[[1], [], [2, 3]]", unfolded three]) simp
qed

text \<open>
  C17: however many producers and consumers interleave the sections of their calls, packets
  leave the queue in the order they entered, none is lost or duplicated, and the byte count is
  that of the packets held.
\<close>

theorem queue_interleaving_order:
  assumes "reachable (\<lambda>c. c = start_config R2CPTransceiverQueue_init np nc) (reception_step offered) c"
  shows "popped c @ receptionqueue (shared c) = pushed c \<and>
    receptionqueuesize (shared c) = word_of_nat (total_bytes (receptionqueue (shared c)))"
proof -
  have "reachable reception.in_order (reception_step offered) c"
    using assms by (rule reachable_mono) (simp add: reception.start_in_order R2CPTransceiverQueue_init_def)
  then have "reception.in_order c"
    unfolding reception_step_def by (rule reception.order.reachable_inv)
  then show ?thesis by (simp add: reception.in_order_def reception.counted_def)
qed

definition one_pushed :: "transceiver_queue queue_config" where
  "one_pushed = (start_config R2CPTransceiverQueue_init 1 1)\<lparr>
     shared := snd (push_reception_section [7] R2CPTransceiverQueue_init), pushed := [[7]]\<rparr>"

lemma reachable_four:
  "step a b \<Longrightarrow> step b c \<Longrightarrow> step c d \<Longrightarrow> step d e \<Longrightarrow> reachable (\<lambda>x. x = a) step e"
proof -
  assume s: "step a b" "step b c" "step c d" "step d e"
  have "reachable (\<lambda>x. x = a) step a" by (rule reachable_init) simp
  from reachable_step [OF reachable_step [OF reachable_step [OF reachable_step [OF this s(1)] s(2)] s(3)] s(4)]
  show ?thesis .
qed

lemma replicate_two: "replicate 2 x = [x, x]"
  by (simp add: numeral_2_eq_2)

lemma reception_push_check:
  "i < length (producers c) \<Longrightarrow> producers c ! i = Producing \<Longrightarrow> p \<in> offered \<Longrightarrow>
   receptionqueuesize (shared c) + size32 p \<le> maxreceptionqueuesize (shared c) \<Longrightarrow>
   c' = c\<lparr>producers := (producers c)[i := Checked p]\<rparr> \<Longrightarrow> reception_step offered c c'"
  unfolding reception_step_def by (simp add: queue_step.push_check)

lemma reception_push_append:
  "i < length (producers c) \<Longrightarrow> producers c ! i = Checked p \<Longrightarrow>
   c' = c\<lparr>shared := snd (push_reception_section p (shared c)),
     producers := (producers c)[i := Producing], pushed := pushed c @ [p]\<rparr> \<Longrightarrow> reception_step offered c c'"
  unfolding reception_step_def
  by (simp add: queue_step.push_append push_reception_section_def modifyM_def)

lemma reception_pop_check:
  "i < length (consumers c) \<Longrightarrow> consumers c ! i = Consuming \<Longrightarrow> size32 (receptionqueue (shared c)) > 0 \<Longrightarrow>
   c' = c\<lparr>consumers := (consumers c)[i := Found]\<rparr> \<Longrightarrow> reception_step offered c c'"
  unfolding reception_step_def by (simp add: queue_step.pop_check)

lemma reception_pop_take:
  "i < length (consumers c) \<Longrightarrow> consumers c ! i = Found \<Longrightarrow> pop_reception_section (shared c) = (Ret p, s') \<Longrightarrow>
   c' = c\<lparr>shared := s', consumers := (consumers c)[i := Consuming], popped := popped c @ [p]\<rparr> \<Longrightarrow>
   reception_step offered c c'"
  unfolding reception_step_def by (simp add: queue_step.pop_take)

lemma reception_pop_crash:
  "i < length (consumers c) \<Longrightarrow> consumers c ! i = Found \<Longrightarrow> pop_reception_section (shared c) = (Throw e, s') \<Longrightarrow>
   c' = c\<lparr>shared := s', consumers := (consumers c)[i := Crashed e]\<rparr> \<Longrightarrow> reception_step offered c c'"
  unfolding reception_step_def by (simp add: queue_step.pop_crash)

lemma one_pushed_reachable:
  "reachable (\<lambda>c. c = start_config R2CPTransceiverQueue_init 1 1) (reception_step offers) one_pushed"
proof -
  let ?c0 = "start_config R2CPTransceiverQueue_init 1 1"
  let ?c1 = "?c0\<lparr>producers := [Checked [7]]\<rparr>"
  note defs = start_config_def R2CPTransceiverQueue_init_def offers_def size32_def DEFAULTMAXQUEUESIZE_def
    one_pushed_def push_reception_section_def modifyM_def
  have "reception_step offers ?c0 ?c1"
    by (rule reception_push_check [where i = 0 and p = "[7]"]) (simp_all add: defs)
  moreover have "reception_step offers ?c1 one_pushed"
    by (rule reception_push_append [where i = 0 and p = "[7]"]) (simp_all add: defs)
  ultimately show ?thesis by (blast intro: reachable.intros)
qed

theorem queue_interleaving_order_witness: "receptionqueue (shared one_pushed) = [[7]]"
proof -
  have "popped one_pushed = []" "pushed one_pushed = [[7]]"
    by (simp_all add: one_pushed_def start_config_def)
  with queue_interleaving_order [OF one_pushed_reachable] show ?thesis by simp
qed

text \<open>
  C18: with one producer and one consumer the queue never holds more bytes than its maximum
  and the consumer is never left without a packet it was promised.
\<close>

theorem queue_single_pair_bounded:
  assumes "reachable (\<lambda>c. c = start_config R2CPTransceiverQueue_init 1 1) (reception_step offers) c"
  shows "total_bytes (receptionqueue (shared c)) \<le> 16777216 \<and>
    (\<forall>e. consumers c \<noteq> [Crashed e]) \<and> (consumers c = [Found] \<longrightarrow> receptionqueue (shared c) \<noteq> [])"
proof -
  have "reception.one_to_one DEFAULTMAXQUEUESIZE (start_config R2CPTransceiverQueue_init 1 1)"
    using reception.start_one_to_one [of R2CPTransceiverQueue_init]
    by (simp add: R2CPTransceiverQueue_init_def)
  then have "reachable (reception.one_to_one DEFAULTMAXQUEUESIZE) (reception_step offers) c"
    using reachable_mono [OF assms, of "reception.one_to_one DEFAULTMAXQUEUESIZE"] by blast
  then have "reception.one_to_one DEFAULTMAXQUEUESIZE c"
    unfolding reception_step_def by (rule reception_pair.pair.reachable_inv)
  then show ?thesis by (auto simp: reception.one_to_one_def DEFAULTMAXQUEUESIZE_def)
qed

theorem queue_single_pair_bounded_witness: "total_bytes (receptionqueue (shared one_pushed)) \<le> 16777216"
  using queue_single_pair_bounded [OF one_pushed_reachable] by simp

definition small_queue :: transceiver_queue where
  "small_queue = snd (setmaxqueuesize 4 4 R2CPTransceiverQueue_init)"

text \<open>
  The size is checked before the mutex is taken for the push, so two producers together
  exceed the maximum.
\<close>

lemma two_producers_exceed_maximum:
  "\<exists>c. reachable (\<lambda>c. c = start_config small_queue 2 1) (reception_step {[1, 2, 3]}) c \<and>
    maxreceptionqueuesize (shared c) = 4 \<and> receptionqueuesize (shared c) = 6"
proof -
  let ?step = "reception_step {[1, 2, 3]}"
  let ?c0 = "start_config small_queue 2 1"
  let ?c1 = "?c0\<lparr>producers := [Checked [1, 2, 3], Producing]\<rparr>"
  let ?c2 = "?c0\<lparr>producers := [Checked [1, 2, 3], Checked [1, 2, 3]]\<rparr>"
  let ?s3 = "snd (push_reception_section [1, 2, 3] small_queue)"
  let ?c3 = "?c0\<lparr>shared := ?s3, producers := [Producing, Checked [1, 2, 3]], pushed := [[1, 2, 3]]\<rparr>"
  let ?s4 = "snd (push_reception_section [1, 2, 3] ?s3)"
  let ?c4 = "?c0\<lparr>shared := ?s4, producers := [Producing, Producing], pushed := [[1, 2, 3], [1, 2, 3]]\<rparr>"
  note defs = start_config_def small_queue_def setmaxqueuesize_def modifyM_def
    R2CPTransceiverQueue_init_def size32_def push_reception_section_def replicate_two
  have "?step ?c0 ?c1"
    by (rule reception_push_check [where i = 0 and p = "[1, 2, 3]"]) (simp_all add: defs)
  moreover have "?step ?c1 ?c2"
    by (rule reception_push_check [where i = 1 and p = "[1, 2, 3]"]) (simp_all add: defs)
  moreover have "?step ?c2 ?c3"
    by (rule reception_push_append [where i = 0 and p = "[1, 2, 3]"]) (simp_all add: defs)
  moreover have "?step ?c3 ?c4"
    by (rule reception_push_append [where i = 1 and p = "[1, 2, 3]"]) (simp_all add: defs)
  ultimately have r: "reachable (\<lambda>c. c = ?c0) ?step ?c4" by (rule reachable_four)
  have "maxreceptionqueuesize (shared ?c4) = 4 \<and> receptionqueuesize (shared ?c4) = 6"
    by (simp add: defs)
  then have "reachable (\<lambda>c. c = ?c0) ?step ?c4 \<and> maxreceptionqueuesize (shared ?c4) = 4 \<and> receptionqueuesize (shared ?c4) = 6" using r by (rule conjI [rotated])
  then show ?thesis by (rule exI [where x = ?c4])
qed

text \<open>
  Likewise two consumers that both find the last packet: the second one throws out of the
  range of the vector.
\<close>

lemma two_consumers_crash:
  "\<exists>c. reachable (\<lambda>c. c = start_config (snd (push_reception_section [7] R2CPTransceiverQueue_init)) 1 2)
      (reception_step offers) c \<and>
    consumers c ! 1 = Crashed (Exn OutOfRange (range_check_what 0 0))"
proof -
  let ?step = "reception_step offers"
  let ?s = "snd (push_reception_section [7] R2CPTransceiverQueue_init)"
  let ?c0 = "start_config ?s 1 2"
  let ?c1 = "?c0\<lparr>consumers := [Found, Consuming]\<rparr>"
  let ?c2 = "?c0\<lparr>consumers := [Found, Found]\<rparr>"
  let ?s3 = "snd (pop_reception_section ?s)"
  let ?c3 = "?c0\<lparr>shared := ?s3, consumers := [Consuming, Found], popped := [[7]]\<rparr>"
  let ?e = "Exn OutOfRange (range_check_what 0 0)"
  let ?c4 = "?c3\<lparr>consumers := [Consuming, Crashed ?e]\<rparr>"
  note defs = start_config_def modifyM_def R2CPTransceiverQueue_init_def size32_def
    push_reception_section_def pop_reception_section_def replicate_two vec_at_def getM_def bindM_def
    liftO_def ret_def
  have "?step ?c0 ?c1"
    by (rule reception_pop_check [where i = 0]) (simp_all add: defs)
  moreover have "?step ?c1 ?c2"
    by (rule reception_pop_check [where i = 1]) (simp_all add: defs)
  moreover have "?step ?c2 ?c3"
    by (rule reception_pop_take [where i = 0 and p = "[7]" and s' = ?s3]) (simp_all add: defs)
  moreover have "?step ?c3 ?c4"
    by (rule reception_pop_crash [where i = 1 and e = ?e and s' = ?s3]) (simp_all add: defs)
  ultimately have r: "reachable (\<lambda>c. c = ?c0) ?step ?c4" by (rule reachable_four)
  have "consumers ?c4 ! 1 = Crashed ?e" by simp
  then have "reachable (\<lambda>c. c = ?c0) ?step ?c4 \<and> consumers ?c4 ! 1 = Crashed ?e" using r by (rule conjI [rotated])
  then show ?thesis by (rule exI [where x = ?c4])
qed

text \<open>
  Empty packets cost nothing, so a queue of any length that respects its maximum accepts
  one more of them.
\<close>

lemma empty_packet_never_refused:
  assumes "receptionqueuesize s \<le> maxreceptionqueuesize s"
  shows "fst (pushtoreceptionqueue [] s) = Ret () \<and>
    receptionqueue (snd (pushtoreceptionqueue [] s)) = receptionqueue s @ [[]]"
  using assms
  by (simp add: reception.push_eq push_reception_section_def modifyM_def)

theorem empty_packet_never_refused_witness:
  "receptionqueue (snd (pushtoreceptionqueue [] R2CPTransceiverQueue_init)) = [[]]"
  using empty_packet_never_refused [of R2CPTransceiverQueue_init]
  by (simp add: R2CPTransceiverQueue_init_def)

section \<open>The packet processor\<close>


text \<open>Modules that record the codes they are handed, and answer nothing or one command.\<close>

definition recording_modules :: "r2cpcommand list \<Rightarrow> u32 list robot_modules" where
  "recording_modules answer = \<lparr>evaluatereactive = (\<lambda>m c w. (Ret answer, w @ [getcommandcode c])),
     evaluateactive = (\<lambda>m w. (Ret [], w))\<rparr>"


definition busy_processor :: "bytes \<Rightarrow> u32 list processor" where
  "busy_processor p = (snd (bindM (registerrobotmodule_code MOTORPWMENABLE 7)
       (\<lambda>_. registerrobotmodule_code PRINTMESSAGE 3) (R2CPPacketProcessor_init R2CPTransceiverQueue_init [])))
     \<lparr>transceiverqueue := snd (pushtoreceptionqueue p R2CPTransceiverQueue_init)\<rparr>"

lemma busy_processor_simps:
  "length p < 1000 \<Longrightarrow> receptionqueue (transceiverqueue (busy_processor p)) = [p]"
  "robotmodulesmap (busy_processor p) = [(MOTORPWMENABLE, 7), (PRINTMESSAGE, 3)]"
  "robotmodulesset (busy_processor p) = [3, 7]" "modulestate (busy_processor p) = []"
proof -
  assume "length p < 1000"
  then have "unat (size32 p) < 1000" by (simp add: unat_size32)
  then have "size32 p \<le> DEFAULTMAXQUEUESIZE" by (simp add: word_le_nat_alt DEFAULTMAXQUEUESIZE_def)
  then show "receptionqueue (transceiverqueue (busy_processor p)) = [p]"
    by (simp add: busy_processor_def reception.push_eq R2CPTransceiverQueue_init_def push_reception_section_def
        modifyM_def)
qed (simp_all add: busy_processor_def registerrobotmodule_code_eq bindM_def R2CPPacketProcessor_init_def
    R2CPPacketProcessor_init_timeout_def MOTORPWMENABLE_def PRINTMESSAGE_def)


text \<open>A packet that does not validate is dropped: the round returns, no module is called.\<close>

lemma invalid_packet_dropped:
  assumes "receptionqueue (transceiverqueue s) = p # rest" and "length rest + 1 < 2 ^ 32"
    and "validater2cppacket p R2CPParser_init = (Ret False, parser)"
  shows "\<exists>t. executetask mods s = (Ret (), t) \<and> receptionqueue (transceiverqueue t) = rest \<and>
    modulestate t = modulestate s"
  using executetask_invalid [OF assms] by blast

theorem invalid_packet_dropped_witness:
  "\<exists>t. executetask (recording_modules []) (busy_processor [1, 2, 3]) = (Ret (), t) \<and>
    receptionqueue (transceiverqueue t) = [] \<and> modulestate t = []"
proof -
  have "fst (validater2cppacket [1, 2, 3] R2CPParser_init) = Ret False" by code_simp
  then obtain parser where "validater2cppacket [1, 2, 3] R2CPParser_init = (Ret False, parser)"
    by (metis prod.collapse)
  from invalid_packet_dropped [OF busy_processor_simps(1) _ this] show ?thesis
    by (simp add: busy_processor_simps)
qed

text \<open>
  C23: a packet on which the parser throws \<open>std::out_of_range\<close> ends the processing thread: the
  exception leaves \<open>executetask\<close>.
\<close>

theorem parser_exception_escapes:
  assumes "receptionqueue (transceiverqueue s) = p # rest" and "length rest + 1 < 2 ^ 32"
    and "parser2cppacket p R2CPParser_init = (Throw e, parser)" and "exn_kind e = OutOfRange"
  shows "fst (executetask mods s) = Throw e"
  using executetask_parser_throws [OF assms, of mods] by auto

theorem parser_exception_escapes_witness:
  "fst (executetask (recording_modules []) (busy_processor empty_packet)) = Throw no_more_bytes_to_read"
proof -
  have "fst (parser2cppacket empty_packet R2CPParser_init) = Throw no_more_bytes_to_read" by code_simp
  then obtain parser where p: "parser2cppacket empty_packet R2CPParser_init = (Throw no_more_bytes_to_read, parser)"
    by (metis prod.collapse)
  have q: "receptionqueue (transceiverqueue (busy_processor empty_packet)) = [empty_packet]"
    by (rule busy_processor_simps) (simp add: empty_packet_def)
  show ?thesis
    by (rule parser_exception_escapes [OF q _ p]) (simp_all add: no_more_bytes_to_read_def)
qed

text \<open>
  Registering, unregistering by module and unregistering everything keep the registry:
  every module that reacts to a code is in the set, both containers ordered without duplicates.
\<close>

lemma registry_preserved:
  assumes "registry_ok s"
  shows "registry_ok (snd (registerrobotmodule_code c m s)) \<and> registry_ok (snd (registerrobotmodule m s)) \<and>
    registry_ok (snd (unregisterrobotmodule m s)) \<and> registry_ok (snd (unregisterallrobotmodules s))"
  using assms by (simp add: registry_ok_register_code registry_ok_register registry_ok_unregister
      registry_ok_unregister_all)

theorem registry_preserved_witness:
  "registry_ok (snd (registerrobotmodule_code 4 2 (R2CPPacketProcessor_init R2CPTransceiverQueue_init ())))"
  using registry_preserved [of "R2CPPacketProcessor_init R2CPTransceiverQueue_init ()" 4 2]
  by (simp add: registry_ok_def R2CPPacketProcessor_init_def R2CPPacketProcessor_init_timeout_def)

text \<open>
  Unregistering a module by one of its codes keeps it exactly when no other code maps to
  the module; otherwise the module goes on reacting but is no longer asked for active commands.
\<close>

lemma unregister_code_registry:
  assumes "registry_ok s" and "map_of (robotmodulesmap s) c = Some m"
  shows "registry_ok (snd (unregisterrobotmodule_code c s)) \<longleftrightarrow>
    list_all (\<lambda>(c', m'). m' = m \<longrightarrow> c' = c) (robotmodulesmap s)"
  using registry_ok_unregister_code [OF assms] by (auto simp: list_all_iff)

definition two_code_processor :: "unit processor" where
  "two_code_processor = (R2CPPacketProcessor_init R2CPTransceiverQueue_init ())
     \<lparr>robotmodulesmap := [(1, 5), (2, 5)], robotmodulesset := [5]\<rparr>"

theorem unregister_code_registry_witness:
  "\<not> registry_ok (snd (unregisterrobotmodule_code 1 two_code_processor))"
  using unregister_code_registry [of two_code_processor 1 5]
  by (simp add: two_code_processor_def registry_ok_def)

text \<open>
  Unregistering a module by its address is defined exactly when no code maps to it: the
  loop goes on with the iterator of the entry it erased.
\<close>

lemma unregister_module_defined_iff:
  "fst (unregisterrobotmodule m s) = (if m \<in> snd ` set (robotmodulesmap s) then Undefined else Ret ())"
  by (simp add: unregisterrobotmodule_eq)

section \<open>The server and the broker\<close>

text \<open>
  C23: in every state the server reaches, the operator it believes to have is a living
  connection, and no event of the library makes a handler throw.
\<close>

theorem server_operator_alive:
  assumes "reachable server_start server_step s"
  shows "(hasconnection s \<longrightarrow> (\<exists>h. operatorconnectionhandle s = Some h \<and> h \<in> fst ` set (connections s))) \<and>
    (h \<notin> fst ` set (connections s) \<longrightarrow> fst (handle_event (Opened h) s) = Ret ()) \<and>
    fst (handle_event (Message h payload) s) = Ret () \<and> fst (handle_event (Closed h) s) = Ret ()"
proof -
  have a: "operator_alive s" using assms by (rule server.reachable_inv)
  then show ?thesis
    using opened_result [OF a, of h] message_result [OF a, of h payload] closed_result [OF a, of h]
    unfolding operator_alive_def by (auto simp del: handle_event.simps)
qed

lemma fresh_server: "reachable server_start server_step (R2CPWebSocketServer_init R2CPTransceiverQueue_init)"
  by (rule reachable_init) (auto simp: server_start_def R2CPWebSocketServer_init_def)

theorem server_operator_alive_witness:
  "fst (handle_event (Opened 1) (R2CPWebSocketServer_init R2CPTransceiverQueue_init)) = Ret ()"
  using server_operator_alive [OF fresh_server, of 1]
  by (simp add: R2CPWebSocketServer_init_def R2CPWebSocketServer_init_timeout_def)



text \<open>
  A round of the transmission thread takes the next packet; with an open operator it sends
  the packet in Base64, without an operator the packet is lost, and with an operator whose
  connection is closing the library's exception leaves the thread.
\<close>

lemma transmit_round:
  assumes "transmissionqueue (serverqueue s) = p # ps" and "length ps + 1 < 2 ^ 32"
    and "operatorconnectionhandle s = Some h" and "map_of (connections s) h = Some st"
  shows "\<exists>t. transmit_once s =
      (if hasconnection s \<and> st = Closing then Throw invalid_state else Ret (), t) \<and>
    transmissionqueue (serverqueue t) = ps \<and>
    sent t = (if hasconnection s \<and> st = Open then sent s @ [(h, base64_encode p)] else sent s)"
  using transmit_once_result [OF assms(1,2)] assms(3,4) by (cases st) auto

definition serving :: server_state where
  "serving = (snd (handle_event (Opened 1) (R2CPWebSocketServer_init R2CPTransceiverQueue_init)))
     \<lparr>serverqueue := snd (pushtotransmissionqueue [1, 2] R2CPTransceiverQueue_init)\<rparr>"

theorem transmit_round_witness: "sent (snd (transmit_once serving)) = [(1, base64_encode [1, 2])]"
proof -
  have s: "transmissionqueue (serverqueue serving) = [[1, 2]]" "operatorconnectionhandle serving = Some 1"
    "map_of (connections serving) 1 = Some Open" "hasconnection serving" "sent serving = []"
    by (simp_all add: serving_def R2CPWebSocketServer_init_def R2CPWebSocketServer_init_timeout_def modifyM_def
        bindM_def onopen_eq transmission.push_eq R2CPTransceiverQueue_init_def size32_def DEFAULTMAXQUEUESIZE_def
        push_transmission_section_def)
  from transmit_round [OF s(1) _ s(2,3)] s(4,5) show ?thesis by auto
qed



text \<open>
  Halting a broker that runs ends with the library's exception when the endpoint was never
  set up or the operator's connection is closing, and it is undefined for a broker that was
  constructed and never run.
\<close>

lemma broker_halting:
  assumes "packetprocessorthread (packetprocessor b) = Thread"
    and "transmissionthread (robotserver b) = Thread" and "receptionthread (robotserver b) = Thread"
    and "operatorconnectionhandle (robotserver b) = Some h" and "map_of (connections (robotserver b)) h = Some st"
  shows "fst (broker_halt b) =
      (if \<not> listening (robotserver b) \<or> hasconnection (robotserver b) \<and> st = Closing
       then Throw invalid_state else Ret ()) \<and>
    fst (broker_halt (R2CPRuntimeBroker_init q w)) = Undefined"
  using broker_halt_result [OF assms(1-3)] broker_halt_unstarted [of q w] assms(4,5) by (cases st) auto

definition running_broker :: "unit broker" where
  "running_broker = (R2CPRuntimeBroker_init R2CPTransceiverQueue_init ())
     \<lparr>robotserver := snd (server_run (snd (handle_event (Opened 1) (R2CPWebSocketServer_init R2CPTransceiverQueue_init)))),
      packetprocessor := snd (processor_run (R2CPPacketProcessor_init R2CPTransceiverQueue_init ()))\<rparr>"

theorem broker_halting_witness: "fst (broker_halt running_broker) = Throw invalid_state"
proof -
  have b: "packetprocessorthread (packetprocessor running_broker) = Thread"
    "transmissionthread (robotserver running_broker) = Thread"
    "receptionthread (robotserver running_broker) = Thread"
    "operatorconnectionhandle (robotserver running_broker) = Some 1"
    "map_of (connections (robotserver running_broker)) 1 = Some Open"
    "\<not> listening (robotserver running_broker)"
    by (simp_all add: running_broker_def server_run_def processor_run_def modifyM_def R2CPWebSocketServer_init_def
      R2CPWebSocketServer_init_timeout_def bindM_def onopen_eq)
  show ?thesis
    using broker_halting [OF b(1-5), of R2CPTransceiverQueue_init "()"] b(6) by simp
qed

section \<open>Encodings and messages\<close>

text \<open>C24: what the server encodes, its decoder maps back.\<close>

theorem base64_roundtrip:
  assumes "4 * ((length bs + 2) div 3) < 2 ^ 31"
  shows "base64_decode (base64_encode bs) = bs"
  using assms by (rule base64_decode_encode)

theorem base64_roundtrip_witness: "base64_decode (base64_encode [0, 127, 128, 255]) = [0, 127, 128, 255]"
  by (rule base64_roundtrip) simp

text \<open>
  A message in Base64 puts exactly its packet at the end of the reception queue when it
  fits, whichever connection it came from.
\<close>

lemma message_queues_packet:
  assumes "4 * ((length p + 2) div 3) < 2 ^ 31" and "map_of (connections s) h = Some Open"
    and "receptionqueuesize (serverqueue s) + size32 p \<le> maxreceptionqueuesize (serverqueue s)"
  shows "receptionqueue (serverqueue (snd (handle_event (Message h (base64_encode p)) s))) =
    receptionqueue (serverqueue s) @ [p]"
  using onmessage_eq [of h "base64_encode p" s] assms base64_decode_encode [OF assms(1)]
  by (auto simp: bindM_def getM_def reception.push_eq push_reception_section_def modifyM_def)

theorem message_queues_packet_witness:
  "receptionqueue (serverqueue (snd (handle_event (Message 1 (base64_encode [9])) serving))) = [[9]]"
  using message_queues_packet [of "[9]" serving 1]
  by (simp add: serving_def R2CPWebSocketServer_init_def R2CPWebSocketServer_init_timeout_def modifyM_def
        bindM_def onopen_eq transmission.push_eq R2CPTransceiverQueue_init_def size32_def DEFAULTMAXQUEUESIZE_def
        push_transmission_section_def del: handle_event.simps(2))

text \<open>
  A message whose arguments are all integers never overruns the formatting buffer.
\<close>

lemma integer_messages_fit:
  assumes "list_all is_uint_arg args" and "2 * (length f + 4 * length args) < 2 ^ 32"
    and "f \<noteq> []" and "sprintf_text f args = Some t"
  shows "convertformattostring f args = Ret t"
  using assms by (rule convertformattostring_uint)

theorem integer_messages_fit_witness:
  "convertformattostring ''(%u)'' [FUint 4294967295] = Ret ''(4294967295)''"
  by (rule integer_messages_fit) (simp_all, code_simp)

section \<open>Frames of the WebSocket library\<close>

text \<open>
  C19: a text or binary message that one endpoint writes as a frame is delivered unchanged by
  the other endpoint, which takes exactly the bytes of the frame and is ready for the next one.
  The two machines may have different byte orders.
\<close>

theorem data_frame_delivered:
  assumes "m_opcode m \<in> {op_text, op_binary}" and "m_fin m" and "m_opcode m = op_text \<longrightarrow> utf8_validate (m_payload m)"
    and "length (m_payload m) < 2 ^ 63" and "length (m_payload m) \<le> unat (m_max_message_size s)"
    and "idle s" and "m_server s = (\<not> server)"
  shows "\<exists>out' t. prepare_data_frame le server rng (Some m) (Some out) = (NoError, Some out') \<and>
    consume le' (message_wire out') s = (Ret (length (message_wire out'), NoError), t) \<and>
    fst (get_message t) = Ret (Some (accepted_message (m_opcode m) (m_payload m))) \<and> idle (snd (get_message t))"
  using assms by (rule prepare_data_frame_consume)

theorem data_frame_delivered_witness:
  "\<exists>out' t. prepare_data_frame True False 0x37FA213D (Some ((message_init op_text)\<lparr>m_payload := [72, 105]\<rparr>))
      (Some (message_init op_text)) = (NoError, Some out') \<and>
    consume False (message_wire out') (hybi13_init True 1000) = (Ret (length (message_wire out'), NoError), t) \<and>
    fst (get_message t) = Ret (Some (accepted_message op_text [72, 105])) \<and> idle (snd (get_message t))"
proof -
  have "utf8_validate [72, 105]" by code_simp
  then show ?thesis
    using data_frame_delivered [of "(message_init op_text)\<lparr>m_payload := [72, 105]\<rparr>" "hybi13_init True 1000" False
      True "0x37FA213D" "message_init op_text" False]
    by (simp add: message_init_def hybi13_init_def idle_def msg_metadata_of_def reset_headers_def
      MAX_EXTENDED_HEADER_LENGTH_def BASIC_HEADER_LENGTH_def)
qed

text \<open>A ping, pong or close frame is delivered in the same way.\<close>

lemma control_frame_delivered:
  assumes "op \<in> {op_close, op_ping, op_pong}" and "length payload \<le> 125" and "idle s" and "m_server s = (\<not> server)"
  shows "\<exists>out' t. prepare_control le server rng op payload (Some out) = (NoError, Some out') \<and>
    consume le' (message_wire out') s = (Ret (length (message_wire out'), NoError), t) \<and>
    fst (get_message t) = Ret (Some (accepted_message op payload)) \<and> idle (snd (get_message t))"
  using assms by (rule prepare_control_consume)

theorem control_frame_delivered_witness:
  "\<exists>out' t. prepare_control True True 0 op_ping [1, 2, 3] (Some (message_init op_ping)) = (NoError, Some out') \<and>
    consume True (message_wire out') (hybi13_init False 1000) = (Ret (length (message_wire out'), NoError), t) \<and>
    fst (get_message t) = Ret (Some (accepted_message op_ping [1, 2, 3])) \<and> idle (snd (get_message t))"
  by (rule control_frame_delivered)
    (simp_all add: hybi13_init_def idle_def msg_metadata_of_def reset_headers_def
      MAX_EXTENDED_HEADER_LENGTH_def BASIC_HEADER_LENGTH_def)

text \<open>
  C20: whatever bytes arrive, reading them has defined behaviour and takes at most what there
  is; unless an error is reported, the processor stays well-formed.
\<close>

theorem consume_well_formed:
  assumes "hybi13_inv s"
  shows "\<exists>n ec t. consume le buf s = (Ret (n, ec), t) \<and> n \<le> length buf \<and> (\<not> has_error ec \<longrightarrow> hybi13_inv t)"
  using assms by (rule consume_ok)

theorem consume_well_formed_witness:
  "\<exists>n ec t. consume True [0x82, 0x7E, 0xFF] (hybi13_init True 5) = (Ret (n, ec), t) \<and> n \<le> 3 \<and>
    (\<not> has_error ec \<longrightarrow> hybi13_inv t)"
  using consume_well_formed [OF hybi13_inv_init, of True "[0x82, 0x7E, 0xFF]" True 5]
  by (simp add: numeral_3_eq_3)

text \<open>
  C21: the validator accepts exactly the byte sequences that encode a sequence of Unicode scalar
  values, as RFC 3629 defines it.
\<close>

theorem utf8_validate_exact:
  "utf8_validate s \<longleftrightarrow> (\<exists>cs. list_all unicode_scalar cs \<and> s = utf8_encode cs)"
  by (rule utf8_validate_iff)

text \<open>
  C44: the digest of a message below \<open>2 ^ 29\<close> bytes is that of FIPS 180-4, whatever the work
  array held before.
\<close>

theorem sha1_is_fips:
  assumes "length w = 80" and "length m < 2 ^ 29"
  shows "sha1_calc w m = fips_sha1 m"
  using assms by (rule sha1_calc_eq)

theorem sha1_is_fips_witness:
  "sha1_calc (replicate 80 7) [97, 98, 99] = fips_sha1 [97, 98, 99]"
  by (rule sha1_is_fips) simp_all

text \<open>C33: masking by words of eight bytes is masking byte by byte.\<close>

theorem word_mask_exact_is_byte_mask:
  assumes "length key = 4" and "len \<le> length input"
  shows "word_mask_exact le key len input = byte_mask key 0 (take len input)"
  using assms by (rule word_mask_exact_eq)

theorem word_mask_exact_is_byte_mask_witness:
  "word_mask_exact True [1, 2, 3, 4] 9 (replicate 10 0) = byte_mask [1, 2, 3, 4] 0 (replicate 9 0)"
  using word_mask_exact_is_byte_mask [of "[1, 2, 3, 4]" 9 "replicate 10 0" True] by simp

text \<open>
  A payload unmasked in two pieces, the key rotated in between, is the payload unmasked in
  one piece.
\<close>

lemma word_mask_circ_streams:
  assumes "word_mask_circ le pk (length xs) xs = (out1, pk1)"
    and "word_mask_circ le pk1 (length ys) ys = (out2, pk2)"
  shows "word_mask_circ le pk (length (xs @ ys)) (xs @ ys) = (out1 @ out2, pk2)"
  using assms by (rule word_mask_circ_append)

theorem word_mask_circ_streams_witness:
  "\<exists>out1 pk1 out2 pk2. word_mask_circ True 0x0102030401020304 1 [1] = (out1, pk1) \<and>
    word_mask_circ True pk1 2 [2, 3] = (out2, pk2) \<and>
    word_mask_circ True 0x0102030401020304 3 [1, 2, 3] = (out1 @ out2, pk2)"
proof -
  obtain out1 pk1 where 1: "word_mask_circ True 0x0102030401020304 1 [1] = (out1, pk1)" by fastforce
  moreover obtain out2 pk2 where 2: "word_mask_circ True pk1 2 [2, 3] = (out2, pk2)" by fastforce
  ultimately show ?thesis
    using word_mask_circ_streams [of True "0x0102030401020304" "[1]" out1 pk1 "[2, 3]" out2 pk2]
    by (simp add: numeral_2_eq_2 numeral_3_eq_3)
qed

text \<open>
  The close code and the reason that an endpoint sends are those the other one reads; the
  reason is reported as an error exactly if it is not UTF-8.
\<close>

lemma close_payload_read_back:
  assumes "\<not> close_reserved code" and "\<not> close_invalid code"
  shows "extract_code le' (close_payload le code reason) = (code, NoError) \<and>
    fst (extract_reason (close_payload le code reason)) = reason \<and>
    (snd (extract_reason (close_payload le code reason)) = NoError \<longleftrightarrow> utf8_validate reason)"
  using extract_close_payload [OF assms] by simp

theorem close_payload_read_back_witness:
  "extract_code True (close_payload False cs_normal [98, 121, 101]) = (cs_normal, NoError)"
  using close_payload_read_back [of cs_normal True False "[98, 121, 101]"]
  by (simp add: close_reserved_def close_invalid_def cs_normal_def cs_rsv_start_def cs_rsv_end_def
    cs_invalid_low_def cs_invalid_high_def cs_no_status_def cs_abnormal_close_def cs_tls_handshake_def)

text \<open>
  C48: a data frame is let through exactly if the size of the message so far and of the frame
  add up, modulo \<open>2 ^ 64\<close>, to at most the maximum; a frame that claims almost \<open>2 ^ 64\<close> bytes is.
\<close>

theorem size_limit_wraps:
  assumes "\<not> opcode_is_control (get_opcode (m_basic_header s))"
  shows "fst (start_payload le s) = Ret NoError \<longleftrightarrow>
    (length (payload_so_far s) + unat (get_payload_size le (m_basic_header s) (m_extended_header s))) mod 2 ^ 64
      \<le> unat (m_max_message_size s)"
  using assms by (rule start_payload_limit)

theorem size_limit_wraps_witness:
  "fst (start_payload True ((hybi13_init True 1000)\<lparr>m_basic_header := \<lparr>b0 = 0x80, b1 = 0xFF\<rparr>,
     m_extended_header := replicate 8 0xFF @ replicate 4 0,
     m_data_msg := msg_metadata_of (Some ((message_init op_text)\<lparr>m_payload := [1, 2, 3]\<rparr>)) 0\<rparr>)) = Ret NoError"
proof -
  let ?s = "(hybi13_init True 1000)\<lparr>m_basic_header := \<lparr>b0 = 0x80, b1 = 0xFF\<rparr>,
     m_extended_header := replicate 8 0xFF @ replicate 4 0,
     m_data_msg := msg_metadata_of (Some ((message_init op_text)\<lparr>m_payload := [1, 2, 3]\<rparr>)) 0\<rparr>"
  have 1: "\<not> opcode_is_control (get_opcode (m_basic_header ?s))" by code_simp
  have 2: "get_payload_size True \<lparr>b0 = 0x80, b1 = 0xFF\<rparr> (replicate 8 0xFF @ replicate 4 0) = 0xFFFFFFFFFFFFFFFF"
    by code_simp
  show ?thesis
    using size_limit_wraps [OF 1, of True] 2
    by (simp add: payload_so_far_def msg_metadata_of_def message_init_def hybi13_init_def reset_headers_def)
qed


section \<open>The connection of the WebSocket library\<close>

text \<open>An open connection of an application without handlers, as input of the examples.\<close>

definition quiet_env :: "unit environment" where
  "quiet_env = \<lparr>little_endian = True, m_rng = (\<lambda>_. 0x37FA213D), m_close_handshake_timeout_dur = 5000,
     m_pong_timeout_dur = 5000, m_open_handler = None, m_close_handler = None, m_fail_handler = None,
     m_message_handler = None, m_ping_handler = None, m_pong_handler = None, m_pong_timeout_handler = None,
     m_interrupt_handler = None, m_termination_handler = False\<rparr>"

definition open_connection :: "bool \<Rightarrow> unit connection" where
  "open_connection server = (connection_init server ())\<lparr>m_internal_state := PROCESS_CONNECTION,
     m_con_state := SS_open, reads_pending := 1\<rparr>"

lemma open_connection_sel [simp]:
  "m_con_state (open_connection server) = SS_open" "posted (open_connection server) = []"
  "m_internal_state (open_connection server) = PROCESS_CONNECTION" "reads_pending (open_connection server) = 1"
  "m_processor (open_connection server) = hybi13_init server max_message_size" "in_transit (open_connection server) = []"
  "outgoing (open_connection server) = []" "written (open_connection server) = []" "m_was_clean (open_connection server) = False"
  "m_is_server (open_connection server) = server" "m_send_queue (open_connection server) = []"
  by (simp_all add: open_connection_def connection_init_def in_transit_def outgoing_def)

lemma open_connection_reachable: "con_reachable quiet_env (open_connection server)"
proof (rule reachable_step)
  show "con_reachable quiet_env (connection_init server ())"
    by (rule reachable_init) (auto simp: connection_start_def)
  have "connection_opened quiet_env [] (connection_init server ()) = Some (Ret (), open_connection server)"
    using read_loop_end [of quiet_env "[]"]
    by (simp add: connection_opened_def call_handler_def quiet_env_def handle_read_frame_def open_connection_def
      connection_init_def read_frame_def)
  then show "con_step quiet_env (connection_init server ()) (open_connection server)"
    by (intro con_step.opened [where rest = "[]"]) (simp_all add: connection_init_def)
qed



text \<open>
  C9: in a state that can be reached, a completed write finds the messages it was for, and
  handling a completed read, with any bytes and any handlers, ends without undefined behaviour.
\<close>

theorem completions_return:
  assumes "con_reachable env c"
  shows "(writes_pending c = Suc n \<longrightarrow> (\<exists>c'. handle_write_frame ec (c\<lparr>writes_pending := n\<rparr>) = (Ret (), c'))) \<and>
    (reads_pending c = Suc n \<longrightarrow> (\<exists>c'. handle_read_frame env ec buf (c\<lparr>reads_pending := n\<rparr>) = Some (Ret (), c')))"
  using con_inv_write_done [OF con_inv_reachable [OF assms]] con_inv_read_done [OF con_inv_reachable [OF assms]] by blast

theorem completions_return_witness:
  "\<exists>c'. handle_read_frame quiet_env NoError [0x81, 0] ((open_connection True)\<lparr>reads_pending := 0\<rparr>) = Some (Ret (), c')"
  using completions_return [OF open_connection_reachable [of True], of 0 NoError "[0x81, 0]"] by simp

text \<open>
  C10: whatever threads and transport do, what leaves the connection is a prefix of what was
  queued, in that order: nothing that was written or queued is lost, changed or overtaken.
\<close>

theorem queue_order_kept:
  assumes "con_reachable env c" and "(con_step env)\<^sup>*\<^sup>* c c'"
  shows "(\<exists>ms. outgoing c' = outgoing c @ ms) \<and> (\<exists>ws. written c' = written c @ ws) \<and>
    written c' @ m_send_queue c' = outgoing c'"
  using extends_steps [OF assms] by (simp add: extends_def outgoing_def)

lemma greeting_sent:
  "\<exists>f. outgoing (send_all quiet_env [(op_binary, [72, 105])] (open_connection False)) = [f] \<and>
    PostedInterrupt \<notin> set (posted (send_all quiet_env [(op_binary, [72, 105])] (open_connection False))) \<and>
    m_con_state (send_all quiet_env [(op_binary, [72, 105])] (open_connection False)) = SS_open \<and>
    \<not> end_in_transit (send_all quiet_env [(op_binary, [72, 105])] (open_connection False))"
proof -
  have "list_all (sendable 1000) [(op_binary, [72, 105])]" by (simp add: sendable_def opcode_defs)
  from send_all_frames [OF _ this, of "open_connection False" quiet_env True]
  show ?thesis by (auto simp: list_all2_Cons2 end_in_transit_def)
qed

theorem queue_order_kept_witness:
  "\<exists>f ms. outgoing (snd (con_ping quiet_env [] (send_all quiet_env [(op_binary, [72, 105])] (open_connection False)))) = f # ms"
proof -
  let ?c = "send_all quiet_env [(op_binary, [72, 105])] (open_connection False)"
  have "(con_step quiet_env)\<^sup>*\<^sup>* ?c (snd (con_ping quiet_env [] ?c))"
    using con_step.api [of quiet_env ?c "Api_ping []"] by (simp add: api_call_def r_into_rtranclp)
  from queue_order_kept [OF send_all_reachable [OF open_connection_reachable] this] greeting_sent show ?thesis by auto
qed

text \<open>
  C4: a transport whose writes succeed and which runs what is posted, in any order, comes to an
  end after at most three steps per queued message, two per outstanding write and one per posted
  function; then everything queued has been written, or the connection is closed because a
  message that was marked terminal has been written.
\<close>

theorem queued_messages_written:
  assumes "con_reachable env c" and "PostedInterrupt \<notin> set (posted c)" and "m_con_state c \<noteq> SS_closed"
  shows "(\<exists>n c'. (transport_step env ^^ n) c c' \<and> (\<nexists>d. transport_step env c' d)) \<and>
    ((transport_step env ^^ n) c c' \<longrightarrow>
      n \<le> 3 * length (m_send_queue c) + 2 * writes_pending c + length (posted c) \<and>
      ((\<nexists>d. transport_step env c' d) \<longrightarrow> writes_pending c' = 0 \<and>
        (if \<exists>m\<in>set (m_current_msgs c @ m_send_queue c). m_terminal m then m_con_state c' = SS_closed
         else m_send_queue c' = [] \<and> written c' = outgoing c)))"
  using everything_written [OF assms, of n c'] unfolding transport_work_def end_in_transit_def in_transit_def .

theorem queued_messages_written_witness:
  "\<exists>n c'. (transport_step quiet_env ^^ n) (send_all quiet_env [(op_binary, [72, 105])] (open_connection False)) c' \<and>
    (\<nexists>d. transport_step quiet_env c' d)"
  using queued_messages_written [OF send_all_reachable [OF open_connection_reachable]] greeting_sent by auto

text \<open>
  C6: handling a stream in any number of reads gives the same connection, the same calls of the
  handlers and the same messages queued as handling it in one read; only after a protocol error,
  when no read is outstanding any more, the state of the reader may differ.
\<close>

theorem reading_in_parts:
  assumes "con_reachable env c" and "reads_pending c = 1" and "m_internal_state c = PROCESS_CONNECTION"
  shows "\<exists>c1 c2. read_segments env bufs c = Some (Ret (), c1) \<and>
    handle_read_frame env NoError (concat bufs) (c\<lparr>reads_pending := 0\<rparr>) = Some (Ret (), c2) \<and>
    c1\<lparr>m_processor := m_processor c2\<rparr> = c2 \<and> (0 < reads_pending c1 \<longrightarrow> c1 = c2)"
  using segmentation_irrelevant [OF reachable_reading [OF assms] assms(2), of bufs]
  by (simp add: agree_def with_processor_def)

theorem reading_in_parts_witness:
  "\<exists>c1. read_segments quiet_env [[0x81], [0x82, 1], [2, 3]] (open_connection True) = Some (Ret (), c1)"
  using reading_in_parts [OF open_connection_reachable, of True "[[0x81], [0x82, 1], [2, 3]]"] by auto



text \<open>
  C8: a protocol error of the peer is answered with one close frame that carries the close code
  for the error, no further byte is read, and when the transport has come to an end the
  connection is closed.
\<close>

theorem protocol_error_closes:
  assumes "con_reachable env c" and "m_con_state c = SS_open" and "reads_pending c = 1"
    and "m_internal_state c = PROCESS_CONNECTION" and "PostedInterrupt \<notin> set (posted c)" and "buf \<noteq> []"
    and "consume (little_endian env) buf (m_processor c) = (Ret (n, ec), pr)" and "has_error ec"
  shows "\<exists>f c1. handle_read_frame env NoError buf (c\<lparr>reads_pending := 0\<rparr>) = Some (Ret (), c1) \<and>
    outgoing c1 = outgoing c @ [f] \<and> m_opcode f = op_close \<and> m_local_close_code c1 = to_ws ec \<and> reads_pending c1 = 0 \<and>
    (\<forall>le mx. delivers le (\<not> m_server (m_processor c)) mx f
       (accepted_message op_close (close_payload (little_endian env) (to_ws ec) (error_reason ec)))) \<and>
    (\<exists>k c2. (transport_step env ^^ k) c1 c2 \<and> (\<nexists>d. transport_step env c2 d)) \<and>
    (\<forall>k c2. (transport_step env ^^ k) c1 c2 \<and> (\<nexists>d. transport_step env c2 d) \<longrightarrow> m_con_state c2 = SS_closed)"
proof -
  let ?c = "c\<lparr>reads_pending := 0\<rparr>"
  have r: "reading env ?c"
    using reachable_reading [OF assms(1,3,4)] by (simp add: reading_def loop_inv_def reading_inv_def)
  have "fails ec (consume (little_endian env) buf (m_processor ?c))" using assms(7,8) by (simp add: failsI)
  from protocol_error_answered [OF r _ _ assms(6) this] assms(2) obtain f c1 where
    c1: "handle_read_frame env NoError buf ?c = Some (Ret (), c1)" "outgoing c1 = outgoing c @ [f]"
      "m_opcode f = op_close" "end_in_transit c1" "m_con_state c1 = SS_closing" "reads_pending c1 = 0"
      "PostedInterrupt \<notin> set (posted c1)" "m_local_close_code c1 = to_ws ec"
      "\<forall>le mx. delivers le (\<not> m_server (m_processor c)) mx f
         (accepted_message op_close (close_payload (little_endian env) (to_ws ec) (error_reason ec)))"
    using assms(5) by (auto simp: outgoing_def)
  have "con_step env c c1" using c1(1) assms(3) by (intro con_step.read_done [of c 0]) simp_all
  then have "con_reachable env c1" by (rule reachable_step [OF assms(1)])
  from everything_written [OF this c1(7)] c1 show ?thesis by (intro exI [of _ f] exI [of _ c1]) auto
qed

theorem protocol_error_closes_witness:
  "\<exists>f c1. handle_read_frame quiet_env NoError [0x80, 0x80] ((open_connection True)\<lparr>reads_pending := 0\<rparr>) = Some (Ret (), c1) \<and>
    outgoing c1 = [f] \<and> m_opcode f = op_close \<and> m_local_close_code c1 = cs_protocol_error"
proof -
  have "fst (consume True [0x80, 0x80] (hybi13_init True max_message_size)) = Ret (2, ProcessorError PE_invalid_continuation)"
    by code_simp
  then obtain pr where "consume True [0x80, 0x80] (hybi13_init True max_message_size) =
      (Ret (2, ProcessorError PE_invalid_continuation), pr)" by (metis prod.collapse)
  then show ?thesis
    using protocol_error_closes [OF open_connection_reachable, of True "[0x80, 0x80]" 2 "ProcessorError PE_invalid_continuation" pr]
    by (auto simp: quiet_env_def to_ws_def)
qed


lemma goodbye_sent:
  "\<exists>a1. connection_close quiet_env cs_normal [98, 121, 101] (open_connection False) = (NoError, a1) \<and>
    m_local_close_reason a1 = [98, 121, 101] \<and> reading quiet_env a1 \<and> reads_pending a1 = 1 \<and> idle (m_processor a1)"
proof -
  have code: "\<not> close_reserved cs_normal" "\<not> close_invalid cs_normal"
    by (simp_all add: close_reserved_def close_invalid_def close_codes)
  obtain a1 where a1: "connection_close quiet_env cs_normal [98, 121, 101] (open_connection False) = (NoError, a1)"
    "m_local_close_reason a1 = [98, 121, 101]"
    using close_reason_cut [OF _ code, of "open_connection False" quiet_env "[98, 121, 101]"] by auto
  obtain lc lr f where f: "closing_with (open_connection False) lc lr False f a1"
    using connection_close_succeeds [OF a1(1)] by auto
  note sel = closing_with_sel [OF f]
  have "con_step quiet_env (open_connection False) a1"
    using con_step.api [of quiet_env "open_connection False" "Api_close cs_normal [98, 121, 101]"] a1(1) by (simp add: api_call_def)
  then have "con_reachable quiet_env a1" by (rule reachable_step [OF open_connection_reachable])
  then show ?thesis using a1 sel reachable_reading by (auto simp: idle_init)
qed


text \<open>
  C39: a message whose sender has passed the check of the state when another thread closes the
  connection is queued behind the close frame.
\<close>

theorem send_race_after_close:
  assumes "connection_close env code reason c = (NoError, c2)" and "send_enqueue env msg c2 = (NoError, c3)" and "\<not> m_prepared msg"
  shows "send_state_check c = NoError \<and> has_error (send_state_check c2) \<and>
    (\<exists>f d. outgoing c3 = outgoing c @ [f, d] \<and> m_opcode f = op_close \<and> m_opcode d = m_opcode msg \<and> m_opcode d \<noteq> op_close)"
  using send_race [OF assms] by blast

theorem send_race_after_close_witness:
  "\<exists>c2 c3 f d. fst (connection_close quiet_env cs_normal [98, 121, 101] (open_connection False)) = NoError \<and>
    send_enqueue quiet_env (message_init op_binary) c2 = (NoError, c3) \<and> outgoing c3 = [f, d] \<and>
    m_opcode f = op_close \<and> m_opcode d = op_binary"
proof -
  obtain c2 where c2: "connection_close quiet_env cs_normal [98, 121, 101] (open_connection False) = (NoError, c2)"
    using goodbye_sent by blast
  obtain f where "send_enqueue quiet_env (message_init op_binary) c2 = (NoError, enqueue f c2)"
    using send_enqueue_frame [of "message_init op_binary" 0 quiet_env c2 True] by (auto simp: message_init_def opcode_defs)
  from send_race_after_close [OF c2 this] this c2 show ?thesis by (auto simp: message_init_def)
qed

text \<open>
  C59: \<open>close\<close> cuts the reason after 123 bytes even inside a character; the peer then answers with
  a protocol error instead of the code it was sent.
\<close>

theorem cut_reason_rejected:
  assumes "m_con_state a = SS_open" and "\<not> close_reserved code" and "\<not> close_invalid code"
    and "\<not> utf8_validate (take 123 reason)" and "m_con_state b = SS_open"
  shows "\<exists>a1. connection_close env code reason a = (NoError, a1) \<and> m_local_close_reason a1 = take 123 reason \<and>
    m_local_close_code (process_close_frame env' (close_payload (little_endian env) (m_local_close_code a1) (m_local_close_reason a1)) b)
      = cs_protocol_error"
proof -
  have code: "code \<noteq> cs_no_status" using assms(3) by (auto simp: close_invalid_def)
  have s: "sendable_close code (take 123 reason)" using assms(2,3) code by (simp add: sendable_close_def)
  obtain a1 where a1: "connection_close env code reason a = (NoError, a1)" "m_local_close_code a1 = code"
    "m_local_close_reason a1 = take 123 reason" using close_reason_cut [OF assms(1-3)] by blast
  show ?thesis
    using a1 close_rejected [OF assms(5) s assms(4) code, of env' "little_endian env"] closing_with_sel(4) by fastforce
qed

definition long_reason :: bytes where
  "long_reason = replicate 122 97 @ [0xC3, 0xA9]"

theorem cut_reason_rejected_witness:
  "utf8_validate long_reason \<and> (\<exists>a1. connection_close quiet_env cs_normal long_reason (open_connection False) = (NoError, a1) \<and>
    m_local_close_code (process_close_frame quiet_env (close_payload True (m_local_close_code a1) (m_local_close_reason a1))
      (open_connection True)) = cs_protocol_error)"
proof -
  have "utf8_validate long_reason" "\<not> utf8_validate (take 123 long_reason)" by code_simp+
  moreover have "\<not> close_reserved cs_normal" "\<not> close_invalid cs_normal"
    by (simp_all add: close_reserved_def close_invalid_def close_codes)
  ultimately show ?thesis
    using cut_reason_rejected [of "open_connection False" cs_normal long_reason "open_connection True" quiet_env quiet_env]
    by (auto simp: quiet_env_def)
qed

section \<open>The opening handshake\<close>

text \<open>
  C1: what a client sends to open a connection, the server reads in any cut into reads, accepts as a
  handshake of version 13 with the subprotocols asked for, and answers; and the client accepts
  the answer, in any cut and whatever frames follow it. Each read costs three bytes of the limit
  on headers.
\<close>

theorem opening_handshake:
  assumes u: "client_uri u" and ps: "list_all is_token ps" and sub: "sub \<in> insert [] (set ps)"
    and w: "length w = 80" "length w' = 80"
    and req: "client_handshake_request le rng k request_init u ps = HRet (NoError, req)"
    and cs: "concat cs = request_raw req @ rest" "cs \<noteq> []" "[] \<notin> set cs"
    and cs_size: "250 + length (m_resource u) + length (get_host_port u) + length (join_list ps) + length cs * 3 \<le> 16000"
  shows "\<exists>q res. reads request_consume cs request_init = HRet (length (request_raw req), q) \<and>
    m_ready q \<and> is_websocket_handshake q \<and> get_websocket_version q = 13 \<and> validate_handshake q = NoError \<and>
    negotiate_extensions True q = (NoError, []) \<and> extract_subprotocols q [] = (NoError, ps) \<and>
    process_handshake w q sub (set_status sc_switching_protocols response_init) = HRet (NoError, res) \<and>
    get_header res (str ''Sec-WebSocket-Protocol'') = sub \<and>
    (\<forall>ds rest'. concat ds = response_raw (set_version (str ''HTTP/1.1'') res) @ rest' \<longrightarrow> ds \<noteq> [] \<longrightarrow> [] \<notin> set ds \<longrightarrow>
      228 + length sub + length ds * 3 \<le> 16000 \<longrightarrow>
      (\<exists>r. reads response_consume ds response_init =
            HRet (length (response_raw (set_version (str ''HTTP/1.1'') res)), r) \<and>
          headers_ready r \<and> negotiate_extensions False r = (NoError, []) \<and>
          validate_server_handshake_response w' req r = NoError))"
  using handshake_in_reads [OF u ps sub w, of cs le rng k rest] req cs cs_size
  by (simp add: client_handshake_request_eq sizeof_delimiter_def max_header_size_def)

definition robot_uri :: uri where
  "robot_uri = uri_scheme_port (str ''ws'') (str ''robot'') 9002 (str ''/r2cp'')"

theorem opening_handshake_witness:
  "\<exists>q. reads request_consume [request_raw (client_request True (\<lambda>_. 7) 0 robot_uri [str ''r2cp''])] request_init =
      HRet (length (request_raw (client_request True (\<lambda>_. 7) 0 robot_uri [str ''r2cp''])), q) \<and>
    is_websocket_handshake q \<and> extract_subprotocols q [] = (NoError, [str ''r2cp''])"
proof -
  let ?req = "client_request True (\<lambda>_. 7) 0 robot_uri [str ''r2cp'']"
  have u: "client_uri robot_uri" by code_simp
  have ps: "list_all is_token [str ''r2cp'']" by code_simp
  have raw: "request_raw ?req \<noteq> []" by (simp add: request_raw_def)
  have size: "250 + length (m_resource robot_uri) + length (get_host_port robot_uri) + length (join_list [str ''r2cp'']) +
      length [request_raw ?req] * 3 \<le> 16000"
  proof -
    have "length (m_resource robot_uri) = 5" "length (get_host_port robot_uri) = 10" by code_simp+
    then show ?thesis by (simp add: length_str)
  qed
  show ?thesis
    using opening_handshake [OF u ps, of "[]" "replicate 80 0" "replicate 80 0" True "\<lambda>_. 7" 0 ?req "[request_raw ?req]" "[]"]
      raw size by (auto simp: client_handshake_request_eq)
qed

text \<open>
  C11: a request whose parts are what a header can carry is read back as it was printed, with its
  body, in any cut into reads; the bytes that follow it are left.
\<close>

theorem request_read_back_in_parts:
  assumes "request_printable r" "concat cs = request_raw r @ rest" "cs \<noteq> []" "[] \<notin> set cs"
    and "header_size (request_lines r) + length cs * 3 \<le> 16000"
  shows "\<exists>q. reads request_consume cs request_init = HRet (length (request_raw r), q) \<and> m_ready q \<and>
    m_method q = m_method r \<and> m_uri q = m_uri r \<and> m_version q = m_version r \<and> m_headers q = m_headers r \<and>
    m_body q = m_body r"
proof -
  obtain d where "reads request_consume cs request_init =
      HRet (length (request_raw r), count_header d (request_read_back r))"
    using request_in_reads [OF assms(1-4)] assms(5) by (auto simp: sizeof_delimiter_def max_header_size_def)
  then show ?thesis by (simp add: count_header_def request_read_back_def)
qed

definition posted_request :: request where
  "posted_request = request_init\<lparr>m_method := str ''POST'', m_uri := str ''/'', m_version := str ''HTTP/1.1'',
     m_headers := [(str ''Content-Length'', str ''2''), (str ''Host'', str ''robot'')], m_body := str ''go''\<rparr>"

theorem request_read_back_in_parts_witness:
  "\<exists>q. reads request_consume [take 30 (request_raw posted_request), drop 30 (request_raw posted_request) @ [1]] request_init =
      HRet (length (request_raw posted_request), q) \<and> m_ready q \<and> m_body q = str ''go''"
proof -
  have "headers_printable [(str ''Content-Length'', str ''2''), (str ''Host'', str ''robot'')]"
    "header_find (str ''Host'') [(str ''Content-Length'', str ''2''), (str ''Host'', str ''robot'')] = Some (str ''robot'')"
    "header_find (str ''Content-Length'') [(str ''Content-Length'', str ''2''), (str ''Host'', str ''robot'')] = Some (str ''2'')"
    "str ''2'' = str (udec 2)" "header_name (str ''POST'')" "32 \<notin> set (str ''/'')" "no_crlf (str ''/'')"
    by code_simp+
  then have "request_printable posted_request"
    using http_version_text
    by (simp add: request_printable_def posted_request_def get_header_def body_agrees_def length_str max_body_size_def)
      (simp add: numeral_2_eq_2)
  moreover have "header_size (request_lines posted_request) = 55" "length (request_raw posted_request) = 53"
    by (simp_all add: header_size_def request_lines_def request_line_text_def posted_request_def header_line_def length_str
      sizeof_delimiter_def request_raw_def raw_headers_def)
  ultimately show ?thesis
    using request_read_back_in_parts [of posted_request "[take 30 (request_raw posted_request), drop 30 (request_raw posted_request) @ [1]]" "[1]"]
    by (cases "request_raw posted_request = []")
      (auto simp: posted_request_def [THEN arg_cong, of m_body] simp del: reads.simps)
qed


text \<open>
  C36: the limit on headers counts three bytes for every read that ends within a line. A request
  line that is accepted in one read is rejected, when it is longer than a quarter of the limit,
  if it arrives byte by byte.
\<close>

theorem slow_request_rejected:
  assumes "no_crlf s" "16000 < 4 * length s" "length s + 3 \<le> 16000"
  shows "reads request_consume (map (\<lambda>c. [c]) s) request_init =
      http_throw ''Maximum header size exceeded.'' sc_request_header_fields_too_large \<and>
    (\<exists>r. reads request_consume [s] request_init = HRet (length s, r))"
  using slow_reads_rejected [OF assms(1)] assms(2,3) by (simp add: sizeof_delimiter_def max_header_size_def)

theorem slow_request_rejected_witness:
  "reads request_consume (map (\<lambda>c. [c]) (replicate 4001 65)) request_init =
     http_throw ''Maximum header size exceeded.'' sc_request_header_fields_too_large"
proof -
  have "no_crlf (replicate 4001 65)" by (rule no_crlf_no_cr) simp
  then show ?thesis using slow_request_rejected [of "replicate 4001 65"] by simp
qed



text \<open>
  C65: a \<open>Host\<close> header with a port that no \<open>int\<close> can hold, which any client may send, makes the
  behaviour of the server undefined when it looks at the URI.
\<close>

theorem host_port_undefined:
  assumes "get_header r (str ''Host'') = h @ 58 # str (udec n)" "93 \<notin> set h" "2147483648 \<le> n"
  shows "hybi13_get_uri secure r = HUndefined"
  using huge_port_undefined [OF assms(1,2)] assms(3) by simp

theorem host_port_undefined_witness:
  "hybi13_get_uri False (replace_header (str ''Host'') (str ''robot:4294976298'') request_init) = HUndefined"
proof -
  have "str ''robot:4294976298'' = str ''robot'' @ 58 # str (udec 4294976298)"
    by (simp add: udec_def idec.simps str_def byte_of_digit_char) (simp add: byte_of_char_def)
  then have "get_header (replace_header (str ''Host'') (str ''robot:4294976298'') request_init) (str ''Host'') =
      str ''robot'' @ 58 # str (udec 4294976298)"
    by (simp add: header_simps)
  moreover have "93 \<notin> set (str ''robot'')" by code_simp
  ultimately show ?thesis by (rule host_port_undefined) simp
qed

end
